(* ===== verification/Rust_Prelude.thy ===== *)
theory Rust_Prelude
  imports Main
    "HOL-Library.Char_ord"
    "HOL-Library.List_Lexorder"
    "HOL-Library.Product_Lexorder"
    "HOL-Library.Monad_Syntax"
begin

text \<open>
  What the components share of Rust and its standard library: texts as byte
  sequences with the lexical operations of \<open>str\<close> the code calls, decimal
  printing and parsing of integers, calls that may panic, and the generic
  lemmas on all of these.

  A Rust \<open>String\<close> is modelled by the sequence of its UTF-8 bytes, so an index
  of the model is a byte index of the code and \<open>length\<close> is \<open>str::len\<close>.  The
  operations that Rust defines on Unicode scalar values (\<open>trim\<close>,
  \<open>is_whitespace\<close>, \<open>to_lowercase\<close>, \<open>to_uppercase\<close>) are modelled on the ASCII
  range and leave every byte above 127 alone.  A slice at an index that is not
  a character boundary panics in Rust; it is \<open>Panic\<close> here.
\<close>

named_theorems text_simps \<open>evaluation rules of the lexical operations\<close>
named_theorems len_le \<open>length bounds used by termination proofs\<close>

type_synonym 'a run = "'a option"

abbreviation (input) Panic :: "'a run" where "Panic \<equiv> None"
abbreviation (input) ret :: "'a \<Rightarrow> 'a run" where "ret \<equiv> Some"

type_synonym ('k, 'v) hash_map = "('k \<times> 'v) list"

subsection \<open>Bytes\<close>

definition code :: "char \<Rightarrow> int" where
  "code c = of_char c"

definition is_ascii_digit :: "char \<Rightarrow> bool" where
  "is_ascii_digit c \<longleftrightarrow> 48 \<le> code c \<and> code c \<le> 57"

definition is_ascii_upper :: "char \<Rightarrow> bool" where
  "is_ascii_upper c \<longleftrightarrow> 65 \<le> code c \<and> code c \<le> 90"

definition is_ascii_lower :: "char \<Rightarrow> bool" where
  "is_ascii_lower c \<longleftrightarrow> 97 \<le> code c \<and> code c \<le> 122"

definition is_ascii_alphabetic :: "char \<Rightarrow> bool" where
  "is_ascii_alphabetic c \<longleftrightarrow> is_ascii_upper c \<or> is_ascii_lower c"

definition is_ascii_alphanumeric :: "char \<Rightarrow> bool" where
  "is_ascii_alphanumeric c \<longleftrightarrow> is_ascii_alphabetic c \<or> is_ascii_digit c"

definition is_whitespace :: "char \<Rightarrow> bool" where
  "is_whitespace c \<longleftrightarrow> (9 \<le> code c \<and> code c \<le> 13) \<or> code c = 32"

definition is_continuation :: "char \<Rightarrow> bool" where
  \<comment> \<open>a UTF-8 continuation byte: a slice cannot start at one\<close>
  "is_continuation c \<longleftrightarrow> 128 \<le> code c \<and> code c < 192"

definition to_lower_byte :: "char \<Rightarrow> char" where
  "to_lower_byte c = (if is_ascii_upper c then char_of (code c + 32) else c)"

definition to_upper_byte :: "char \<Rightarrow> char" where
  "to_upper_byte c = (if is_ascii_lower c then char_of (code c - 32) else c)"

definition to_lowercase :: "string \<Rightarrow> string" where
  "to_lowercase s = map to_lower_byte s"

definition to_uppercase :: "string \<Rightarrow> string" where
  "to_uppercase s = map to_upper_byte s"

definition eq_ignore_case :: "string \<Rightarrow> string \<Rightarrow> bool" where
  "eq_ignore_case s t \<longleftrightarrow> to_lowercase s = to_lowercase t"

definition push_byte :: "char \<Rightarrow> string" where
  \<comment> \<open>\<open>out.push(b as char)\<close>: the scalar value with the byte's number, in UTF-8\<close>
  "push_byte b =
     (if code b < 128 then [b]
      else [char_of (192 + code b div 64), char_of (128 + code b mod 64)])"

definition ascii_text :: "string \<Rightarrow> bool" where
  "ascii_text s \<longleftrightarrow> list_all (\<lambda>c. code c < 128) s"

subsection \<open>Trimming, prefixes, search\<close>

definition trim_start :: "string \<Rightarrow> string" where
  "trim_start s = dropWhile is_whitespace s"

definition trim_end :: "string \<Rightarrow> string" where
  "trim_end s = rev (dropWhile is_whitespace (rev s))"

definition trim :: "string \<Rightarrow> string" where
  "trim s = trim_end (trim_start s)"

fun strip_prefix :: "string \<Rightarrow> string \<Rightarrow> string option" where
  "strip_prefix [] s = Some s"
| "strip_prefix (p # ps) [] = None"
| "strip_prefix (p # ps) (c # cs) = (if p = c then strip_prefix ps cs else None)"

definition starts_with :: "string \<Rightarrow> string \<Rightarrow> bool" where
  "starts_with s p \<longleftrightarrow> strip_prefix p s \<noteq> None"

definition ends_with :: "string \<Rightarrow> string \<Rightarrow> bool" where
  "ends_with s p \<longleftrightarrow> starts_with (rev s) (rev p)"

fun find_sub :: "string \<Rightarrow> string \<Rightarrow> nat option" where
  \<comment> \<open>\<open>hay.find(needle)\<close>: the least index at which the needle starts\<close>
  "find_sub [] needle = (if needle = [] then Some 0 else None)"
| "find_sub (c # cs) needle =
     (if starts_with (c # cs) needle then Some 0 else map_option Suc (find_sub cs needle))"

definition contains :: "string \<Rightarrow> string \<Rightarrow> bool" where
  "contains s needle \<longleftrightarrow> find_sub s needle \<noteq> None"

fun split_on :: "char \<Rightarrow> string \<Rightarrow> string list" where
  \<comment> \<open>\<open>s.split(c)\<close>: never empty\<close>
  "split_on c [] = [[]]"
| "split_on c (x # xs) =
     (if x = c then [] # split_on c xs
      else (case split_on c xs of [] \<Rightarrow> [[x]] | y # ys \<Rightarrow> (x # y) # ys))"

fun split_once :: "char \<Rightarrow> string \<Rightarrow> (string \<times> string) option" where
  "split_once c [] = None"
| "split_once c (x # xs) =
     (if x = c then Some ([], xs)
      else map_option (\<lambda>(a, b). (x # a, b)) (split_once c xs))"

fun split_ws_aux :: "string \<Rightarrow> string \<Rightarrow> string list" where
  "split_ws_aux w [] = (if w = [] then [] else [w])"
| "split_ws_aux w (x # xs) =
     (if is_whitespace x then (if w = [] then split_ws_aux [] xs else w # split_ws_aux [] xs)
      else split_ws_aux (w @ [x]) xs)"

definition split_whitespace :: "string \<Rightarrow> string list" where
  "split_whitespace s = split_ws_aux [] s"

fun join :: "string \<Rightarrow> string list \<Rightarrow> string" where
  "join sep [] = []"
| "join sep [x] = x"
| "join sep (x # y # zs) = x @ sep @ join sep (y # zs)"

subsection \<open>Integers in decimal\<close>

definition digit :: "nat \<Rightarrow> char" where
  "digit d = char_of (48 + int d)"

definition digit_val :: "char \<Rightarrow> int" where
  "digit_val c = code c - 48"

fun show_nat :: "nat \<Rightarrow> string" where
  "show_nat n = (if n < 10 then [digit n] else show_nat (n div 10) @ [digit (n mod 10)])"

declare show_nat.simps [simp del]

definition show_int :: "int \<Rightarrow> string" where
  "show_int i = (if i < 0 then CHR ''-'' # show_nat (nat (- i)) else show_nat (nat i))"

definition int_of_digits :: "string \<Rightarrow> int" where
  "int_of_digits s = foldl (\<lambda>n c. 10 * n + digit_val c) 0 s"

definition digits_text :: "string \<Rightarrow> bool" where
  "digits_text s \<longleftrightarrow> s \<noteq> [] \<and> list_all is_ascii_digit s"

definition int_of_text :: "string \<Rightarrow> int option" where
  \<comment> \<open>sign and digits of a Rust integer literal given to \<open>str::parse\<close>\<close>
  "int_of_text s =
     (case s of
        [] \<Rightarrow> None
      | c # cs \<Rightarrow>
          if c = CHR ''-'' then
            (if digits_text cs then Some (- int_of_digits cs) else None)
          else if c = CHR ''+'' then
            (if digits_text cs then Some (int_of_digits cs) else None)
          else if digits_text s then Some (int_of_digits s) else None)"

definition parse_i64 :: "string \<Rightarrow> int option" where
  "parse_i64 s =
     (case int_of_text s of
        None \<Rightarrow> None
      | Some i \<Rightarrow> if - (2 ^ 63) \<le> i \<and> i < 2 ^ 63 then Some i else None)"

definition parse_u32 :: "string \<Rightarrow> int option" where
  \<comment> \<open>an unsigned parse takes a leading \<open>+\<close> and refuses a leading \<open>-\<close>\<close>
  "parse_u32 s =
     (case s of
        [] \<Rightarrow> None
      | c # cs \<Rightarrow>
          let ds = (if c = CHR ''+'' then cs else s)
          in if digits_text ds \<and> int_of_digits ds < 2 ^ 32 then Some (int_of_digits ds) else None)"

subsection \<open>Debug formatting\<close>

definition hex_digit :: "int \<Rightarrow> char" where
  "hex_digit d = (if d < 10 then char_of (48 + d) else char_of (87 + d))"

definition escape_byte :: "char \<Rightarrow> string" where
  "escape_byte c =
     (if code c = 34 then [CHR 0x5C, CHR 0x22]
      else if code c = 92 then [CHR 0x5C, CHR 0x5C]
      else if code c = 10 then [CHR 0x5C, CHR ''n'']
      else if code c = 13 then [CHR 0x5C, CHR ''r'']
      else if code c = 9 then [CHR 0x5C, CHR ''t'']
      else if code c = 0 then [CHR 0x5C, CHR ''0'']
      else if code c < 16 then [CHR 0x5C] @ ''u{'' @ [hex_digit (code c)] @ ''}''
      else if code c < 32 \<or> code c = 127 then
        [CHR 0x5C] @ ''u{'' @ [hex_digit (code c div 16), hex_digit (code c mod 16)] @ ''}''
      else [c])"

definition debug_str :: "string \<Rightarrow> string" where
  \<comment> \<open>\<open>{:?}\<close> of a string\<close>
  "debug_str s = [CHR 0x22] @ concat (map escape_byte s) @ [CHR 0x22]"

definition debug_str_list :: "string list \<Rightarrow> string" where
  "debug_str_list xs = ''['' @ join '', '' (map debug_str xs) @ '']''"

subsection \<open>Lemmas on texts\<close>

lemma code_range [simp]: "0 \<le> code c" "code c < 256"
  by (simp_all add: code_def of_char_def)

lemma code_char_of [simp]: "0 \<le> n \<Longrightarrow> n < 256 \<Longrightarrow> code (char_of n) = n"
  by (simp add: code_def)

lemma code_inject [simp]: "code a = code b \<longleftrightarrow> a = b"
  by (simp add: code_def)

lemma length_to_lowercase [simp]: "length (to_lowercase s) = length s"
  by (simp add: to_lowercase_def)

lemma push_byte_ascii [simp]: "code b < 128 \<Longrightarrow> push_byte b = [b]"
  by (simp add: push_byte_def)

lemma ascii_text_simps [simp]:
  "ascii_text []" "ascii_text (c # cs) \<longleftrightarrow> code c < 128 \<and> ascii_text cs"
  by (simp_all add: ascii_text_def)

lemma set_trim_start: "set (trim_start s) \<subseteq> set s"
  by (auto simp: trim_start_def dest: set_dropWhileD)

lemma set_trim_end: "set (trim_end s) \<subseteq> set s"
  unfolding trim_end_def by (metis set_dropWhileD set_rev subsetI)

lemma set_trim: "set (trim s) \<subseteq> set s"
  using set_trim_end set_trim_start by (fastforce simp: trim_def)

lemma length_trim_start [len_le]: "length (trim_start s) \<le> length s"
  by (simp add: trim_start_def length_dropWhile_le)

lemma length_trim_end [len_le]: "length (trim_end s) \<le> length s"
  unfolding trim_end_def by (metis length_dropWhile_le length_rev)

lemma length_trim [len_le]: "length (trim s) \<le> length s"
  by (metis length_trim_end length_trim_start order_trans trim_def)

lemma strip_prefix_Some: "strip_prefix p s = Some r \<longleftrightarrow> s = p @ r"
  by (induction p s rule: strip_prefix.induct) auto

lemma starts_with_append: "starts_with s p \<longleftrightarrow> (\<exists>r. s = p @ r)"
  by (auto simp: starts_with_def strip_prefix_Some)

lemma starts_with_Cons [simp]:
  "starts_with (c # cs) (p # ps) \<longleftrightarrow> p = c \<and> starts_with cs ps"
  "starts_with s []" "\<not> starts_with [] (p # ps)"
  by (auto simp: starts_with_def)

lemma find_sub_Some:
  "find_sub s needle = Some i \<Longrightarrow> i + length needle \<le> length s \<and> take (length needle) (drop i s) = needle"
proof (induction s arbitrary: i)
  case Nil
  then show ?case by (auto split: if_splits)
next
  case (Cons c cs)
  show ?case
  proof (cases "starts_with (c # cs) needle")
    case True
    then obtain r where r: "c # cs = needle @ r" by (auto simp: starts_with_append)
    from True Cons.prems have "i = 0" by simp
    with r show ?thesis
      by (metis add_0 append_eq_conv_conj drop_0 le_add1 length_append)
  next
    case False
    with Cons show ?thesis by auto
  qed
qed

lemma find_sub_split:
  "find_sub s needle = Some i \<Longrightarrow> s = take i s @ needle @ drop (i + length needle) s"
  by (metis add.commute append_take_drop_id drop_drop find_sub_Some)

lemma contains_iff: "contains s needle \<longleftrightarrow> (\<exists>a b. s = a @ needle @ b)"
proof
  assume "contains s needle"
  then show "\<exists>a b. s = a @ needle @ b"
    by (auto simp: contains_def dest: find_sub_split)
next
  have "contains (a @ needle @ b) needle" for a b
  proof (induction a)
    case Nil
    have "starts_with (needle @ b) needle" by (auto simp: starts_with_append)
    then show ?case by (cases "needle @ b") (auto simp: contains_def)
  next
    case (Cons x a)
    then show ?case by (auto simp: contains_def)
  qed
  then show "contains s needle" if "\<exists>a b. s = a @ needle @ b"
    using that by blast
qed

lemma split_on_not_Nil [simp]: "split_on c s \<noteq> []"
  by (cases s) (auto split: list.splits)

lemma join_Cons: "join sep (x # xs) = (if xs = [] then x else x @ sep @ join sep xs)"
  by (cases xs) auto

lemma join_append:
  "join sep (xs @ ys) =
     (if xs = [] then join sep ys else if ys = [] then join sep xs
      else join sep xs @ sep @ join sep ys)"
  by (induction xs) (auto simp: join_Cons)

lemma join_split_on [simp]: "join [c] (split_on c s) = s"
  by (induction s) (auto simp: join_Cons split: list.splits)

lemma split_on_join:
  "xs \<noteq> [] \<Longrightarrow> (\<And>y. y \<in> set xs \<Longrightarrow> c \<notin> set y) \<Longrightarrow> split_on c (join [c] xs) = xs"
proof (induction xs)
  case (Cons y xs)
  have one: "split_on c y = [y]" if "c \<notin> set y" for y using that by (induction y) auto
  have app: "split_on c (y @ c # z) = y # split_on c z" if "c \<notin> set y" for y z
    using that by (induction y) auto
  show ?case
    using Cons by (cases "xs = []") (simp_all add: join_Cons one app)
qed simp

lemma split_on_no_sep: "p \<in> set (split_on c s) \<Longrightarrow> c \<notin> set p"
  by (induction s arbitrary: p) (auto split: list.splits if_splits)

lemma split_once_Some: "split_once c s = Some (a, b) \<Longrightarrow> s = a @ c # b \<and> c \<notin> set a"
  by (induction s arbitrary: a b) (auto split: if_splits)

lemma split_once_None: "split_once c s = None \<longleftrightarrow> c \<notin> set s"
  by (induction s) auto

lemma split_once_append [simp]: "c \<notin> set a \<Longrightarrow> split_once c (a @ c # b) = Some (a, b)"
  by (induction a) auto

lemma takeWhile_eq_Nil: "takeWhile P xs = [] \<longleftrightarrow> (case xs of [] \<Rightarrow> True | x # _ \<Rightarrow> \<not> P x)"
  by (cases xs) auto

subsection \<open>Lemmas on decimal text\<close>

lemma digit_val_digit [simp]: "d < 10 \<Longrightarrow> digit_val (digit d) = int d"
  by (simp add: digit_def digit_val_def)

lemma is_ascii_digit_digit [simp]: "d < 10 \<Longrightarrow> is_ascii_digit (digit d)"
  by (simp add: digit_def is_ascii_digit_def)

lemma show_nat_not_Nil [simp]: "show_nat n \<noteq> []"
  by (subst show_nat.simps) simp

lemma show_nat_digits: "list_all is_ascii_digit (show_nat n)"
proof (induction n rule: show_nat.induct)
  case (1 n)
  then show ?case
    by (cases "n < 10") (subst show_nat.simps, simp)+
qed

lemma int_of_digits_snoc [simp]: "int_of_digits (s @ [c]) = 10 * int_of_digits s + digit_val c"
  by (simp add: int_of_digits_def)

lemma int_of_digits_show [simp]: "int_of_digits (show_nat n) = int n"
proof (induction n rule: show_nat.induct)
  case (1 n)
  show ?case
  proof (cases "n < 10")
    case True
    then show ?thesis by (subst show_nat.simps) (simp add: int_of_digits_def)
  next
    case False
    have "10 * int (n div 10) + int (n mod 10) = int n" by presburger
    with 1 False show ?thesis by (subst show_nat.simps) simp
  qed
qed

lemma show_nat_inject [simp]: "show_nat m = show_nat n \<longleftrightarrow> m = n"
  by (metis int_of_digits_show of_nat_eq_iff)

lemma digits_text_show_nat [simp]: "digits_text (show_nat n)"
  by (simp add: digits_text_def show_nat_digits)

lemma show_nat_hd_not_sign: "show_nat n = c # cs \<Longrightarrow> c \<noteq> CHR ''-'' \<and> c \<noteq> CHR ''+''"
  using show_nat_digits [of n] by (auto simp: is_ascii_digit_def code_def)

lemma int_of_text_show_int [simp]: "int_of_text (show_int i) = Some i"
proof (cases "i < 0")
  case True
  then show ?thesis by (simp add: int_of_text_def show_int_def)
next
  case False
  then obtain c cs where "show_nat (nat i) = c # cs"
    by (meson list.exhaust show_nat_not_Nil)
  with False show ?thesis
    using show_nat_hd_not_sign digits_text_show_nat [of "nat i"] int_of_digits_show [of "nat i"]
    by (simp add: int_of_text_def show_int_def)
qed

lemma parse_i64_show_int: "- (2 ^ 63) \<le> i \<Longrightarrow> i < 2 ^ 63 \<Longrightarrow> parse_i64 (show_int i) = Some i"
  by (simp add: parse_i64_def)

lemma parse_i64_range: "parse_i64 s = Some i \<Longrightarrow> - (2 ^ 63) \<le> i \<and> i < 2 ^ 63"
  by (auto simp: parse_i64_def split: option.splits if_splits)

lemma show_int_inject [simp]: "show_int i = show_int j \<longleftrightarrow> i = j"
  by (metis int_of_text_show_int option.inject)

subsection \<open>UTF-8 validation\<close>

definition in_range :: "int \<Rightarrow> int \<Rightarrow> char \<Rightarrow> bool" where
  "in_range lo hi c \<longleftrightarrow> lo \<le> code c \<and> code c \<le> hi"

definition second_ok :: "char \<Rightarrow> char \<Rightarrow> bool" where
  \<comment> \<open>the second bytes a three- or four-byte sequence may have after its first byte\<close>
  "second_ok a b =
     (if code a = 0xE0 then in_range 0xA0 0xBF b
      else if code a = 0xED then in_range 0x80 0x9F b
      else if code a = 0xF0 then in_range 0x90 0xBF b
      else if code a = 0xF4 then in_range 0x80 0x8F b
      else is_continuation b)"

definition utf8_width :: "char \<Rightarrow> nat" where
  "utf8_width c =
     (if code c < 0x80 then 1 else if in_range 0xC2 0xDF c then 2 else if in_range 0xE0 0xEF c then 3
      else if in_range 0xF0 0xF4 c then 4 else 0)"

definition utf8_head :: "char \<Rightarrow> string \<Rightarrow> nat \<times> bool" where
  \<comment> \<open>how many bytes the sequence at the head has, or how many form one invalid prefix\<close>
  "utf8_head a cs =
     (let w = utf8_width a
      in if w = 0 then (1, False)
         else if w = 1 then (1, True)
         else (case cs of
                 [] \<Rightarrow> (1, False)
               | b # cs1 \<Rightarrow>
                   if \<not> (if w = 2 then is_continuation b else second_ok a b) then (1, False)
                   else if w = 2 then (2, True)
                   else (case cs1 of
                           [] \<Rightarrow> (2, False)
                         | c # cs2 \<Rightarrow>
                             if \<not> is_continuation c then (2, False)
                             else if w = 3 then (3, True)
                             else (case cs2 of
                                     [] \<Rightarrow> (3, False)
                                   | d # cs3 \<Rightarrow> if is_continuation d then (4, True) else (3, False)))))"

function utf8_lossy :: "string \<Rightarrow> string" where
  \<comment> \<open>\<open>String::from_utf8_lossy\<close>: one U+FFFD for every maximal invalid prefix\<close>
  "utf8_lossy [] = []"
| "utf8_lossy (a # cs) =
     (case utf8_head a cs of
        (n, ok) \<Rightarrow>
          (if ok then take n (a # cs) else [CHR 0xEF, CHR 0xBF, CHR 0xBD]) @ utf8_lossy (drop (n - 1) cs))"
  by pat_completeness auto
termination
  by (relation "measure length") auto

lemma utf8_lossy_ascii [simp]: "ascii_text s \<Longrightarrow> utf8_lossy s = s"
  by (induction s) (auto simp: utf8_head_def utf8_width_def Let_def)

function utf8_valid :: "string \<Rightarrow> bool" where
  \<comment> \<open>\<open>str::from_utf8\<close> succeeds\<close>
  "utf8_valid [] = True"
| "utf8_valid (a # cs) = (case utf8_head a cs of (n, ok) \<Rightarrow> ok \<and> utf8_valid (drop (n - 1) cs))"
  by pat_completeness auto
termination
  by (relation "measure length") auto

lemma utf8_lossy_valid [simp]: "utf8_valid s \<Longrightarrow> utf8_lossy s = s"
proof (induction s rule: utf8_valid.induct)
  case (2 a cs)
  obtain n ok where h: "utf8_head a cs = (n, ok)" by (cases "utf8_head a cs")
  from h have "ok \<Longrightarrow> 0 < n"
    by (auto simp: utf8_head_def Let_def split: if_splits list.splits)
  with 2 h show ?case by (cases n) auto
qed simp

lemma utf8_valid_ascii [simp]: "ascii_text s \<Longrightarrow> utf8_valid s"
  by (induction s) (auto simp: utf8_head_def utf8_width_def Let_def)

subsection \<open>Hash maps\<close>

definition hm_insert :: "'k \<Rightarrow> 'v \<Rightarrow> ('k, 'v) hash_map \<Rightarrow> ('k, 'v) hash_map" where
  "hm_insert k v m = (k, v) # filter (\<lambda>(k', v'). k' \<noteq> k) m"

lemma map_of_hm_insert [simp]: "map_of (hm_insert k v m) j = (if j = k then Some v else map_of m j)"
  by (induction m) (auto simp: hm_insert_def split: if_splits)

lemma set_hm_insert: "e \<in> set (hm_insert k v m) \<Longrightarrow> e = (k, v) \<or> e \<in> set m"
  by (auto simp: hm_insert_def)

end
