(* ===== verification/Read_Ir.thy ===== *)
theory Read_Ir
  imports Rust_Prelude
begin

text \<open>
  The backend-neutral query representation (\<open>read/ir.rs\<close>): one record or
  datatype per Rust type, with the renderings of table references, join kinds,
  sort directions, comparison operators and cast types.
\<close>

record table_ref =
  tr_schema :: "string option"
  tr_table :: string
  tr_alias :: "string option"

datatype join_kind = JInner | JLeft

record join_clause =
  j_kind :: join_kind
  j_table :: table_ref
  j_on :: string

record select_item =
  si_text :: string

datatype sort_dir = Asc | Desc

record order_item =
  oi_expr :: string
  oi_dir :: sort_dir

datatype limit = LBind string | LLit int

datatype cmp_op = CEq | CNe | CLt | CLe | CGt | CGe

datatype ir_type = Int8 | Float8 | Text | Bool | Other string

datatype expr =
    Col string
  | Bind string
  | Lit string
  | Fn string "expr list"
  | Cast expr ir_type
  | Raw string

datatype predicate =
    Compare expr cmp_op expr
  | InList expr "expr list" bool
  | PAnd predicate predicate
  | POr predicate predicate
  | PNot predicate
  | PRaw string

record query_ir =
  q_select :: "select_item list"
  q_from :: table_ref
  q_joins :: "join_clause list"
  q_where :: "predicate list"
  q_group_by :: "string list"
  q_order_by :: "order_item list"
  q_limit :: "limit option"
  q_raw_sql :: string

definition render_table_ref :: "table_ref \<Rightarrow> string" where
  "render_table_ref t =
     (let s = (case tr_schema t of Some sc \<Rightarrow> sc @ ''.'' @ tr_table t | None \<Rightarrow> tr_table t)
      in case tr_alias t of Some a \<Rightarrow> s @ '' '' @ a | None \<Rightarrow> s)"

fun join_keyword :: "join_kind \<Rightarrow> string" where
  "join_keyword JInner = ''JOIN''"
| "join_keyword JLeft = ''LEFT JOIN''"

fun dir_keyword :: "sort_dir \<Rightarrow> string" where
  "dir_keyword Asc = ''ASC''"
| "dir_keyword Desc = ''DESC''"

fun cmp_sql :: "cmp_op \<Rightarrow> string" where
  "cmp_sql CEq = ''=''"
| "cmp_sql CNe = ''!=''"
| "cmp_sql CLt = ''<''"
| "cmp_sql CLe = ''<=''"
| "cmp_sql CGt = ''>''"
| "cmp_sql CGe = ''>=''"

definition ir_type_parse :: "string \<Rightarrow> ir_type" where
  "ir_type_parse s =
     (let t = to_lowercase (trim s)
      in if t = ''int8'' \<or> t = ''bigint'' then Int8
         else if t = ''float8'' \<or> t = ''double precision'' then Float8
         else if t = ''text'' \<or> t = ''varchar'' then Text
         else if t = ''bool'' \<or> t = ''boolean'' then Bool
         else Other t)"

fun ir_type_pg :: "ir_type \<Rightarrow> string" where
  "ir_type_pg Int8 = ''int8''"
| "ir_type_pg Float8 = ''float8''"
| "ir_type_pg Text = ''text''"
| "ir_type_pg Bool = ''bool''"
| "ir_type_pg (Other s) = s"

fun ir_type_ch :: "ir_type \<Rightarrow> string option" where
  "ir_type_ch Int8 = Some ''Int64''"
| "ir_type_ch Float8 = Some ''Float64''"
| "ir_type_ch Text = Some ''String''"
| "ir_type_ch Bool = Some ''Bool''"
| "ir_type_ch (Other s) = None"

end
