(* ===== verification/Rust_Float.thy ===== *)
theory Rust_Float
  imports Rust_Prelude
begin

text \<open>
  The \<open>f64\<close> values the read layer and the JSON values carry: IEEE-754 binary64
  numbers as sign, mantissa and exponent, the rounding to nearest (ties to
  even) of a ratio of naturals, the conversion \<open>n as f64\<close>, the comparison \<open><\<close>
  and \<open>str::parse::<f64>\<close> with its exact grammar.  Printing a finite \<open>f64\<close>
  (shortest round-trip decimal) is not modelled; the definitions that print
  one take the printer as an argument.
\<close>

datatype f64 = NaN | Inf bool | Fin bool int int

fun bit_len :: "int \<Rightarrow> int" where
  "bit_len n = (if n \<le> 0 then 0 else 1 + bit_len (n div 2))"

declare bit_len.simps [simp del]

definition scaled :: "int \<Rightarrow> int \<Rightarrow> int \<Rightarrow> int \<times> int" where
  \<comment> \<open>numerator and denominator of \<open>(num / den) / 2 ^ e\<close>\<close>
  "scaled e num den = (if 0 \<le> e then (num, den * 2 ^ nat e) else (num * 2 ^ nat (- e), den))"

definition round_ratio :: "bool \<Rightarrow> int \<Rightarrow> int \<Rightarrow> f64" where
  "round_ratio neg num den =
     (if num = 0 then Fin neg 0 (- 1074)
      else
        (let k = bit_len num - bit_len den;
             (a1, b1) = scaled k num den;
             e = max (if b1 \<le> a1 then k - 52 else k - 53) (- 1074);
             (a, b) = scaled e num den;
             q = a div b;
             r = a mod b;
             q1 = (if b < 2 * r \<or> (2 * r = b \<and> odd q) then q + 1 else q);
             (q2, e2) = (if q1 = 2 ^ 53 then (2 ^ 52, e + 1) else (q1, e))
         in if 971 < e2 then Inf neg else Fin neg q2 e2))"

definition f64_of_int :: "int \<Rightarrow> f64" where
  "f64_of_int i = round_ratio (i < 0) \<bar>i\<bar> 1"

definition signed :: "bool \<Rightarrow> int \<Rightarrow> int" where
  "signed neg m = (if neg then - m else m)"

fun f64_lt :: "f64 \<Rightarrow> f64 \<Rightarrow> bool" where
  "f64_lt NaN y = False"
| "f64_lt x NaN = False"
| "f64_lt (Inf a) (Inf b) = (a \<and> \<not> b)"
| "f64_lt (Inf a) (Fin s m e) = a"
| "f64_lt (Fin s m e) (Inf b) = (\<not> b)"
| "f64_lt (Fin s m e) (Fin s' m' e') =
     (let d = min e e'
      in signed s m * 2 ^ nat (e - d) < signed s' m' * 2 ^ nat (e' - d))"

definition split_sign :: "string \<Rightarrow> bool \<times> string" where
  "split_sign s =
     (case s of
        [] \<Rightarrow> (False, [])
      | c # cs \<Rightarrow> if c = CHR ''-'' then (True, cs) else if c = CHR ''+'' then (False, cs) else (False, s))"

definition is_exp_mark :: "char \<Rightarrow> bool" where
  "is_exp_mark c \<longleftrightarrow> c = CHR ''e'' \<or> c = CHR ''E''"

definition parse_exponent :: "string \<Rightarrow> int option" where
  "parse_exponent s =
     (case s of
        [] \<Rightarrow> Some 0
      | _ # cs \<Rightarrow>
          (let (neg, ds) = split_sign cs
           in if digits_text ds then Some (signed neg (int_of_digits ds)) else None))"

definition parse_mantissa :: "string \<Rightarrow> (int \<times> nat) option" where
  \<comment> \<open>the digits of \<open>Digit+ | Digit+ . Digit* | Digit* . Digit+\<close> and how many follow the point\<close>
  "parse_mantissa s =
     (case split_once (CHR ''.'') s of
        None \<Rightarrow> if digits_text s then Some (int_of_digits s, 0) else None
      | Some (i, f) \<Rightarrow>
          if digits_text (i @ f) then Some (int_of_digits (i @ f), length f) else None)"

definition parse_f64 :: "string \<Rightarrow> f64 option" where
  "parse_f64 s =
     (let (neg, r) = split_sign s;
          low = to_lowercase r
      in if low = ''inf'' \<or> low = ''infinity'' then Some (Inf neg)
         else if low = ''nan'' then Some NaN
         else
           (case (parse_mantissa (takeWhile (\<lambda>c. \<not> is_exp_mark c) r),
                  parse_exponent (dropWhile (\<lambda>c. \<not> is_exp_mark c) r)) of
              (Some (n, k), Some x) \<Rightarrow>
                (let e = x - int k
                 in Some (if 0 \<le> e then round_ratio neg (n * 10 ^ nat e) 1
                          else round_ratio neg n (10 ^ nat (- e))))
            | _ \<Rightarrow> None))"

lemma f64_lt_irrefl [simp]: "\<not> f64_lt x x"
  by (cases x) (auto simp: Let_def)

lemma f64_lt_NaN [simp]: "\<not> f64_lt x NaN"
  by (cases x) auto

lemma digit_not_exp_mark: "is_ascii_digit c \<Longrightarrow> \<not> is_exp_mark c"
  by (auto simp: is_ascii_digit_def is_exp_mark_def code_def)

lemma parse_f64_digits:
  "digits_text s \<Longrightarrow> parse_f64 s = Some (round_ratio False (int_of_digits s) 1)"
proof -
  assume d: "digits_text s"
  then obtain c cs where s: "s = c # cs" and c: "is_ascii_digit c"
    by (cases s) (auto simp: digits_text_def)
  have sign: "split_sign s = (False, s)"
    using c by (auto simp: s split_sign_def is_ascii_digit_def code_def)
  have nw: "to_lower_byte c = c" "c \<noteq> CHR ''i''" "c \<noteq> CHR ''n''"
    using c by (auto simp: to_lower_byte_def is_ascii_upper_def is_ascii_digit_def code_def)
  have all: "\<And>x. x \<in> set s \<Longrightarrow> \<not> is_exp_mark x"
    using d by (auto simp: digits_text_def list_all_iff digit_not_exp_mark)
  have tw: "takeWhile (\<lambda>c. \<not> is_exp_mark c) s = s" "dropWhile (\<lambda>c. \<not> is_exp_mark c) s = []"
    using all by (simp_all add: takeWhile_eq_all_conv)
  have "CHR ''.'' \<notin> set s"
    using d by (auto simp: digits_text_def list_all_iff is_ascii_digit_def code_def)
  then have "parse_mantissa s = Some (int_of_digits s, 0)"
    using d split_once_None [of "CHR ''.''" s] by (simp add: parse_mantissa_def)
  with sign tw nw show ?thesis
    by (simp add: parse_f64_def parse_exponent_def s to_lowercase_def)
qed

subsection \<open>Addition and rounding\<close>

definition f64_zero :: f64 where "f64_zero = Fin False 0 (- 1074)"

fun f64_add :: "f64 \<Rightarrow> f64 \<Rightarrow> f64" where
  "f64_add NaN y = NaN"
| "f64_add x NaN = NaN"
| "f64_add (Inf a) (Inf b) = (if a = b then Inf a else NaN)"
| "f64_add (Inf a) (Fin s m e) = Inf a"
| "f64_add (Fin s m e) (Inf b) = Inf b"
| "f64_add (Fin s m e) (Fin s' m' e') =
     (let d = min e e';
          t = signed s m * 2 ^ nat (e - d) + signed s' m' * 2 ^ nat (e' - d)
      in if t = 0 then Fin (s \<and> s') 0 (- 1074)
         else if 0 \<le> d then round_ratio (t < 0) (\<bar>t\<bar> * 2 ^ nat d) 1
         else round_ratio (t < 0) \<bar>t\<bar> (2 ^ nat (- d)))"

fun f64_round_to :: "int \<Rightarrow> int \<Rightarrow> f64 \<Rightarrow> int" where
  \<comment> \<open>\<open>x.round() as T\<close> for an integer type with these bounds: half away from zero, saturating\<close>
  "f64_round_to lo hi NaN = 0"
| "f64_round_to lo hi (Inf neg) = (if neg then lo else hi)"
| "f64_round_to lo hi (Fin neg m e) =
     (let r = (if 0 \<le> e then m * 2 ^ nat e else (2 * m + 2 ^ nat (- e)) div (2 * 2 ^ nat (- e)))
      in max lo (min hi (signed neg r)))"

fun f64_trunc_to :: "int \<Rightarrow> int \<Rightarrow> f64 \<Rightarrow> int" where
  \<comment> \<open>\<open>x as T\<close>: toward zero, saturating\<close>
  "f64_trunc_to lo hi NaN = 0"
| "f64_trunc_to lo hi (Inf neg) = (if neg then lo else hi)"
| "f64_trunc_to lo hi (Fin neg m e) =
     (let r = (if 0 \<le> e then m * 2 ^ nat e else m div 2 ^ nat (- e))
      in max lo (min hi (signed neg r)))"

end
