(* ===== verification/Read_Parse.thy ===== *)
theory Read_Parse
  imports Read_Ir Rust_Float
begin

text \<open>
  The bounded read-only SELECT parser (\<open>read/parse.rs\<close>): whitespace
  normalisation, the split of a statement into clauses at top-level KEYWORDS,
  table references, comma and AND splitting, predicates, expressions, ORDER BY
  and LIMIT, and the whole \<open>parse_select\<close> with every fallback.

  A loop over byte indices is a recursion on the remaining bytes.  The places
  where the code slices \<open>&str\<close> at an index that need not be a character
  boundary (\<open>find_top\<close>, \<open>split_top_and\<close>) can panic, so they and their callers
  return a \<open>run\<close>.
\<close>

subsection \<open>Lexical helpers\<close>

abbreviation (input) lparen :: char where "lparen \<equiv> CHR ''(''"
abbreviation (input) rparen :: char where "rparen \<equiv> CHR '')''"
abbreviation (input) space :: char where "space \<equiv> CHR '' ''"
abbreviation (input) quote :: char where "quote \<equiv> CHR 0x27"

fun normalize_ws_aux :: "bool \<Rightarrow> string \<Rightarrow> string" where
  "normalize_ws_aux prev_space [] = []"
| "normalize_ws_aux prev_space (c # cs) =
     (if is_whitespace c then
        (if prev_space then normalize_ws_aux True cs else space # normalize_ws_aux True cs)
      else c # normalize_ws_aux False cs)"

definition normalize_ws :: "string \<Rightarrow> string" where
  "normalize_ws s = trim (normalize_ws_aux False s)"

definition is_ident_text :: "string \<Rightarrow> bool" where
  "is_ident_text s \<longleftrightarrow>
     s \<noteq> [] \<and> (is_ascii_alphabetic (hd s) \<or> hd s = CHR ''_'') \<and>
     list_all (\<lambda>c. is_ascii_alphanumeric c \<or> c = CHR ''_'') s"

definition is_dotted_ident :: "string \<Rightarrow> bool" where
  "is_dotted_ident s \<longleftrightarrow> s \<noteq> [] \<and> list_all is_ident_text (split_on (CHR ''.'') s)"

definition paren_depth :: "char \<Rightarrow> int \<Rightarrow> int" where
  "paren_depth c depth = (if c = lparen then depth + 1 else if c = rparen then depth - 1 else depth)"

fun find_top_aux :: "string \<Rightarrow> int \<Rightarrow> bool \<Rightarrow> nat \<Rightarrow> string \<Rightarrow> nat option run" where
  "find_top_aux needle depth in_str i [] = ret None"
| "find_top_aux needle depth in_str i (c # cs) =
     (if length needle \<le> length (c # cs) then
        (if in_str then find_top_aux needle depth (c \<noteq> quote) (Suc i) cs
         else
           (let in_str' = (c = quote);
                depth' = paren_depth c depth
            in if depth' = 0 then
                 (if is_continuation c then Panic
                  else if starts_with (c # cs) needle then ret (Some i)
                  else find_top_aux needle depth' in_str' (Suc i) cs)
               else find_top_aux needle depth' in_str' (Suc i) cs))
      else ret None)"

definition find_top :: "string \<Rightarrow> string \<Rightarrow> nat option run" where
  "find_top hay needle = find_top_aux needle 0 False 0 hay"

fun matching_paren_aux :: "int \<Rightarrow> bool \<Rightarrow> nat \<Rightarrow> string \<Rightarrow> nat option" where
  "matching_paren_aux depth in_str i [] = None"
| "matching_paren_aux depth in_str i (c # cs) =
     (if c = quote then matching_paren_aux depth (\<not> in_str) (Suc i) cs
      else if c = lparen \<and> \<not> in_str then matching_paren_aux (depth + 1) in_str (Suc i) cs
      else if c = rparen \<and> \<not> in_str then
        (if depth - 1 = 0 then Some i else matching_paren_aux (depth - 1) in_str (Suc i) cs)
      else matching_paren_aux depth in_str (Suc i) cs)"

definition matching_paren :: "string \<Rightarrow> nat \<Rightarrow> nat option" where
  "matching_paren s open_at =
     (if open_at < length s \<and> s ! open_at = lparen
      then matching_paren_aux 0 False open_at (drop open_at s) else None)"

subsection \<open>Clauses\<close>

datatype marker = MSelect | MFrom | MJoin join_kind | MWhere | MGroupBy | MOrderBy | MLimit

fun kw_len :: "marker \<Rightarrow> nat" where
  "kw_len MSelect = 6"
| "kw_len MFrom = 4"
| "kw_len (MJoin JInner) = 4"
| "kw_len (MJoin JLeft) = 9"
| "kw_len MWhere = 5"
| "kw_len MGroupBy = 8"
| "kw_len MOrderBy = 8"
| "kw_len MLimit = 5"

definition KEYWORDS :: "(string \<times> marker) list" where
  "KEYWORDS =
     [(''select'', MSelect),
      (''from'', MFrom),
      (''left join'', MJoin JLeft),
      (''inner join'', MJoin JInner),
      (''join'', MJoin JInner),
      (''where'', MWhere),
      (''group by'', MGroupBy),
      (''order by'', MOrderBy),
      (''limit'', MLimit)]"

definition matches_kw :: "string \<Rightarrow> nat \<Rightarrow> string \<Rightarrow> bool" where
  "matches_kw lower at_pos kw \<longleftrightarrow>
     starts_with (drop at_pos lower) kw \<and>
     (length lower \<le> at_pos + length kw \<or> lower ! (at_pos + length kw) = space)"

definition at_word_boundary :: "string \<Rightarrow> nat \<Rightarrow> bool" where
  "at_word_boundary bytes at_pos \<longleftrightarrow> at_pos = 0 \<or> bytes ! (at_pos - 1) = space"

function scan_markers :: "string \<Rightarrow> int \<Rightarrow> nat \<Rightarrow> (nat \<times> marker) list" where
  "scan_markers lower depth i =
     (if i < length lower then
        (let depth' = paren_depth (lower ! i) depth
         in case (if depth' = 0 \<and> at_word_boundary lower i
                  then find (\<lambda>(kw, m). matches_kw lower i kw) KEYWORDS else None) of
              Some (kw, m) \<Rightarrow> (i, m) # scan_markers lower depth' (i + length kw + 1)
            | None \<Rightarrow> scan_markers lower depth' (i + 1))
      else [])"
  by pat_completeness auto
termination
  by (relation "measure (\<lambda>(lower, depth, i). length lower - i)") auto

declare scan_markers.simps [simp del]

record clauses =
  c_select :: "string option"
  c_from :: "string option"
  c_joins :: "(join_kind \<times> string) list"
  c_where :: "string option"
  c_group_by :: "string option"
  c_order_by :: "string option"
  c_limit :: "string option"

definition no_clauses :: clauses where
  "no_clauses = \<lparr>c_select = None, c_from = None, c_joins = [], c_where = None,
                 c_group_by = None, c_order_by = None, c_limit = None\<rparr>"

fun set_clause :: "marker \<Rightarrow> string \<Rightarrow> clauses \<Rightarrow> clauses" where
  "set_clause MSelect b c = c\<lparr>c_select := Some b\<rparr>"
| "set_clause MFrom b c = c\<lparr>c_from := Some b\<rparr>"
| "set_clause (MJoin k) b c = c\<lparr>c_joins := c_joins c @ [(k, b)]\<rparr>"
| "set_clause MWhere b c = c\<lparr>c_where := Some b\<rparr>"
| "set_clause MGroupBy b c = c\<lparr>c_group_by := Some b\<rparr>"
| "set_clause MOrderBy b c = c\<lparr>c_order_by := Some b\<rparr>"
| "set_clause MLimit b c = c\<lparr>c_limit := Some b\<rparr>"

definition slice :: "nat \<Rightarrow> nat \<Rightarrow> string \<Rightarrow> string" where
  "slice i j s = take (j - i) (drop i s)"

fun fill_clauses :: "string \<Rightarrow> (nat \<times> marker) list \<Rightarrow> clauses \<Rightarrow> clauses option" where
  "fill_clauses norm [] c = Some c"
| "fill_clauses norm ((start, m) # ms) c =
     (let body_start = start + kw_len m;
          body_end = (case ms of [] \<Rightarrow> length norm | (off, _) # _ \<Rightarrow> off)
      in if body_end < body_start \<or> length norm < body_end then None
         else fill_clauses norm ms (set_clause m (trim (slice body_start body_end norm)) c))"

definition split_clauses :: "string \<Rightarrow> clauses option" where
  "split_clauses norm =
     (let markers = scan_markers (to_lowercase norm) 0 0
      in case markers of
           (0, MSelect) # _ \<Rightarrow>
             (case fill_clauses norm markers no_clauses of
                Some c \<Rightarrow> if c_select c \<noteq> None \<and> c_from c \<noteq> None then Some c else None
              | None \<Rightarrow> None)
         | _ \<Rightarrow> None)"

definition parse_table_ref :: "string \<Rightarrow> table_ref option" where
  "parse_table_ref s0 =
     (let s = trim s0
      in if s = [] \<or> lparen \<in> set s \<or> CHR '','' \<in> set s then None
         else
           (case (case split_whitespace s of
                    [n] \<Rightarrow> Some (n, None)
                  | [n, a] \<Rightarrow> Some (n, Some a)
                  | [n, k, a] \<Rightarrow> if eq_ignore_case k ''as'' then Some (n, Some a) else None
                  | _ \<Rightarrow> None) of
              None \<Rightarrow> None
            | Some (name, al) \<Rightarrow>
                if \<not> is_dotted_ident name then None
                else
                  (case split_once (CHR ''.'') name of
                     Some (sc, t) \<Rightarrow> Some \<lparr>tr_schema = Some sc, tr_table = t, tr_alias = al\<rparr>
                   | None \<Rightarrow> Some \<lparr>tr_schema = None, tr_table = name, tr_alias = al\<rparr>)))"

fun split_top_commas_aux :: "int \<Rightarrow> string \<Rightarrow> string \<Rightarrow> string list option" where
  \<comment> \<open>the second argument is the text since the last split, \<open>s[start..i]\<close>\<close>
  "split_top_commas_aux depth cur [] = (if depth \<noteq> 0 then None else Some [cur])"
| "split_top_commas_aux depth cur (c # cs) =
     (if c = lparen then split_top_commas_aux (depth + 1) (cur @ [c]) cs
      else if c = rparen then
        (if depth - 1 < 0 then None else split_top_commas_aux (depth - 1) (cur @ [c]) cs)
      else if c = CHR '','' \<and> depth = 0 then
        map_option (\<lambda>ps. cur # ps) (split_top_commas_aux depth [] cs)
      else split_top_commas_aux depth (cur @ [c]) cs)"

definition split_top_commas :: "string \<Rightarrow> string list option" where
  "split_top_commas s = split_top_commas_aux 0 [] s"

fun split_top_and_aux :: "int \<Rightarrow> string \<Rightarrow> string \<Rightarrow> string list option run" where
  "split_top_and_aux depth cur [] = ret (Some [cur])"
| "split_top_and_aux depth cur (c # cs) =
     (let depth' = paren_depth c depth
      in if depth' = 0 then
           (if is_continuation c then Panic
            else if starts_with (to_lowercase (c # cs)) '' or '' then ret None
            else if starts_with (to_lowercase (c # cs)) '' and '' then
              map_option (map_option (\<lambda>ps. cur # ps)) (split_top_and_aux depth' [] (drop 4 cs))
            else split_top_and_aux depth' (cur @ [c]) cs)
         else split_top_and_aux depth' (cur @ [c]) cs)"

definition split_top_and :: "string \<Rightarrow> string list option run" where
  "split_top_and s = split_top_and_aux 0 [] s"

text \<open>Bounds that make the recursion of \<open>parse_expr\<close> well-founded.\<close>

lemma find_top_aux_bound:
  "find_top_aux needle depth in_str i s = Some (Some p) \<Longrightarrow> i \<le> p \<and> p < i + length s"
proof (induction needle depth in_str i s rule: find_top_aux.induct)
  case (2 needle depth in_str i c cs)
  then show ?case by (fastforce simp: Let_def split: if_splits)
qed simp

lemma find_top_less: "find_top s needle = Some (Some p) \<Longrightarrow> p < length s"
  using find_top_aux_bound by (force simp: find_top_def)

lemma split_top_commas_aux_join:
  "split_top_commas_aux depth cur s = Some ps \<Longrightarrow> ps \<noteq> [] \<and> join '','' ps = cur @ s"
proof (induction depth cur s arbitrary: ps rule: split_top_commas_aux.induct)
  case (2 depth cur c cs)
  then show ?case by (auto simp: join_Cons split: if_splits)
qed (auto split: if_splits)

lemma split_top_commas_join: "split_top_commas s = Some ps \<Longrightarrow> join '','' ps = s"
  using split_top_commas_aux_join by (simp add: split_top_commas_def)

lemma length_join_one:
  "ps \<noteq> [] \<Longrightarrow> sum_list (map (\<lambda>p. Suc (length p)) ps) = Suc (length (join [c] ps))"
proof (induction ps)
  case (Cons p ps)
  then show ?case by (cases "ps = []") (auto simp: join_Cons)
qed simp

lemma split_top_commas_size:
  "split_top_commas s = Some ps \<Longrightarrow> sum_list (map (\<lambda>p. Suc (length p)) ps) = Suc (length s)"
  using split_top_commas_aux_join [of 0 "[]" s ps] length_join_one [of ps "CHR '',''"]
  by (simp add: split_top_commas_def)

subsection \<open>Expressions\<close>

definition bind_name :: "string \<Rightarrow> string option" where
  "bind_name s =
     (case strip_prefix '':'' s of
        Some name \<Rightarrow> if is_ident_text name then Some name else None
      | None \<Rightarrow> None)"

definition fn_call :: "string \<Rightarrow> (string \<times> string) option" where
  \<comment> \<open>name and argument text when the whole token is one call \<open>name(...)\<close>\<close>
  "fn_call s =
     (case find_sub s [lparen] of
        Some open_at \<Rightarrow>
          if ends_with s [rparen] \<and> matching_paren s open_at = Some (length s - 1) then
            (let name = trim (take open_at s)
             in if is_ident_text name then Some (name, slice (open_at + 1) (length s - 1) s) else None)
          else None
      | None \<Rightarrow> None)"

definition parse_leaf :: "string \<Rightarrow> expr" where
  "parse_leaf s =
     (if starts_with s [quote] \<and> ends_with s [quote] \<and> 2 \<le> length s then Lit s
      else if parse_f64 s \<noteq> None \<or> eq_ignore_case s ''true'' \<or> eq_ignore_case s ''false'' \<or>
              eq_ignore_case s ''null'' then Lit s
      else if is_dotted_ident s then Col s
      else Raw s)"

lemma fn_call_length:
  assumes "fn_call s = Some (name, inner)"
  shows "length inner + 2 \<le> length s"
proof -
  from assms obtain k where k: "find_sub s [lparen] = Some k" "is_ident_text (trim (take k s))"
      "inner = slice (k + 1) (length s - 1) s"
    by (auto simp: fn_call_def Let_def split: option.splits if_splits)
  then have "0 < k" by (cases k) (auto simp: is_ident_text_def trim_def trim_start_def trim_end_def)
  with find_sub_Some [OF k(1)] show ?thesis by (auto simp: k(3) slice_def)
qed

function parse_expr :: "string \<Rightarrow> expr option run"
  and parse_args :: "string list \<Rightarrow> expr list option run" where
  "parse_expr s0 =
     (let s = trim s0
      in if s = [] then ret None
         else
           (case find_top s ''::'' of
              None \<Rightarrow> Panic
            | Some (Some pos) \<Rightarrow>
                (case parse_expr (trim (take pos s)) of
                   None \<Rightarrow> Panic
                 | Some None \<Rightarrow> ret None
                 | Some (Some inner) \<Rightarrow>
                     ret (Some (Cast inner (ir_type_parse (trim (drop (pos + 2) s))))))
            | Some None \<Rightarrow>
                (case bind_name s of
                   Some name \<Rightarrow> ret (Some (Bind name))
                 | None \<Rightarrow>
                     (case fn_call s of
                        Some (name, inner) \<Rightarrow>
                          if trim inner = [] then ret (Some (Fn name []))
                          else
                            (case split_top_commas inner of
                               None \<Rightarrow> ret None
                             | Some parts \<Rightarrow>
                                 (case parse_args parts of
                                    None \<Rightarrow> Panic
                                  | Some None \<Rightarrow> ret None
                                  | Some (Some args) \<Rightarrow> ret (Some (Fn name args))))
                      | None \<Rightarrow> ret (Some (parse_leaf s))))))"
| "parse_args [] = ret (Some [])"
| "parse_args (t # ts) =
     (case parse_expr (trim t) of
        None \<Rightarrow> Panic
      | Some None \<Rightarrow> ret None
      | Some (Some e) \<Rightarrow>
          (case parse_args ts of
             None \<Rightarrow> Panic
           | Some None \<Rightarrow> ret None
           | Some (Some es) \<Rightarrow> ret (Some (e # es))))"
  by pat_completeness auto
termination
proof (relation "measure (case_sum length (\<lambda>ts. sum_list (map (\<lambda>p. Suc (length p)) ts)))", goal_cases)
  case (2 s0 s r call name inner parts)
  then have "fn_call s = Some (name, inner)" "split_top_commas inner = Some parts" by auto
  then show ?case
    using split_top_commas_size [of inner parts] fn_call_length [of s name inner] length_trim [of s0] 2(1)
    by simp
next
  case (3 s0 s r pos)
  then show ?case
    using find_top_less [of s "''::''" pos] length_trim [of "take pos s"] length_trim [of s0] by simp
next
  case (4 t ts)
  then show ?case using length_trim [of t] by simp
qed auto

declare parse_expr.simps [simp del]

subsection \<open>Predicates, ORDER BY, LIMIT\<close>

definition strip_trailing_not :: "expr \<Rightarrow> string \<Rightarrow> (expr \<times> bool) run" where
  "strip_trailing_not e lhs_src =
     (let trimmed = trim lhs_src
      in if ends_with (to_lowercase trimmed) '' not'' then
           (case parse_expr (trim (take (length trimmed - 4) trimmed)) of
              None \<Rightarrow> Panic
            | Some (Some e') \<Rightarrow> ret (e', True)
            | Some None \<Rightarrow> ret (e, False))
         else ret (e, False))"

definition CMP_TOKENS :: "(string \<times> cmp_op) list" where
  "CMP_TOKENS =
     [('' >= '', CGe), ('' <= '', CLe), ('' != '', CNe), ('' <> '', CNe),
      ('' = '', CEq), ('' > '', CGt), ('' < '', CLt)]"

fun parse_compare :: "string \<Rightarrow> (string \<times> cmp_op) list \<Rightarrow> predicate option run" where
  "parse_compare s [] = ret None"
| "parse_compare s ((tok, cop) # toks) =
     (case find_top s tok of
        None \<Rightarrow> Panic
      | Some (Some pos) \<Rightarrow>
          (case parse_expr (trim (take pos s)) of
             None \<Rightarrow> Panic
           | Some None \<Rightarrow> ret None
           | Some (Some lhs) \<Rightarrow>
               (case parse_expr (trim (drop (pos + length tok) s)) of
                  None \<Rightarrow> Panic
                | Some None \<Rightarrow> ret None
                | Some (Some rhs) \<Rightarrow> ret (Some (Compare lhs cop rhs))))
      | Some None \<Rightarrow> parse_compare s toks)"

definition find_in_list :: "string \<Rightarrow> nat option run" where
  "find_in_list lower =
     (case find_top lower '' in ('' of
        None \<Rightarrow> Panic
      | Some (Some pos) \<Rightarrow> ret (Some pos)
      | Some None \<Rightarrow> find_top lower '' in('')"

definition parse_in_list :: "string \<Rightarrow> nat \<Rightarrow> predicate option run" where
  "parse_in_list s pos =
     (case parse_expr (trim (take pos s)) of
        None \<Rightarrow> Panic
      | Some None \<Rightarrow> ret None
      | Some (Some lhs0) \<Rightarrow>
          (case strip_trailing_not lhs0 (take pos s) of
             None \<Rightarrow> Panic
           | Some (lhs, negated) \<Rightarrow>
               (case find_sub (drop pos s) [lparen] of
                  None \<Rightarrow> ret None
                | Some off \<Rightarrow>
                    (case matching_paren s (off + pos) of
                       None \<Rightarrow> ret None
                     | Some close_at \<Rightarrow>
                         (case split_top_commas (slice (off + pos + 1) close_at s) of
                            None \<Rightarrow> ret None
                          | Some parts \<Rightarrow>
                              (case parse_args parts of
                                 None \<Rightarrow> Panic
                               | Some None \<Rightarrow> ret None
                               | Some (Some items) \<Rightarrow> ret (Some (InList lhs items negated))))))))"

definition parse_predicate :: "string \<Rightarrow> predicate option run" where
  "parse_predicate s =
     (case find_in_list (to_lowercase s) of
        None \<Rightarrow> Panic
      | Some (Some pos) \<Rightarrow> parse_in_list s pos
      | Some None \<Rightarrow> parse_compare s CMP_TOKENS)"

fun parse_conjuncts :: "string list \<Rightarrow> predicate list option run" where
  "parse_conjuncts [] = ret (Some [])"
| "parse_conjuncts (c # cs) =
     (case parse_predicate (trim c) of
        None \<Rightarrow> Panic
      | Some None \<Rightarrow> ret None
      | Some (Some p) \<Rightarrow>
          (case parse_conjuncts cs of
             None \<Rightarrow> Panic
           | Some None \<Rightarrow> ret None
           | Some (Some ps) \<Rightarrow> ret (Some (p # ps))))"

definition parse_where :: "string \<Rightarrow> predicate list option run" where
  "parse_where s =
     (case split_top_and s of
        None \<Rightarrow> Panic
      | Some None \<Rightarrow> ret None
      | Some (Some conjs) \<Rightarrow> parse_conjuncts conjs)"

definition parse_order_item :: "string \<Rightarrow> order_item option" where
  "parse_order_item it0 =
     (let it = trim it0;
          lower = to_lowercase it;
          (e, dir) =
            (if ends_with lower '' desc'' then (trim (take (length it - 5) it), Desc)
             else if ends_with lower '' asc'' then (trim (take (length it - 4) it), Asc)
             else (it, Asc))
      in if e = [] then None else Some \<lparr>oi_expr = e, oi_dir = dir\<rparr>)"

definition parse_order_by :: "string \<Rightarrow> order_item list option" where
  "parse_order_by s =
     (case split_top_commas s of
        None \<Rightarrow> None
      | Some items \<Rightarrow> those (map parse_order_item items))"

definition parse_limit :: "string \<Rightarrow> limit option" where
  "parse_limit s0 =
     (let s = trim s0
      in case bind_name s of
           Some name \<Rightarrow> Some (LBind name)
         | None \<Rightarrow> map_option LLit (parse_i64 s))"

subsection \<open>The whole statement\<close>

datatype parse_outcome = Ir query_ir | Fallback string

definition BAIL_OUTS :: "(string \<times> string) list" where
  "BAIL_OUTS =
     [('' union '', ''UNION''),
      ('' intersect '', ''INTERSECT''),
      ('' except '', ''EXCEPT''),
      (''with '', ''CTE (WITH)''),
      ('' over ('', ''window function (OVER)''),
      ('' over('', ''window function (OVER)''),
      ('' filter ('', ''aggregate FILTER''),
      ('' filter('', ''aggregate FILTER''),
      (''interval '', ''interval arithmetic''),
      (''jsonb_array_elements'', ''jsonb_array_elements''),
      ('' case '', ''CASE expression''),
      (''distinct '', ''DISTINCT''),
      ('' having '', ''HAVING'')]"

fun parse_joins :: "(join_kind \<times> string) list \<Rightarrow> string + join_clause list" where
  "parse_joins [] = Inr []"
| "parse_joins ((kind, rest) # js) =
     (case find_sub (to_lowercase rest) '' on '' of
        None \<Rightarrow> Inl ''JOIN without ON''
      | Some pos \<Rightarrow>
          (case parse_table_ref (trim (take pos rest)) of
             None \<Rightarrow> Inl ''complex JOIN target''
           | Some t \<Rightarrow>
               (case parse_joins js of
                  Inl r \<Rightarrow> Inl r
                | Inr tl_js \<Rightarrow>
                    Inr (\<lparr>j_kind = kind, j_table = t, j_on = trim (drop (pos + 4) rest)\<rparr> # tl_js))))"

definition parse_tail :: "string \<Rightarrow> clauses \<Rightarrow> table_ref \<Rightarrow> join_clause list \<Rightarrow> string list \<Rightarrow>
    predicate list \<Rightarrow> parse_outcome" where
  \<comment> \<open>GROUP BY, ORDER BY and LIMIT, then the record\<close>
  "parse_tail norm c from js items preds =
     (case (case c_group_by c of None \<Rightarrow> Some [] | Some g \<Rightarrow> map_option (map trim) (split_top_commas g)) of
        None \<Rightarrow> Fallback ''unbalanced GROUP BY''
      | Some group_by \<Rightarrow>
          (case (case c_order_by c of None \<Rightarrow> Some [] | Some ob \<Rightarrow> parse_order_by ob) of
             None \<Rightarrow> Fallback ''complex ORDER BY''
           | Some order_by \<Rightarrow>
               (case (case c_limit c of None \<Rightarrow> Some None | Some l \<Rightarrow> map_option Some (parse_limit l)) of
                  None \<Rightarrow> Fallback ''complex LIMIT''
                | Some lim \<Rightarrow>
                    Ir \<lparr>q_select = map (\<lambda>t. \<lparr>si_text = trim t\<rparr>) items, q_from = from, q_joins = js,
                        q_where = preds, q_group_by = group_by, q_order_by = order_by,
                        q_limit = lim, q_raw_sql = norm\<rparr>)))"

definition parse_clauses :: "string \<Rightarrow> clauses \<Rightarrow> parse_outcome run" where
  "parse_clauses norm c =
     (case parse_table_ref (the (c_from c)) of
        None \<Rightarrow> ret (Fallback ''complex FROM (subquery/comma-join)'')
      | Some from \<Rightarrow>
          (case parse_joins (c_joins c) of
             Inl r \<Rightarrow> ret (Fallback r)
           | Inr js \<Rightarrow>
               (case split_top_commas (the (c_select c)) of
                  None \<Rightarrow> ret (Fallback ''unbalanced SELECT list'')
                | Some items \<Rightarrow>
                    if items = [] then ret (Fallback ''empty SELECT list'')
                    else
                      (case (case c_where c of None \<Rightarrow> ret (Some []) | Some w \<Rightarrow> parse_where w) of
                         None \<Rightarrow> Panic
                       | Some None \<Rightarrow> ret (Fallback ''WHERE predicate outside grammar'')
                       | Some (Some preds) \<Rightarrow> ret (parse_tail norm c from js items preds)))))"

definition parse_select :: "string \<Rightarrow> parse_outcome run" where
  "parse_select sql =
     (let norm = normalize_ws sql;
          lower = to_lowercase norm
      in case find (\<lambda>(needle, label). contains lower needle) BAIL_OUTS of
           Some (needle, label) \<Rightarrow> ret (Fallback label)
         | None \<Rightarrow>
             if \<not> starts_with lower ''select '' then ret (Fallback ''non-SELECT statement'')
             else
               (case split_clauses norm of
                  None \<Rightarrow> ret (Fallback ''unrecognised clause structure'')
                | Some c \<Rightarrow> parse_clauses norm c))"

section \<open>The parser never panics on ASCII text\<close>

lemma ascii_subset: "set s \<subseteq> set t \<Longrightarrow> ascii_text t \<Longrightarrow> ascii_text s"
  by (auto simp: ascii_text_def list_all_iff)

lemma ascii_closed [simp, intro]:
  "ascii_text s \<Longrightarrow> ascii_text (trim s)" "ascii_text s \<Longrightarrow> ascii_text (take n s)"
  "ascii_text s \<Longrightarrow> ascii_text (drop n s)" "ascii_text s \<Longrightarrow> ascii_text (slice i j s)"
  unfolding ascii_text_def list_all_iff slice_def using set_trim by (auto dest!: in_set_takeD in_set_dropD)

lemma code_to_lower_byte: "code c < 128 \<Longrightarrow> code (to_lower_byte c) < 128"
  by (auto simp: to_lower_byte_def is_ascii_upper_def)

lemma ascii_to_lowercase [simp]: "ascii_text s \<Longrightarrow> ascii_text (to_lowercase s)"
  by (auto simp: ascii_text_def to_lowercase_def list_all_iff code_to_lower_byte)

lemma ascii_not_continuation [simp]: "code c < 128 \<Longrightarrow> \<not> is_continuation c"
  by (simp add: is_continuation_def)

lemma find_top_aux_total: "ascii_text s \<Longrightarrow> find_top_aux needle depth in_str i s \<noteq> None"
  by (induction needle depth in_str i s rule: find_top_aux.induct) (auto simp: Let_def)

lemma find_top_total: "ascii_text s \<Longrightarrow> \<exists>r. find_top s needle = Some r"
  using find_top_aux_total by (simp add: find_top_def)

lemma split_top_and_aux_total: "ascii_text s \<Longrightarrow> split_top_and_aux depth cur s \<noteq> None"
  by (induction depth cur s rule: split_top_and_aux.induct) (auto simp: Let_def)

lemma split_top_and_total: "ascii_text s \<Longrightarrow> \<exists>r. split_top_and s = Some r"
  using split_top_and_aux_total by (simp add: split_top_and_def)

lemma split_top_and_aux_set:
  "split_top_and_aux depth cur s = Some (Some ps) \<Longrightarrow> p \<in> set ps \<Longrightarrow> set p \<subseteq> set cur \<union> set s"
proof (induction depth cur s arbitrary: ps rule: split_top_and_aux.induct)
  case (2 depth cur c cs)
  have "set (drop 4 cs) \<subseteq> set cs" by (rule set_drop_subset)
  with 2 show ?case by (fastforce simp: Let_def split: if_splits)
qed simp

lemma set_join_part: "p \<in> set ps \<Longrightarrow> set p \<subseteq> set (join sep ps)"
  by (induction ps) (auto simp: join_Cons)

lemma split_top_commas_ascii: "split_top_commas s = Some ps \<Longrightarrow> ascii_text s \<Longrightarrow> list_all ascii_text ps"
  unfolding list_all_iff by (metis split_top_commas_join set_join_part ascii_subset)

lemma fn_call_ascii: "fn_call s = Some (name, inner) \<Longrightarrow> ascii_text s \<Longrightarrow> ascii_text inner"
  by (auto simp: fn_call_def Let_def split: option.splits if_splits)

lemma parse_expr_total:
  "ascii_text s \<Longrightarrow> parse_expr s \<noteq> None"
  "list_all ascii_text ts \<Longrightarrow> parse_args ts \<noteq> None"
proof (induction s and ts rule: parse_expr_parse_args.induct)
  case (1 s0)
  obtain r where r: "find_top (trim s0) ''::'' = Some r" using 1(3) find_top_total by blast
  have e: "parse_expr (trim (take pos (trim s0))) \<noteq> None" if "trim s0 \<noteq> []" "r = Some pos" for pos
    using 1(2) [OF refl that(1) r that(2)] 1(3) by simp
  have a: "parse_args parts \<noteq> None"
    if "trim s0 \<noteq> []" "r = None" "bind_name (trim s0) = None" "fn_call (trim s0) = Some (name, inner)"
      "trim inner \<noteq> []" "split_top_commas inner = Some parts" for name inner parts
    using 1(1) [OF refl that(1) r that(2-4) refl that(5,6)] 1(3) that
    by (simp add: split_top_commas_ascii fn_call_ascii)
  show ?case
    using r e a
    by (subst parse_expr.simps) (auto simp: Let_def simp del: not_None_eq split: option.split)
qed (auto simp del: not_None_eq split: option.split)

lemma strip_trailing_not_total: "ascii_text s \<Longrightarrow> strip_trailing_not e s \<noteq> None"
  by (auto simp: strip_trailing_not_def Let_def parse_expr_total split: option.splits)

lemma parse_compare_total: "ascii_text s \<Longrightarrow> parse_compare s toks \<noteq> None"
proof (induction toks)
  case (Cons t toks)
  obtain tok cop where t: "t = (tok, cop)" by fastforce
  obtain r where "find_top s tok = Some r" using Cons.prems find_top_total by blast
  then show ?case using Cons by (auto simp: t parse_expr_total split: option.splits)
qed simp

lemma parse_in_list_total: "ascii_text s \<Longrightarrow> parse_in_list s pos \<noteq> None"
  by (auto simp: parse_in_list_def parse_expr_total strip_trailing_not_total split_top_commas_ascii
      split: option.splits)

lemma parse_predicate_total: "ascii_text s \<Longrightarrow> parse_predicate s \<noteq> None"
proof -
  assume a: "ascii_text s"
  obtain r r' where "find_top (to_lowercase s) '' in ('' = Some r" "find_top (to_lowercase s) '' in('' = Some r'"
    using find_top_total a ascii_to_lowercase by metis
  then show ?thesis
    using a
    by (auto simp: parse_predicate_def find_in_list_def parse_in_list_total parse_compare_total
        simp del: not_None_eq split: option.splits)
qed

lemma parse_conjuncts_total: "list_all ascii_text cs \<Longrightarrow> parse_conjuncts cs \<noteq> None"
  by (induction cs) (auto simp: parse_predicate_total split: option.splits)

lemma parse_where_total: "ascii_text s \<Longrightarrow> parse_where s \<noteq> None"
proof -
  assume a: "ascii_text s"
  then obtain r where r: "split_top_and s = Some r" using split_top_and_total by blast
  have "list_all ascii_text ps" if "r = Some ps" for ps
    using split_top_and_aux_set [of 0 "[]" s ps] r that a ascii_subset
    by (fastforce simp: split_top_and_def list_all_iff)
  with r show ?thesis by (auto simp: parse_where_def parse_conjuncts_total simp del: not_None_eq split: option.splits)
qed

lemma normalize_ws_aux_ascii: "ascii_text s \<Longrightarrow> ascii_text (normalize_ws_aux b s)"
  by (induction b s rule: normalize_ws_aux.induct) (auto simp: code_def)

lemma fill_clauses_where:
  "fill_clauses norm ms c = Some c' \<Longrightarrow> ascii_text norm \<Longrightarrow> pred_option ascii_text (c_where c) \<Longrightarrow>
     pred_option ascii_text (c_where c')"
proof (induction norm ms c rule: fill_clauses.induct)
  case (2 norm start m ms c)
  have "pred_option ascii_text (c_where (set_clause m (trim (slice i j norm)) c))" for i j
    using 2(3,4) by (cases m) auto
  with 2 show ?case by (auto simp: Let_def split: if_splits)
qed simp

lemma leading_select: "(case ms of (0 :: nat, MSelect) # r \<Rightarrow> f | _ \<Rightarrow> None) = Some c \<Longrightarrow> f = Some c"
  by (auto split: list.splits prod.splits nat.splits marker.splits)

lemma split_clauses_where:
  "split_clauses norm = Some c \<Longrightarrow> ascii_text norm \<Longrightarrow> pred_option ascii_text (c_where c)"
proof -
  assume "split_clauses norm = Some c" and a: "ascii_text norm"
  then have "fill_clauses norm (scan_markers (to_lowercase norm) 0 0) no_clauses = Some c"
    by (auto simp: split_clauses_def Let_def dest!: leading_select split: option.splits if_splits)
  from fill_clauses_where [OF this a] show ?thesis by (simp add: no_clauses_def)
qed



section \<open>Filters are parsed conjunct by conjunct\<close>

lemma to_lowercase_append [simp]: "to_lowercase (s @ t) = to_lowercase s @ to_lowercase t"
  by (simp add: to_lowercase_def)

lemma split_top_and_aux_join:
  "split_top_and_aux depth cur s = Some (Some ps) \<Longrightarrow>
     ps \<noteq> [] \<and> to_lowercase (join '' and '' ps) = to_lowercase (cur @ s)"
proof (induction depth cur s arbitrary: ps rule: split_top_and_aux.induct)
  case (2 depth cur c cs)
  have low: "to_lowercase (c # cs) = '' and '' @ to_lowercase (drop 4 cs)"
    if "starts_with (to_lowercase (c # cs)) '' and ''"
  proof -
    from that obtain r where r: "to_lowercase (c # cs) = '' and '' @ r" by (auto simp: starts_with_append)
    have "to_lowercase (drop 4 cs) = drop 5 (to_lowercase (c # cs))" by (simp add: to_lowercase_def drop_map)
    with r show ?thesis by simp
  qed
  have sep: "to_lowercase '' and '' = '' and ''" by code_simp
  show ?case
    using 2 low sep by (auto simp: Let_def join_Cons split: if_splits) (simp_all add: to_lowercase_def)
qed simp

lemma parse_conjuncts_each:
  "parse_conjuncts cs = Some (Some ps) \<Longrightarrow> list_all2 (\<lambda>c p. parse_predicate (trim c) = Some (Some p)) cs ps"
  by (induction cs arbitrary: ps) (auto split: option.splits)



text \<open>An explicit \<open>INNER JOIN\<close> is never parsed: the clause length table gives it the length of the bare
  \<open>JOIN\<close>, so the join target starts inside the keyword and the query falls back to raw SQL, while
  the same query with \<open>JOIN\<close> is parsed.\<close>

theorem inner_join_falls_back:
  "parse_select ''SELECT a FROM s.t INNER JOIN s.u ON t.k = u.k'' = Some (Fallback ''complex JOIN target'') \<and>
   (case parse_select ''SELECT a FROM s.t JOIN s.u ON t.k = u.k'' of
      Some (Ir ir) \<Rightarrow> q_joins ir = [\<lparr>j_kind = JInner,
        j_table = \<lparr>tr_schema = Some ''s'', tr_table = ''u'', tr_alias = None\<rparr>, j_on = ''t.k = u.k''\<rparr>]
    | _ \<Rightarrow> False)"
  by code_simp

end
