(* ===== verification/Api_Error.thy ===== *)
theory Api_Error
  imports Rust_Prelude Rust_Float
begin

text \<open>
  JSON values and the error type of the service (\<open>error.rs\<close>): the variants of
  \<open>ApiError\<close>, their HTTP status, the shallow clone handed out by the cache's
  single-flight, and the rendering of an error as a response.

  A JSON object is a list of entries; the order of its entries is not part of
  any statement.  The correlation id of an internal error (a fresh UUID) is an
  argument.
\<close>

datatype number = NInt int | NFloat f64

datatype json =
    JNull
  | JBool bool
  | JNumber number
  | JString string
  | JArray "json list"
  | JObject "(string \<times> json) list"

datatype api_error =
    BadRequest string
  | Unauthorized string
  | RateLimited nat string
  | NotFound string
  | Validation json
  | Forbidden string
  | Unavailable string
  | NotImplemented string
  | Internal string

type_synonym 'a api_result = "api_error + 'a"

datatype body = JsonBody json | RawBody string | NoBody

record response =
  resp_status :: nat
  resp_headers :: "(string \<times> string) list"
  resp_body :: body

fun display :: "api_error \<Rightarrow> string" where
  \<comment> \<open>the \<open>Display\<close> texts of the derive\<close>
  "display (BadRequest s) = ''bad request: '' @ s"
| "display (Unauthorized s) = ''unauthorized: '' @ s"
| "display (RateLimited r l) = ''rate limited''"
| "display (NotFound s) = ''not found: '' @ s"
| "display (Validation v) = ''validation failed''"
| "display (Forbidden s) = ''forbidden: '' @ s"
| "display (Unavailable s) = ''service unavailable: '' @ s"
| "display (NotImplemented s) = ''not implemented on this deployment: '' @ s"
| "display (Internal e) = ''internal error''"

fun log_detail :: "api_error \<Rightarrow> string" where
  "log_detail (Internal e) = e"
| "log_detail other = display other"

fun clone_lite :: "api_error \<Rightarrow> api_error" where
  "clone_lite (BadRequest s) = BadRequest s"
| "clone_lite (Unauthorized s) = Unauthorized s"
| "clone_lite (RateLimited r l) = RateLimited r l"
| "clone_lite (NotFound s) = NotFound s"
| "clone_lite (Validation v) = Validation v"
| "clone_lite (Forbidden s) = Forbidden s"
| "clone_lite (Unavailable s) = Unavailable s"
| "clone_lite (NotImplemented s) = NotImplemented s"
| "clone_lite (Internal e) = Internal e"

fun status_of :: "api_error \<Rightarrow> nat" where
  "status_of (BadRequest s) = 400"
| "status_of (Unauthorized s) = 401"
| "status_of (RateLimited r l) = 429"
| "status_of (NotFound s) = 404"
| "status_of (Validation v) = 422"
| "status_of (Forbidden s) = 403"
| "status_of (Unavailable s) = 503"
| "status_of (NotImplemented s) = 501"
| "status_of (Internal e) = 500"

definition detail :: "json \<Rightarrow> json" where
  "detail v = JObject [(''detail'', v)]"

fun into_response :: "string \<Rightarrow> api_error \<Rightarrow> response" where
  "into_response rid (RateLimited r l) =
     \<lparr>resp_status = 429,
      resp_headers = [(''Retry-After'', show_nat r), (''X-RateLimit-Limit'', l)],
      resp_body = JsonBody (detail (JString (''Rate limit exceeded: '' @ l)))\<rparr>"
| "into_response rid (Validation v) =
     \<lparr>resp_status = 422, resp_headers = [], resp_body = JsonBody (detail v)\<rparr>"
| "into_response rid (Internal e) =
     \<lparr>resp_status = 500,
      resp_headers = [(''x-request-id'', rid)],
      resp_body = JsonBody (JObject [(''detail'', JString ''internal server error''),
                                     (''request_id'', JString rid)])\<rparr>"
| "into_response rid other =
     \<lparr>resp_status = status_of other, resp_headers = [],
      resp_body = JsonBody (detail (JString (display other)))\<rparr>"

text \<open>A database error: the \<open>42P01\<close> code (undefined table) or anything else.\<close>

datatype pg_error = UndefinedTable string | OtherDbError string

fun from_pg_error :: "pg_error \<Rightarrow> api_error" where
  "from_pg_error (UndefinedTable m) = NotImplemented m"
| "from_pg_error (OtherDbError m) = Internal m"

definition from_pool_error :: "string \<Rightarrow> api_error" where
  "from_pool_error e = Unavailable (''db pool: '' @ e)"

subsection \<open>Results\<close>

fun bind_res :: "'e + 'a \<Rightarrow> ('a \<Rightarrow> 'e + 'b) \<Rightarrow> 'e + 'b" where
  "bind_res (Inl e) f = Inl e"
| "bind_res (Inr a) f = f a"

fun collect_res :: "('a \<Rightarrow> 's \<Rightarrow> 'e + ('b \<times> 's)) \<Rightarrow> 'a list \<Rightarrow> 's \<Rightarrow> 'e + ('b list \<times> 's)" where
  \<comment> \<open>\<open>iter().map(f).collect::<Result<Vec<_>, _>>()\<close> with \<open>f\<close> updating a captured state\<close>
  "collect_res f [] s = Inr ([], s)"
| "collect_res f (x # xs) s =
     (case f x s of
        Inl e \<Rightarrow> Inl e
      | Inr (y, s1) \<Rightarrow>
          (case collect_res f xs s1 of Inl e \<Rightarrow> Inl e | Inr (ys, s2) \<Rightarrow> Inr (y # ys, s2)))"

lemma bind_res_Inr: "bind_res r f = Inr b \<longleftrightarrow> (\<exists>a. r = Inr a \<and> f a = Inr b)"
  by (cases r) auto

lemma bind_res_Inl: "bind_res r f = Inl e \<longleftrightarrow> r = Inl e \<or> (\<exists>a. r = Inr a \<and> f a = Inl e)"
  by (cases r) auto

lemma bind_res_case: "bind_res r f = (case r of Inl e \<Rightarrow> Inl e | Inr a \<Rightarrow> f a)"
  by (cases r) auto

lemma map_sum_Inr: "map_sum f g r = Inr b \<longleftrightarrow> (\<exists>a. r = Inr a \<and> b = g a)"
  by (cases r) auto

lemma bind_res_pair_Inr:
  "bind_res r (\<lambda>(x, y). f x y) = Inr b \<longleftrightarrow> (\<exists>x y. r = Inr (x, y) \<and> f x y = Inr b)"
  by (cases r) auto

lemma bind_res_cong [fundef_cong]:
  "r = r' \<Longrightarrow> (\<And>a. r' = Inr a \<Longrightarrow> f a = g a) \<Longrightarrow> bind_res r f = bind_res r' g"
  by (cases r') auto

lemma collect_res_cong [fundef_cong]:
  "xs = ys \<Longrightarrow> s = t \<Longrightarrow> (\<And>x u. x \<in> set ys \<Longrightarrow> f x u = g x u) \<Longrightarrow>
     collect_res f xs s = collect_res g ys t"
proof (induction ys arbitrary: xs s t)
  case (Cons y ys)
  from Cons.prems have "collect_res f ys = collect_res g ys" by (intro ext Cons.IH) auto
  with Cons.prems show ?case by (simp split: sum.split prod.split)
qed simp

lemma collect_res_Cons_Inr:
  "collect_res f (x # xs) s = Inr r \<longleftrightarrow>
     (\<exists>y s1 ys s2. f x s = Inr (y, s1) \<and> collect_res f xs s1 = Inr (ys, s2) \<and> r = (y # ys, s2))"
  by (auto split: sum.splits)

lemma collect_res_iff:
  assumes "\<And>x s r. x \<in> set xs \<Longrightarrow> f x s = Inr r \<longleftrightarrow> P x \<and> r = (t x, s @ v x)"
  shows "collect_res f xs s = Inr r \<longleftrightarrow> (\<forall>x\<in>set xs. P x) \<and> r = (map t xs, s @ concat (map v xs))"
  using assms
proof (induction xs arbitrary: s r)
  case (Cons x xs)
  have "f x s = Inr r' \<longleftrightarrow> P x \<and> r' = (t x, s @ v x)" for r' using Cons.prems by simp
  moreover have "collect_res f xs s' = Inr r' \<longleftrightarrow>
      (\<forall>x\<in>set xs. P x) \<and> r' = (map t xs, s' @ concat (map v xs))" for s' r'
    using Cons.prems by (intro Cons.IH) simp
  ultimately show ?case by (auto simp: collect_res_Cons_Inr simp del: collect_res.simps)
qed auto

lemma into_response_status [simp]: "resp_status (into_response rid e) = status_of e"
  by (cases e) auto

lemma clone_lite_id [simp]: "clone_lite e = e"
  by (cases e) auto

lemma status_of_error: "400 \<le> status_of e \<and> status_of e < 600"
  by (cases e) auto

end
