(* ===== verification/Read_Dialect.thy ===== *)
theory Read_Dialect
  imports Read_Ir Api_Error
begin

text \<open>
  Lowering of a resolved read query to executable SQL (\<open>read/dialect.rs\<close>) and
  the bind values it carries (\<open>BindValue\<close> of \<open>read/bind.rs\<close>): the Postgres
  lowerer (\<open>:name\<close> to \<open>$N\<close> with widening casts), the ClickHouse lowerer from the
  query representation and from verbatim text (\<open>:name\<close> to \<open>?\<close>), the translation
  of Postgres placeholders, the PREWHERE split and the load-time validation.

  Both lowerers are compared with one abstract description of the text, its
  list of tokens: verbatim bytes and bind names.
\<close>

datatype bind_value =
    VText string
  | VInt int
  | VFloat f64
  | VDate int
  | VTs int
  | VBool bool

type_synonym bind_env = "string \<Rightarrow> bind_value option"

record bound_sql =
  bs_sql :: string
  bs_values :: "bind_value list"

abbreviation (input) colon :: char where "colon \<equiv> CHR '':''"

definition is_ident_start :: "char \<Rightarrow> bool" where
  "is_ident_start b \<longleftrightarrow> is_ascii_alphabetic b \<or> b = CHR ''_''"

definition is_ident :: "char \<Rightarrow> bool" where
  "is_ident b \<longleftrightarrow> is_ascii_alphanumeric b \<or> b = CHR ''_''"

definition unresolved :: "string \<Rightarrow> api_error" where
  "unresolved name = Internal (''bind '' @ [CHR 0x27] @ '':'' @ name @ [CHR 0x27] @ '' has no resolved value'')"

definition bind_starts :: "char option \<Rightarrow> char \<Rightarrow> string \<Rightarrow> bool" where
  \<comment> \<open>the test at index \<open>i\<close>: byte \<open>i - 1\<close>, byte \<open>i\<close> and the bytes after it\<close>
  "bind_starts prev c cs \<longleftrightarrow>
     c = colon \<and> prev \<noteq> Some colon \<and>
     (case cs of [] \<Rightarrow> False | d # _ \<Rightarrow> d \<noteq> colon \<and> is_ident_start d)"

fun widening_cast :: "bind_value \<Rightarrow> string" where
  "widening_cast (VInt i) = ''::int8''"
| "widening_cast (VFloat f) = ''::float8''"
| "widening_cast v = []"

lemma length_dropWhile_less [simp]: "length (dropWhile P xs) < Suc (length xs)"
  by (simp add: length_dropWhile_le le_imp_less_Suc)

subsection \<open>Postgres\<close>

function lower_binds_loop ::
  "bind_env \<Rightarrow> char option \<Rightarrow> string \<Rightarrow> string \<Rightarrow> bind_value list \<Rightarrow> bound_sql api_result" where
  "lower_binds_loop vals prev [] out ordered = Inr \<lparr>bs_sql = out, bs_values = ordered\<rparr>"
| "lower_binds_loop vals prev (c # cs) out ordered =
     (if bind_starts prev c cs then
        (let name = takeWhile is_ident cs
         in case vals name of
              None \<Rightarrow> Inl (unresolved name)
            | Some v \<Rightarrow>
                lower_binds_loop vals (Some (last name)) (dropWhile is_ident cs)
                  (out @ ''$'' @ show_nat (length (ordered @ [v])) @ widening_cast v) (ordered @ [v]))
      else lower_binds_loop vals (Some c) cs (out @ push_byte c) ordered)"
  by pat_completeness auto
termination
  by (relation "measure (\<lambda>(vals, prev, s, out, ordered). length s)") auto

definition lower_binds :: "string \<Rightarrow> bind_env \<Rightarrow> bound_sql api_result" where
  "lower_binds sql vals = lower_binds_loop vals None sql [] []"

definition postgres_lower :: "string \<Rightarrow> bind_env \<Rightarrow> query_ir option \<Rightarrow> bound_sql api_result" where
  "postgres_lower substituted vals ir = lower_binds substituted vals"

subsection \<open>ClickHouse\<close>

record clickhouse_dialect =
  use_final :: bool
  order_key_cols :: "string list"

function lower_text_loop ::
  "bind_env \<Rightarrow> char option \<Rightarrow> string \<Rightarrow> string \<Rightarrow> bind_value list \<Rightarrow> (string \<times> bind_value list) api_result" where
  "lower_text_loop vals prev [] out ordered = Inr (out, ordered)"
| "lower_text_loop vals prev (c # cs) out ordered =
     (if bind_starts prev c cs then
        (let name = takeWhile is_ident cs
         in case vals name of
              None \<Rightarrow> Inl (unresolved name)
            | Some v \<Rightarrow>
                lower_text_loop vals (Some (last name)) (dropWhile is_ident cs) (out @ ''?'') (ordered @ [v]))
      else lower_text_loop vals (Some c) cs (out @ push_byte c) ordered)"
  by pat_completeness auto
termination
  by (relation "measure (\<lambda>(vals, prev, s, out, ordered). length s)") auto

definition lower_text_binds ::
  "bind_env \<Rightarrow> string \<Rightarrow> bind_value list \<Rightarrow> (string \<times> bind_value list) api_result" where
  "lower_text_binds vals text ordered = lower_text_loop vals None text [] ordered"

definition render_bind :: "bind_env \<Rightarrow> string \<Rightarrow> bind_value list \<Rightarrow> (string \<times> bind_value list) api_result" where
  "render_bind vals name ordered =
     (case vals name of None \<Rightarrow> Inl (unresolved name) | Some v \<Rightarrow> Inr (''?'', ordered @ [v]))"

fun render_expr :: "bind_env \<Rightarrow> expr \<Rightarrow> bind_value list \<Rightarrow> (string \<times> bind_value list) api_result" where
  "render_expr vals (Col c) ordered = Inr (c, ordered)"
| "render_expr vals (Lit l) ordered = Inr (l, ordered)"
| "render_expr vals (Bind name) ordered = render_bind vals name ordered"
| "render_expr vals (Fn name args) ordered =
     bind_res (collect_res (render_expr vals) args ordered)
       (\<lambda>(a, ord). Inr (name @ ''('' @ join '', '' a @ '')'', ord))"
| "render_expr vals (Cast e ty) ordered =
     bind_res (render_expr vals e ordered)
       (\<lambda>(inner, ord).
          case ir_type_ch ty of
            None \<Rightarrow> Inl (Internal (''ClickHouse lowerer cannot express cast to '' @ debug_str (ir_type_pg ty)))
          | Some ch_ty \<Rightarrow> Inr (''CAST('' @ inner @ '' AS '' @ ch_ty @ '')'', ord))"
| "render_expr vals (Raw t) ordered = lower_text_binds vals t ordered"

fun render_predicate :: "bind_env \<Rightarrow> predicate \<Rightarrow> bind_value list \<Rightarrow> (string \<times> bind_value list) api_result" where
  "render_predicate vals (Compare lhs cop rhs) ordered =
     bind_res (render_expr vals lhs ordered) (\<lambda>(l, ord1).
       bind_res (render_expr vals rhs ord1) (\<lambda>(r, ord2).
         Inr (l @ '' '' @ cmp_sql cop @ '' '' @ r, ord2)))"
| "render_predicate vals (InList e items negated) ordered =
     bind_res (render_expr vals e ordered) (\<lambda>(es, ord1).
       bind_res (collect_res (render_expr vals) items ord1) (\<lambda>(its, ord2).
         Inr (es @ '' '' @ (if negated then ''NOT IN'' else ''IN'') @ '' ('' @ join '', '' its @ '')'', ord2)))"
| "render_predicate vals (PAnd a b) ordered =
     bind_res (render_predicate vals a ordered) (\<lambda>(l, ord1).
       bind_res (render_predicate vals b ord1) (\<lambda>(r, ord2).
         Inr (''('' @ l @ '' AND '' @ r @ '')'', ord2)))"
| "render_predicate vals (POr a b) ordered =
     bind_res (render_predicate vals a ordered) (\<lambda>(l, ord1).
       bind_res (render_predicate vals b ord1) (\<lambda>(r, ord2).
         Inr (''('' @ l @ '' OR '' @ r @ '')'', ord2)))"
| "render_predicate vals (PNot a) ordered =
     bind_res (render_predicate vals a ordered) (\<lambda>(inner, ord1).
       Inr (''NOT ('' @ inner @ '')'', ord1))"
| "render_predicate vals (PRaw t) ordered = lower_text_binds vals t ordered"

definition render_conjuncts ::
  "bind_env \<Rightarrow> predicate list \<Rightarrow> bind_value list \<Rightarrow> (string \<times> bind_value list) api_result" where
  "render_conjuncts vals conjs ordered =
     bind_res (collect_res (render_predicate vals) conjs ordered)
       (\<lambda>(parts, ord). Inr (join '' AND '' parts, ord))"

definition expr_is_col :: "expr \<Rightarrow> string \<Rightarrow> bool" where
  "expr_is_col e col =
     (case e of
        Col c \<Rightarrow> c = col \<or> last (split_on (CHR ''.'') c) = col
      | _ \<Rightarrow> False)"

definition touches_leading_key :: "predicate \<Rightarrow> string \<Rightarrow> bool" where
  "touches_leading_key p lead = (case p of Compare lhs cop rhs \<Rightarrow> expr_is_col lhs lead | _ \<Rightarrow> False)"

definition split_prewhere :: "clickhouse_dialect \<Rightarrow> predicate list \<Rightarrow> predicate list \<times> predicate list" where
  "split_prewhere d conjs =
     (case order_key_cols d of
        [] \<Rightarrow> ([], conjs)
      | lead # _ \<Rightarrow>
          (filter (\<lambda>p. touches_leading_key p lead) conjs,
           filter (\<lambda>p. \<not> touches_leading_key p lead) conjs))"

definition render_order :: "order_item \<Rightarrow> string" where
  "render_order o1 =
     (case oi_dir o1 of Asc \<Rightarrow> oi_expr o1 @ '' ASC'' | Desc \<Rightarrow> oi_expr o1 @ '' DESC'')"

definition render_select_item :: "bind_env \<Rightarrow> select_item \<Rightarrow> bind_value list \<Rightarrow> (string \<times> bind_value list) api_result" where
  "render_select_item vals item ordered = lower_text_binds vals (si_text item) ordered"

definition render_join :: "bind_env \<Rightarrow> join_clause \<Rightarrow> bind_value list \<Rightarrow> (string \<times> bind_value list) api_result" where
  "render_join vals j ordered =
     bind_res (lower_text_binds vals (j_on j) ordered) (\<lambda>(on, ord).
       Inr (join_keyword (j_kind j) @ '' '' @ render_table_ref (j_table j) @ '' ON '' @ on, ord))"

definition render_where :: "bind_env \<Rightarrow> string \<Rightarrow> predicate list \<Rightarrow> bind_value list \<Rightarrow> (string \<times> bind_value list) api_result" where
  \<comment> \<open>nothing for an empty list, else the keyword and the AND-joined conjuncts\<close>
  "render_where vals kw ps ordered =
     (if ps = [] then Inr ([], ordered)
      else bind_res (render_conjuncts vals ps ordered) (\<lambda>(t, ord). Inr (kw @ t, ord)))"

definition render_limit :: "bind_env \<Rightarrow> limit option \<Rightarrow> bind_value list \<Rightarrow> (string \<times> bind_value list) api_result" where
  "render_limit vals lim ordered =
     (case lim of
        None \<Rightarrow> Inr ([], ordered)
      | Some (LLit n) \<Rightarrow> Inr ('' LIMIT '' @ show_int n, ordered)
      | Some (LBind name) \<Rightarrow>
          bind_res (render_bind vals name ordered) (\<lambda>(t, ord). Inr ('' LIMIT '' @ t, ord)))"

definition lower_ir :: "clickhouse_dialect \<Rightarrow> query_ir \<Rightarrow> bind_env \<Rightarrow> bound_sql api_result" where
  "lower_ir d ir vals =
     bind_res (collect_res (render_select_item vals) (q_select ir) []) (\<lambda>(sel, ord1).
     bind_res (collect_res (render_join vals) (q_joins ir) ord1) (\<lambda>(js, ord2).
     let (pre, rest) = split_prewhere d (q_where ir) in
     bind_res (render_where vals '' PREWHERE '' pre ord2) (\<lambda>(pre_t, ord3).
     bind_res (render_where vals '' WHERE '' rest ord3) (\<lambda>(where_t, ord4).
     bind_res (render_limit vals (q_limit ir) ord4) (\<lambda>(lim_t, ord5).
       Inr \<lparr>bs_sql =
              ''SELECT '' @ join '', '' sel @ '' FROM '' @ render_table_ref (q_from ir) @
              (if use_final d then '' FINAL'' else []) @
              concat (map (\<lambda>j. '' '' @ j) js) @ pre_t @ where_t @
              (if q_group_by ir = [] then [] else '' GROUP BY '' @ join '', '' (q_group_by ir)) @
              (if q_order_by ir = [] then []
               else '' ORDER BY '' @ join '', '' (map render_order (q_order_by ir))) @ lim_t,
            bs_values = ord5\<rparr>)))))"

definition strip_cast :: "string \<Rightarrow> string" where
  "strip_cast s =
     (case strip_prefix ''::int8'' s of
        Some r \<Rightarrow> r
      | None \<Rightarrow> (case strip_prefix ''::float8'' s of Some r \<Rightarrow> r | None \<Rightarrow> s))"

lemma length_strip_cast: "length (strip_cast s) \<le> length s"
  by (auto simp: strip_cast_def strip_prefix_Some split: option.split)

function pg_placeholders_to_ch :: "string \<Rightarrow> string" where
  "pg_placeholders_to_ch [] = []"
| "pg_placeholders_to_ch (c # cs) =
     (if c = CHR ''$'' \<and> (case cs of [] \<Rightarrow> False | d # _ \<Rightarrow> is_ascii_digit d)
      then CHR ''?'' # pg_placeholders_to_ch (strip_cast (dropWhile is_ascii_digit cs))
      else push_byte c @ pg_placeholders_to_ch cs)"
  by pat_completeness auto
termination
proof (relation "measure length", goal_cases)
  case (2 c cs)
  then show ?case
    using length_strip_cast [of "dropWhile is_ascii_digit cs"] length_dropWhile_le [of is_ascii_digit cs]
    by simp
qed auto

definition clickhouse_lower ::
  "clickhouse_dialect \<Rightarrow> string \<Rightarrow> bind_env \<Rightarrow> query_ir option \<Rightarrow> bound_sql api_result" where
  "clickhouse_lower d substituted vals ir =
     (case ir of
        Some q \<Rightarrow> lower_ir d q vals
      | None \<Rightarrow>
          bind_res (lower_binds substituted vals)
            (\<lambda>pg. Inr \<lparr>bs_sql = pg_placeholders_to_ch (bs_sql pg), bs_values = bs_values pg\<rparr>))"

subsection \<open>Load-time validation\<close>

fun first_err :: "('e + unit) list \<Rightarrow> 'e + unit" where
  "first_err [] = Inr ()"
| "first_err (Inl e # rs) = Inl e"
| "first_err (Inr _ # rs) = first_err rs"

fun check_expr :: "expr \<Rightarrow> string + unit" where
  "check_expr (Cast e ty) =
     (if ir_type_ch ty = None then Inl (''cast to '' @ debug_str (ir_type_pg ty)) else check_expr e)"
| "check_expr (Fn name args) = first_err (map check_expr args)"
| "check_expr e = Inr ()"

fun check_pred :: "predicate \<Rightarrow> string + unit" where
  "check_pred (Compare lhs cop rhs) = first_err [check_expr lhs, check_expr rhs]"
| "check_pred (InList e items neg) = first_err (check_expr e # map check_expr items)"
| "check_pred (PAnd a b) = first_err [check_pred a, check_pred b]"
| "check_pred (POr a b) = first_err [check_pred a, check_pred b]"
| "check_pred (PNot a) = check_pred a"
| "check_pred (PRaw t) = Inr ()"

definition validate_clickhouse :: "query_ir \<Rightarrow> string + unit" where
  "validate_clickhouse ir = first_err (map check_pred (q_where ir))"

section \<open>Tokens: what a lowered text is\<close>

datatype token = Verb char | Name string

function tokens :: "char option \<Rightarrow> string \<Rightarrow> token list" where
  "tokens prev [] = []"
| "tokens prev (c # cs) =
     (if bind_starts prev c cs
      then Name (takeWhile is_ident cs) # tokens (Some (last (takeWhile is_ident cs))) (dropWhile is_ident cs)
      else Verb c # tokens (Some c) cs)"
  by pat_completeness auto
termination
  by (relation "measure (\<lambda>(prev, s). length s)") auto

fun names_of :: "token list \<Rightarrow> string list" where
  "names_of [] = []"
| "names_of (Verb c # ts) = names_of ts"
| "names_of (Name n # ts) = n # names_of ts"

definition bind_names :: "string \<Rightarrow> string list" where
  "bind_names s = names_of (tokens None s)"

fun pg_render :: "bind_env \<Rightarrow> nat \<Rightarrow> token list \<Rightarrow> string" where
  "pg_render vals k [] = []"
| "pg_render vals k (Verb c # ts) = push_byte c @ pg_render vals k ts"
| "pg_render vals k (Name n # ts) =
     ''$'' @ show_nat (Suc k) @ widening_cast (the (vals n)) @ pg_render vals (Suc k) ts"

fun ch_render :: "token list \<Rightarrow> string" where
  "ch_render [] = []"
| "ch_render (Verb c # ts) = push_byte c @ ch_render ts"
| "ch_render (Name n # ts) = ''?'' @ ch_render ts"

definition missing :: "bind_env \<Rightarrow> string list \<Rightarrow> string option" where
  "missing vals ns = find (\<lambda>n. vals n = None) ns"

lemma missing_simps [simp]:
  "missing vals [] = None"
  "missing vals (n # ns) = (if vals n = None then Some n else missing vals ns)"
  by (simp_all add: missing_def)

lemma missing_None: "missing vals ns = None \<longleftrightarrow> (\<forall>n\<in>set ns. vals n \<noteq> None)"
  by (auto simp: missing_def find_None_iff)

lemma missing_append:
  "missing vals (ns @ ms) = (case missing vals ns of Some n \<Rightarrow> Some n | None \<Rightarrow> missing vals ms)"
  by (induction ns) auto

lemma lower_binds_loop_tokens:
  "lower_binds_loop vals prev s out ordered =
     (case missing vals (names_of (tokens prev s)) of
        Some n \<Rightarrow> Inl (unresolved n)
      | None \<Rightarrow> Inr \<lparr>bs_sql = out @ pg_render vals (length ordered) (tokens prev s),
                     bs_values = ordered @ map (\<lambda>n. the (vals n)) (names_of (tokens prev s))\<rparr>)"
proof (induction vals prev s out ordered rule: lower_binds_loop.induct)
  case (2 vals prev c cs out ordered)
  then show ?case by (auto simp: Let_def split: option.splits)
qed simp

lemma lower_text_loop_tokens:
  "lower_text_loop vals prev s out ordered =
     (case missing vals (names_of (tokens prev s)) of
        Some n \<Rightarrow> Inl (unresolved n)
      | None \<Rightarrow> Inr (out @ ch_render (tokens prev s),
                     ordered @ map (\<lambda>n. the (vals n)) (names_of (tokens prev s))))"
proof (induction vals prev s out ordered rule: lower_text_loop.induct)
  case (2 vals prev c cs out ordered)
  then show ?case by (auto simp: Let_def split: option.splits)
qed simp

lemma lower_binds_spec:
  "lower_binds s vals =
     (case missing vals (bind_names s) of
        Some n \<Rightarrow> Inl (unresolved n)
      | None \<Rightarrow> Inr \<lparr>bs_sql = pg_render vals 0 (tokens None s),
                     bs_values = map (\<lambda>n. the (vals n)) (bind_names s)\<rparr>)"
  by (simp add: lower_binds_def lower_binds_loop_tokens bind_names_def split: option.split)

lemma lower_text_binds_spec:
  "lower_text_binds vals s ordered =
     (case missing vals (bind_names s) of
        Some n \<Rightarrow> Inl (unresolved n)
      | None \<Rightarrow> Inr (ch_render (tokens None s), ordered @ map (\<lambda>n. the (vals n)) (bind_names s)))"
  by (simp add: lower_text_binds_def lower_text_loop_tokens bind_names_def split: option.split)

lemma pg_render_cong:
  "(\<And>n. n \<in> set (names_of ts) \<Longrightarrow> widening_cast (the (vals n)) = widening_cast (the (vals' n))) \<Longrightarrow>
     pg_render vals k ts = pg_render vals' k ts"
  by (induction ts arbitrary: k rule: names_of.induct) auto

lemma lower_binds_blind:
  assumes "lower_binds s vals = Inr b" "lower_binds s vals' = Inr b'"
    and "\<And>n. n \<in> set (bind_names s) \<Longrightarrow> widening_cast (the (vals n)) = widening_cast (the (vals' n))"
  shows "bs_sql b = bs_sql b'"
proof -
  have "pg_render vals 0 (tokens None s) = pg_render vals' 0 (tokens None s)"
    using assms(3) by (intro pg_render_cong) (simp add: bind_names_def)
  with assms(1,2) show ?thesis by (auto simp: lower_binds_spec split: option.splits)
qed

subsection \<open>The contract of a dialect\<close>

locale dialect =
  fixes lower :: "string \<Rightarrow> bind_env \<Rightarrow> bound_sql api_result"
  assumes lower_spec:
      "lower s vals = Inr b \<Longrightarrow> bs_values b = map (\<lambda>n. the (vals n)) (bind_names s)"
    and lower_outcome:
      "(case missing vals (bind_names s) of
          Some n \<Rightarrow> lower s vals = Inl (unresolved n)
        | None \<Rightarrow> (\<exists>b. lower s vals = Inr b))"
    and lower_blind:
      "lower s vals = Inr b \<Longrightarrow> lower s vals' = Inr b' \<Longrightarrow>
       (\<And>n. n \<in> set (bind_names s) \<Longrightarrow> widening_cast (the (vals n)) = widening_cast (the (vals' n))) \<Longrightarrow>
       bs_sql b = bs_sql b'"
begin

lemma lower_ok_iff: "(\<exists>b. lower s vals = Inr b) \<longleftrightarrow> (\<forall>n\<in>set (bind_names s). vals n \<noteq> None)"
  using lower_outcome [where vals = vals and s = s] missing_None [of vals "bind_names s"]
  by (fastforce split: option.splits)

lemma lower_values_count: "lower s vals = Inr b \<Longrightarrow> length (bs_values b) = length (bind_names s)"
  by (simp add: lower_spec)

lemma lower_text_only:
  \<comment> \<open>replacing the contents of the bound texts never changes the statement\<close>
  assumes "lower s vals = Inr b"
    and "\<And>n v. n \<in> set (bind_names s) \<Longrightarrow> vals n = Some v \<Longrightarrow>
           \<exists>w. vals' n = Some w \<and> widening_cast w = widening_cast v"
  shows "\<exists>b'. lower s vals' = Inr b' \<and> bs_sql b' = bs_sql b"
proof -
  have all: "\<forall>n\<in>set (bind_names s). vals n \<noteq> None" using assms(1) lower_ok_iff by blast
  then have "\<forall>n\<in>set (bind_names s). vals' n \<noteq> None" using assms(2) by fastforce
  then obtain b' where b': "lower s vals' = Inr b'" using lower_ok_iff by blast
  have "bs_sql b' = bs_sql b"
    using all assms(2) by (intro lower_blind [OF b' assms(1)]) fastforce
  with b' show ?thesis by blast
qed

end

interpretation pg: dialect "\<lambda>s vals. postgres_lower s vals ir" for ir
proof (unfold_locales, goal_cases)
  case (3 s vals b vals' b')
  then show ?case unfolding postgres_lower_def by (rule lower_binds_blind)
qed (auto simp: postgres_lower_def lower_binds_spec split: option.splits)

interpretation ch_raw: dialect "\<lambda>s vals. clickhouse_lower d s vals None" for d
proof (unfold_locales, goal_cases)
  case (3 s vals b vals' b')
  from 3(1,2) obtain p p' where p: "lower_binds s vals = Inr p" "lower_binds s vals' = Inr p'"
      "bs_sql b = pg_placeholders_to_ch (bs_sql p)" "bs_sql b' = pg_placeholders_to_ch (bs_sql p')"
    by (auto simp: clickhouse_lower_def bind_res_Inr)
  from p(1,2) 3(3) have "bs_sql p = bs_sql p'" by (rule lower_binds_blind)
  with p show ?case by simp
qed (auto simp: clickhouse_lower_def lower_binds_spec split: option.splits)

section \<open>Rendering the query representation\<close>

definition vmap :: "bind_env \<Rightarrow> string list \<Rightarrow> bind_value list" where
  "vmap vals ns = map (\<lambda>n. the (vals n)) ns"

fun expr_binds :: "expr \<Rightarrow> string list" where
  "expr_binds (Bind n) = [n]"
| "expr_binds (Fn name args) = concat (map expr_binds args)"
| "expr_binds (Cast e ty) = expr_binds e"
| "expr_binds (Raw t) = bind_names t"
| "expr_binds e = []"

fun expr_text :: "expr \<Rightarrow> string" where
  "expr_text (Col c) = c"
| "expr_text (Lit l) = l"
| "expr_text (Bind n) = ''?''"
| "expr_text (Fn name args) = name @ ''('' @ join '', '' (map expr_text args) @ '')''"
| "expr_text (Cast e ty) = ''CAST('' @ expr_text e @ '' AS '' @ the (ir_type_ch ty) @ '')''"
| "expr_text (Raw t) = ch_render (tokens None t)"

fun pred_binds :: "predicate \<Rightarrow> string list" where
  "pred_binds (Compare l cop r) = expr_binds l @ expr_binds r"
| "pred_binds (InList e items neg) = expr_binds e @ concat (map expr_binds items)"
| "pred_binds (PAnd a b) = pred_binds a @ pred_binds b"
| "pred_binds (POr a b) = pred_binds a @ pred_binds b"
| "pred_binds (PNot a) = pred_binds a"
| "pred_binds (PRaw t) = bind_names t"

fun pred_text :: "predicate \<Rightarrow> string" where
  "pred_text (Compare l cop r) = expr_text l @ '' '' @ cmp_sql cop @ '' '' @ expr_text r"
| "pred_text (InList e items neg) =
     expr_text e @ '' '' @ (if neg then ''NOT IN'' else ''IN'') @ '' ('' @ join '', '' (map expr_text items) @ '')''"
| "pred_text (PAnd a b) = ''('' @ pred_text a @ '' AND '' @ pred_text b @ '')''"
| "pred_text (POr a b) = ''('' @ pred_text a @ '' OR '' @ pred_text b @ '')''"
| "pred_text (PNot a) = ''NOT ('' @ pred_text a @ '')''"
| "pred_text (PRaw t) = ch_render (tokens None t)"

lemma first_err_ok: "first_err rs = Inr () \<longleftrightarrow> (\<forall>r\<in>set rs. r = Inr ())"
  by (induction rs rule: first_err.induct) auto

lemma vmap_append [simp]: "vmap vals (a @ b) = vmap vals a @ vmap vals b"
  by (simp add: vmap_def)

lemma vmap_Nil [simp]: "vmap vals [] = []"
  by (simp add: vmap_def)

lemma vmap_concat: "vmap vals (concat nss) = concat (map (vmap vals) nss)"
  by (induction nss) auto

lemma missing_concat: "missing vals (concat (map f xs)) = None \<longleftrightarrow> (\<forall>x\<in>set xs. missing vals (f x) = None)"
  by (simp add: missing_None)

locale renderer =
  fixes render :: "bind_env \<Rightarrow> 'a \<Rightarrow> bind_value list \<Rightarrow> (string \<times> bind_value list) api_result"
    and names :: "'a \<Rightarrow> string list"
    and shown :: "'a \<Rightarrow> string"
    and ok :: "'a \<Rightarrow> bool"
  assumes render_iff:
    "render vals x ord = Inr r \<longleftrightarrow>
       (ok x \<and> missing vals (names x) = None) \<and> r = (shown x, ord @ vmap vals (names x))"
begin

lemma render_list:
  "collect_res (render vals) xs ord = Inr r \<longleftrightarrow>
     (\<forall>x\<in>set xs. ok x \<and> missing vals (names x) = None) \<and>
     r = (map shown xs, ord @ vmap vals (concat (map names xs)))"
  unfolding vmap_concat map_map comp_def by (rule collect_res_iff) (rule render_iff)

end

lemma lower_text_binds_iff:
  "lower_text_binds vals t ord = Inr r \<longleftrightarrow>
     missing vals (bind_names t) = None \<and> r = (ch_render (tokens None t), ord @ vmap vals (bind_names t))"
  by (auto simp: lower_text_binds_spec vmap_def split: option.splits)

lemma render_expr_iff:
  "render_expr vals e ord = Inr r \<longleftrightarrow>
     (check_expr e = Inr () \<and> missing vals (expr_binds e) = None) \<and>
     r = (expr_text e, ord @ vmap vals (expr_binds e))"
proof (induction e arbitrary: ord r)
  case (Fn name args)
  have "collect_res (render_expr vals) args s = Inr q \<longleftrightarrow>
      (\<forall>x\<in>set args. check_expr x = Inr () \<and> missing vals (expr_binds x) = None) \<and>
      q = (map expr_text args, s @ vmap vals (concat (map expr_binds args)))" for s q
    unfolding vmap_concat map_map comp_def by (rule collect_res_iff) (rule Fn.IH)
  then show ?case
    by (auto simp: bind_res_Inr first_err_ok missing_concat)
next
  case (Cast e ty)
  then show ?case by (cases "ir_type_ch ty") (auto simp: bind_res_Inr)
qed (auto simp: render_bind_def vmap_def lower_text_binds_iff split: option.splits)

interpretation rexpr: renderer render_expr expr_binds expr_text "\<lambda>e. check_expr e = Inr ()"
  by unfold_locales (rule render_expr_iff)

lemma render_predicate_iff:
  "render_predicate vals p ord = Inr r \<longleftrightarrow>
     (check_pred p = Inr () \<and> missing vals (pred_binds p) = None) \<and>
     r = (pred_text p, ord @ vmap vals (pred_binds p))"
proof (induction p arbitrary: ord r)
  case (Compare l cop r)
  show ?case
    by (auto simp: bind_res_Inr render_expr_iff first_err_ok missing_append split: option.splits)
next
  case (InList e items neg)
  show ?case
    by (auto simp: bind_res_Inr render_expr_iff rexpr.render_list first_err_ok missing_append missing_concat
        split: option.splits)
qed (auto simp: bind_res_Inr first_err_ok missing_append lower_text_binds_iff split: option.splits)

interpretation rpred: renderer render_predicate pred_binds pred_text "\<lambda>p. check_pred p = Inr ()"
  by unfold_locales (rule render_predicate_iff)

interpretation rsel: renderer render_select_item "\<lambda>i. bind_names (si_text i)"
    "\<lambda>i. ch_render (tokens None (si_text i))" "\<lambda>i. True"
  by unfold_locales (simp add: render_select_item_def lower_text_binds_iff)

definition join_text :: "join_clause \<Rightarrow> string" where
  "join_text j = join_keyword (j_kind j) @ '' '' @ render_table_ref (j_table j) @ '' ON '' @
     ch_render (tokens None (j_on j))"

interpretation rjoin: renderer render_join "\<lambda>j. bind_names (j_on j)" join_text "\<lambda>j. True"
  by unfold_locales (auto simp: render_join_def lower_text_binds_iff bind_res_Inr join_text_def)

definition where_text :: "string \<Rightarrow> predicate list \<Rightarrow> string" where
  "where_text kw ps = (if ps = [] then [] else kw @ join '' AND '' (map pred_text ps))"

lemma render_where_iff:
  "render_where vals kw ps ord = Inr r \<longleftrightarrow>
     (\<forall>p\<in>set ps. check_pred p = Inr () \<and> missing vals (pred_binds p) = None) \<and>
     r = (where_text kw ps, ord @ vmap vals (concat (map pred_binds ps)))"
  by (auto simp: render_where_def render_conjuncts_def rpred.render_list bind_res_Inr where_text_def)

fun limit_binds :: "limit option \<Rightarrow> string list" where
  "limit_binds (Some (LBind n)) = [n]"
| "limit_binds _ = []"

fun limit_text :: "limit option \<Rightarrow> string" where
  "limit_text None = []"
| "limit_text (Some (LLit n)) = '' LIMIT '' @ show_int n"
| "limit_text (Some (LBind n)) = '' LIMIT ?''"

lemma render_limit_iff:
  "render_limit vals lim ord = Inr r \<longleftrightarrow>
     missing vals (limit_binds lim) = None \<and> r = (limit_text lim, ord @ vmap vals (limit_binds lim))"
  by (cases lim rule: limit_binds.cases)
    (auto simp: render_limit_def render_bind_def vmap_def bind_res_Inr split: option.splits)

definition ir_binds :: "clickhouse_dialect \<Rightarrow> query_ir \<Rightarrow> string list" where
  "ir_binds d ir =
     concat (map (\<lambda>i. bind_names (si_text i)) (q_select ir)) @
     concat (map (\<lambda>j. bind_names (j_on j)) (q_joins ir)) @
     concat (map pred_binds (fst (split_prewhere d (q_where ir)))) @
     concat (map pred_binds (snd (split_prewhere d (q_where ir)))) @
     limit_binds (q_limit ir)"

definition ir_text :: "clickhouse_dialect \<Rightarrow> query_ir \<Rightarrow> string" where
  "ir_text d ir =
     ''SELECT '' @ join '', '' (map (\<lambda>i. ch_render (tokens None (si_text i))) (q_select ir)) @
     '' FROM '' @ render_table_ref (q_from ir) @ (if use_final d then '' FINAL'' else []) @
     concat (map (\<lambda>j. '' '' @ join_text j) (q_joins ir)) @
     where_text '' PREWHERE '' (fst (split_prewhere d (q_where ir))) @
     where_text '' WHERE '' (snd (split_prewhere d (q_where ir))) @
     (if q_group_by ir = [] then [] else '' GROUP BY '' @ join '', '' (q_group_by ir)) @
     (if q_order_by ir = [] then []
      else '' ORDER BY '' @ join '', '' (map render_order (q_order_by ir))) @ limit_text (q_limit ir)"

lemma split_prewhere_sets:
  "split_prewhere d ps = (pre, rest) \<Longrightarrow> set pre \<union> set rest = set ps"
  by (auto simp: split_prewhere_def split: list.splits)

lemma lower_ir_iff:
  "lower_ir d ir vals = Inr b \<longleftrightarrow>
     validate_clickhouse ir = Inr () \<and> missing vals (ir_binds d ir) = None \<and>
     b = \<lparr>bs_sql = ir_text d ir, bs_values = vmap vals (ir_binds d ir)\<rparr>"
proof (cases "split_prewhere d (q_where ir)")
  case (Pair pre rest)
  have ok: "validate_clickhouse ir = Inr () \<longleftrightarrow>
      (\<forall>p\<in>set pre. check_pred p = Inr ()) \<and> (\<forall>p\<in>set rest. check_pred p = Inr ())"
    using split_prewhere_sets [OF Pair] by (auto simp: validate_clickhouse_def first_err_ok)
  have bnds: "missing vals (ir_binds d ir) = None \<longleftrightarrow>
      (\<forall>i\<in>set (q_select ir). missing vals (bind_names (si_text i)) = None) \<and>
      (\<forall>j\<in>set (q_joins ir). missing vals (bind_names (j_on j)) = None) \<and>
      (\<forall>p\<in>set pre. missing vals (pred_binds p) = None) \<and>
      (\<forall>p\<in>set rest. missing vals (pred_binds p) = None) \<and>
      missing vals (limit_binds (q_limit ir)) = None"
    by (simp add: ir_binds_def Pair missing_append missing_concat [symmetric] split: option.split)
  have vm: "vmap vals (ir_binds d ir) =
      vmap vals (concat (map (\<lambda>i. bind_names (si_text i)) (q_select ir))) @
      vmap vals (concat (map (\<lambda>j. bind_names (j_on j)) (q_joins ir))) @
      vmap vals (concat (map pred_binds pre)) @ vmap vals (concat (map pred_binds rest)) @
      vmap vals (limit_binds (q_limit ir))"
    by (simp add: ir_binds_def Pair)
  show ?thesis
    unfolding ok bnds vm
    by (simp add: lower_ir_def Pair bind_res_pair_Inr rsel.render_list rjoin.render_list render_where_iff
        render_limit_iff ir_text_def comp_def split del: if_split) blast
qed

section \<open>Placeholders and verbatim text\<close>

lemma push_byte_high:
  assumes "\<not> code c < 128"
  shows "\<exists>a b. push_byte c = [a, b] \<and> 128 \<le> code a \<and> 128 \<le> code b"
proof -
  have "n div 64 < 4" if "n < 256" for n :: int using that by presburger
  then have r: "0 \<le> code c div 64" "code c div 64 < 4" "0 \<le> code c mod 64" "code c mod 64 < 64"
    by (simp_all add: pos_imp_zdiv_nonneg_iff)
  then have "code (char_of (192 + code c div 64)) = 192 + code c div 64"
       "code (char_of (128 + code c mod 64)) = 128 + code c mod 64"
    by (auto intro!: code_char_of)
  with r assms show ?thesis by (simp add: push_byte_def)
qed

lemma count_list_push_byte: "count_list (push_byte c) (CHR ''?'') = (if c = CHR ''?'' then 1 else 0)"
proof (cases "code c < 128")
  case False
  then obtain a b where "push_byte c = [a, b]" "128 \<le> code a" "128 \<le> code b"
    using push_byte_high by blast
  then show ?thesis using False by (auto simp: code_def)
qed auto

lemma ch_render_count:
  "CHR ''?'' \<notin> set s \<Longrightarrow>
     count_list (ch_render (tokens prev s)) (CHR ''?'') = length (names_of (tokens prev s))"
proof (induction prev s rule: tokens.induct)
  case (2 prev c cs)
  have "CHR ''?'' \<notin> set (dropWhile is_ident cs)" using "2.prems" by (auto dest: set_dropWhileD)
  with 2 show ?case by (auto simp: count_list_push_byte)
qed simp

lemma count_list_join:
  "count_list (join sep xs) c = sum_list (map (\<lambda>x. count_list x c) xs) + (length xs - 1) * count_list sep c"
proof (induction xs)
  case (Cons x xs)
  then show ?case by (cases xs) (auto simp: join_Cons)
qed simp

lemma render_all_verbatim:
  "names_of (tokens prev s) = [] \<Longrightarrow> pg_render vals k (tokens prev s) = concat (map push_byte s)"
  by (induction prev s arbitrary: k rule: tokens.induct) (auto split: if_splits)

lemma concat_push_byte_length: "length s \<le> length (concat (map push_byte s))"
  by (induction s) (auto simp: push_byte_def)

lemma concat_push_byte_id: "concat (map push_byte s) = s \<longleftrightarrow> ascii_text s"
proof (induction s)
  case (Cons c s)
  show ?case
  proof (cases "code c < 128")
    case False
    then have "length (concat (map push_byte (c # s))) \<noteq> length (c # s)"
      using concat_push_byte_length [of s] by (simp add: push_byte_def)
    then have "concat (map push_byte (c # s)) \<noteq> c # s" by metis
    with False show ?thesis by simp
  qed (use Cons in simp)
qed simp

lemma dropWhile_digits_show:
  "(case x of [] \<Rightarrow> True | c # _ \<Rightarrow> \<not> is_ascii_digit c) \<Longrightarrow> dropWhile is_ascii_digit (show_nat n @ x) = x"
  using show_nat_digits [of n] by (cases x) (auto simp: dropWhile_append list_all_iff)

lemma is_ident_digit: "is_ascii_digit c \<Longrightarrow> is_ident c"
  by (simp add: is_ident_def is_ascii_alphanumeric_def)

lemma pg_render_hd:
  assumes "ascii_text s" "s = [] \<or> \<not> is_ident (hd s)"
  shows "case pg_render vals k (tokens prev s) of [] \<Rightarrow> True | c # _ \<Rightarrow> \<not> is_ascii_digit c"
proof (cases s)
  case (Cons c cs)
  have "\<not> is_ascii_digit (CHR ''$'')" by (simp add: is_ascii_digit_def code_def)
  with Cons assms show ?thesis by (auto dest: is_ident_digit)
qed simp

lemma pg_render_colons:
  assumes "ascii_text s" "pg_render vals k (tokens prev s) = colon # colon # r"
  shows "\<exists>r'. s = colon # colon # r'"
proof (cases s)
  case (Cons c cs)
  with assms have c: "\<not> bind_starts prev c cs" "c = colon"
      "pg_render vals k (tokens (Some c) cs) = colon # r" by (auto split: if_splits)
  then show ?thesis using assms(1) Cons by (cases cs) (auto simp: Let_def split: if_splits)
qed (use assms in simp)

lemma strip_cast_colons: "strip_cast s \<noteq> s \<Longrightarrow> \<exists>r. s = colon # colon # r"
  by (auto simp: strip_cast_def strip_prefix_Some split: option.splits)

lemma strip_cast_widening:
  "strip_cast r = r \<Longrightarrow> strip_cast (widening_cast v @ r) = r"
  by (cases v) (simp_all add: strip_cast_def)

lemma placeholders_to_ch_render:
  assumes "ascii_text s" "CHR ''$'' \<notin> set s" "\<not> contains s ''::''"
  shows "pg_placeholders_to_ch (pg_render vals k (tokens prev s)) = ch_render (tokens prev s)"
  using assms
proof (induction prev s arbitrary: k rule: tokens.induct)
  case (2 prev c cs)
  show ?case
  proof (cases "bind_starts prev c cs")
    case False
    have "\<not> contains cs ''::''" using "2.prems"(3) by (auto simp: contains_iff) (metis append_Cons)
    with 2 False show ?thesis by auto
  next
    case True
    let ?rest = "dropWhile is_ident cs"
    let ?prev = "Some (last (takeWhile is_ident cs))"
    let ?r = "pg_render vals (Suc k) (tokens ?prev ?rest)"
    have parts: "c # cs = (c # takeWhile is_ident cs) @ ?rest" by simp
    have a: "ascii_text ?rest" using "2.prems"(1) by (auto simp: ascii_text_def list_all_iff dest: set_dropWhileD)
    have d: "CHR ''$'' \<notin> set ?rest" using "2.prems"(2) by (auto dest: set_dropWhileD)
    have n: "\<not> contains ?rest ''::''" using "2.prems"(3) parts by (metis contains_iff append.assoc)
    have "strip_cast ?r = ?r"
      using strip_cast_colons pg_render_colons [OF a] n by (fastforce simp: contains_iff)
    moreover have "?rest = [] \<or> \<not> is_ident (hd ?rest)" by (metis hd_dropWhile)
    then have "case widening_cast (the (vals (takeWhile is_ident cs))) @ ?r of
        [] \<Rightarrow> True | c # _ \<Rightarrow> \<not> is_ascii_digit c"
      using pg_render_hd [OF a]
      by (cases "the (vals (takeWhile is_ident cs))") (auto simp: is_ascii_digit_def code_def)
    moreover obtain e es where "show_nat (Suc k) = e # es" "is_ascii_digit e"
      using show_nat_digits [of "Suc k"] by (cases "show_nat (Suc k)") auto
    ultimately have "pg_placeholders_to_ch (pg_render vals k (tokens prev (c # cs))) =
        CHR ''?'' # pg_placeholders_to_ch ?r"
      using True dropWhile_digits_show [of _ "Suc k"] strip_cast_widening by simp
    with 2 True a d n show ?thesis by simp
  qed
qed simp

fun expr_texts :: "expr \<Rightarrow> string list" where
  "expr_texts (Col c) = [c]"
| "expr_texts (Lit l) = [l]"
| "expr_texts (Bind n) = []"
| "expr_texts (Fn name args) = name # concat (map expr_texts args)"
| "expr_texts (Cast e ty) = expr_texts e"
| "expr_texts (Raw t) = [t]"

fun pred_texts :: "predicate \<Rightarrow> string list" where
  "pred_texts (Compare l cop r) = expr_texts l @ expr_texts r"
| "pred_texts (InList e items neg) = expr_texts e @ concat (map expr_texts items)"
| "pred_texts (PAnd a b) = pred_texts a @ pred_texts b"
| "pred_texts (POr a b) = pred_texts a @ pred_texts b"
| "pred_texts (PNot a) = pred_texts a"
| "pred_texts (PRaw t) = [t]"

definition ir_texts :: "query_ir \<Rightarrow> string list" where
  \<comment> \<open>every text of the query that is emitted verbatim\<close>
  "ir_texts ir =
     map si_text (q_select ir) @ [render_table_ref (q_from ir)] @
     concat (map (\<lambda>j. [render_table_ref (j_table j), j_on j]) (q_joins ir)) @
     concat (map pred_texts (q_where ir)) @ q_group_by ir @ map oi_expr (q_order_by ir)"

definition marks :: "string \<Rightarrow> nat" where
  "marks s = count_list s (CHR ''?'')"

lemma marks_simps [simp]:
  "marks [] = 0" "marks (a @ b) = marks a + marks b"
  "marks (c # s) = (if c = CHR ''?'' then Suc (marks s) else marks s)"
  by (simp_all add: marks_def)

lemma marks_0: "CHR ''?'' \<notin> set s \<Longrightarrow> marks s = 0"
  by (simp add: marks_def)

lemma marks_join:
  "marks sep = 0 \<Longrightarrow> marks (join sep xs) = sum_list (map marks xs)"
  by (simp add: marks_def [abs_def] count_list_join)

lemma marks_ch_render:
  "CHR ''?'' \<notin> set s \<Longrightarrow> marks (ch_render (tokens None s)) = length (bind_names s)"
  by (simp add: marks_def bind_names_def ch_render_count)

lemma length_concat_map: "length (concat (map f xs)) = sum_list (map (\<lambda>x. length (f x)) xs)"
  by (induction xs) auto

lemma marks_map_cong:
  "(\<And>x. x \<in> set xs \<Longrightarrow> marks (f x) = length (g x)) \<Longrightarrow>
     sum_list (map marks (map f xs)) = length (concat (map g xs))"
  by (induction xs) auto

lemma marks_ch_type: "ir_type_ch ty = Some t \<Longrightarrow> marks t = 0"
  by (cases ty) auto

lemma marks_expr_text:
  "check_expr e = Inr () \<Longrightarrow> CHR ''?'' \<notin> set (concat (expr_texts e)) \<Longrightarrow>
     marks (expr_text e) = length (expr_binds e)"
proof (induction e)
  case (Fn name args)
  then have "sum_list (map marks (map expr_text args)) = length (concat (map expr_binds args))"
    by (intro marks_map_cong) (auto simp: first_err_ok)
  with Fn.prems show ?case by (simp add: marks_join marks_0)
next
  case (Cast e ty)
  then show ?case by (cases "ir_type_ch ty") (auto simp: marks_ch_type)
qed (auto simp: marks_0 marks_ch_render)

lemma marks_pred_text:
  "check_pred p = Inr () \<Longrightarrow> CHR ''?'' \<notin> set (concat (pred_texts p)) \<Longrightarrow>
     marks (pred_text p) = length (pred_binds p)"
proof (induction p)
  case (Compare l cop r)
  moreover have "marks (cmp_sql cop) = 0" by (cases cop) auto
  ultimately show ?case by (simp add: first_err_ok marks_expr_text)
next
  case (InList e items neg)
  then have "sum_list (map marks (map expr_text items)) = length (concat (map expr_binds items))"
    by (intro marks_map_cong marks_expr_text) (auto simp: first_err_ok)
  with InList.prems show ?case by (simp add: marks_join marks_expr_text first_err_ok)
qed (simp_all add: first_err_ok marks_ch_render)

lemma marks_where_text:
  assumes "\<And>p. p \<in> set ps \<Longrightarrow> check_pred p = Inr () \<and> CHR ''?'' \<notin> set (concat (pred_texts p))"
    and "marks kw = 0"
  shows "marks (where_text kw ps) = length (concat (map pred_binds ps))"
proof -
  have "sum_list (map marks (map pred_text ps)) = length (concat (map pred_binds ps))"
    using assms(1) by (intro marks_map_cong marks_pred_text) auto
  with assms(2) show ?thesis by (simp add: where_text_def marks_join)
qed

lemma marks_show_int: "marks (show_int n) = 0"
proof -
  have "\<not> is_ascii_digit (CHR ''?'')" by (simp add: is_ascii_digit_def code_def)
  then have "CHR ''?'' \<notin> set (show_nat m)" for m
    using show_nat_digits [of m] by (auto simp: list_all_iff)
  then show ?thesis by (simp add: show_int_def marks_0)
qed

lemma marks_limit_text: "marks (limit_text lim) = length (limit_binds lim)"
  by (cases lim rule: limit_text.cases) (auto simp: marks_show_int)

lemma marks_joins:
  "(\<And>j. j \<in> set js \<Longrightarrow> CHR ''?'' \<notin> set (render_table_ref (j_table j)) \<and> CHR ''?'' \<notin> set (j_on j)) \<Longrightarrow>
     marks (concat (map (\<lambda>j. '' '' @ join_text j) js)) = length (concat (map (\<lambda>j. bind_names (j_on j)) js))"
proof (induction js)
  case (Cons j js)
  have "marks (join_keyword k) = 0" for k by (cases k) auto
  with Cons show ?case by (simp add: join_text_def marks_0 marks_ch_render)
qed simp

lemma marks_ir_text:
  assumes "validate_clickhouse ir = Inr ()" "CHR ''?'' \<notin> set (concat (ir_texts ir))"
  shows "marks (ir_text d ir) = length (ir_binds d ir)"
proof -
  obtain pre rest where sp: "split_prewhere d (q_where ir) = (pre, rest)" by fastforce
  have clean: "p \<in> set (q_where ir) \<Longrightarrow> check_pred p = Inr () \<and> CHR ''?'' \<notin> set (concat (pred_texts p))" for p
    using assms by (auto simp: validate_clickhouse_def first_err_ok ir_texts_def)
  have sub: "p \<in> set pre \<union> set rest \<Longrightarrow> p \<in> set (q_where ir)" for p
    using split_prewhere_sets [OF sp] by blast
  have w: "marks (where_text '' PREWHERE '' pre) = length (concat (map pred_binds pre))"
      "marks (where_text '' WHERE '' rest) = length (concat (map pred_binds rest))"
    by (rule marks_where_text; use clean sub in \<open>blast | simp\<close>)+
  have sel: "sum_list (map marks (map (\<lambda>i. ch_render (tokens None (si_text i))) (q_select ir))) =
      length (concat (map (\<lambda>i. bind_names (si_text i)) (q_select ir)))"
    using assms(2) by (intro marks_map_cong marks_ch_render) (auto simp: ir_texts_def)
  have js: "marks (concat (map (\<lambda>j. '' '' @ join_text j) (q_joins ir))) =
      length (concat (map (\<lambda>j. bind_names (j_on j)) (q_joins ir)))"
    using assms(2) by (intro marks_joins) (auto simp: ir_texts_def)
  have gb: "sum_list (map marks (q_group_by ir)) = 0"
    using assms(2) by (auto simp: ir_texts_def sum_list_eq_0_iff intro: marks_0)
  have ob: "sum_list (map marks (map render_order (q_order_by ir))) = 0"
    using assms(2) by (auto simp: ir_texts_def sum_list_eq_0_iff render_order_def marks_0 split: sort_dir.split)
  have fr: "marks (render_table_ref (q_from ir)) = 0"
    using assms(2) by (auto simp: ir_texts_def intro: marks_0)
  show ?thesis
    using w sel js gb ob fr by (simp add: ir_text_def ir_binds_def sp marks_join marks_limit_text)
qed

section \<open>Properties\<close>

text \<open>C9: The Postgres statement does not depend on the values bound to it.  Any other
  assignment of values of the same numeric kind to the names, and any query representation,
  give the same SQL text: what a client sends can reach the database as a bound value only.\<close>

theorem postgres_statement_ignores_values:
  assumes "postgres_lower s vals ir = Inr b"
    and "\<And>n v. vals n = Some v \<Longrightarrow> \<exists>w. vals' n = Some w \<and> widening_cast w = widening_cast v"
  shows "\<exists>b'. postgres_lower s vals' ir' = Inr b' \<and> bs_sql b' = bs_sql b"
proof -
  from pg.lower_text_only [OF assms(1)] assms(2)
  obtain b' where "postgres_lower s vals' ir = Inr b'" "bs_sql b' = bs_sql b" by blast
  then show ?thesis by (simp add: postgres_lower_def)
qed

theorem postgres_statement_ignores_values_witness:
  "\<exists>b'. postgres_lower ''SELECT a FROM t WHERE k = :k AND n < :n''
          ((\<lambda>_. None)(''k'' := Some (VText [CHR 0x27, CHR '';'']), ''n'' := Some (VInt 7))) None = Inr b' \<and>
        bs_sql b' = ''SELECT a FROM t WHERE k = $1 AND n < $2::int8''"
proof -
  let ?s = "''SELECT a FROM t WHERE k = :k AND n < :n''"
  let ?v = "(\<lambda>_. None)(''k'' := Some (VText ''x''), ''n'' := Some (VInt 1))"
  let ?w = "(\<lambda>_. None)(''k'' := Some (VText [CHR 0x27, CHR '';'']), ''n'' := Some (VInt 7))"
  have low: "postgres_lower ?s ?v None =
      Inr \<lparr>bs_sql = ''SELECT a FROM t WHERE k = $1 AND n < $2::int8'', bs_values = [VText ''x'', VInt 1]\<rparr>"
    by code_simp
  have kinds: "?v n = Some v \<Longrightarrow> \<exists>w. ?w n = Some w \<and> widening_cast w = widening_cast v" for n v
    by (auto split: if_splits)
  from postgres_statement_ignores_values [where vals = ?v and vals' = ?w and ir' = None, OF low kinds]
  show ?thesis by simp
qed


text \<open>A text without binds is emitted unchanged by the Postgres lowerer exactly when it is ASCII:
  a byte above 127 is pushed as a character of its own and comes out as two bytes.\<close>

theorem postgres_verbatim_iff_ascii:
  assumes "bind_names s = []"
  shows "postgres_lower s vals ir = Inr \<lparr>bs_sql = s, bs_values = []\<rparr> \<longleftrightarrow> ascii_text s"
  using assms render_all_verbatim [of None s vals 0] concat_push_byte_id [of s]
  by (simp add: postgres_lower_def lower_binds_spec bind_names_def)

theorem postgres_verbatim_iff_ascii_witness:
  "postgres_lower [CHR 0xC3, CHR 0xA9] (\<lambda>_. None) None \<noteq> Inr \<lparr>bs_sql = [CHR 0xC3, CHR 0xA9], bs_values = []\<rparr>"
  using postgres_verbatim_iff_ascii [of "[CHR 0xC3, CHR 0xA9]" "\<lambda>_. None" None]
  by (simp add: bind_names_def bind_starts_def code_def)

text \<open>ClickHouse lowering of a parsed query succeeds exactly when load-time validation accepts the
  query and every bind it names has a value; its values are then those of the names in the order
  SELECT, JOIN, PREWHERE, WHERE, LIMIT.\<close>

theorem clickhouse_lowering_complete:
  "(\<exists>b. lower_ir d ir vals = Inr b \<and> bs_values b = vmap vals (ir_binds d ir)) \<longleftrightarrow>
     validate_clickhouse ir = Inr () \<and> missing vals (ir_binds d ir) = None"
  by (auto simp: lower_ir_iff)

text \<open>A lowered ClickHouse query has as many \<open>?\<close> placeholders as values, when no verbatim text of
  the query contains a question mark.\<close>

theorem clickhouse_placeholders_match_values:
  assumes "lower_ir d ir vals = Inr b" and "CHR ''?'' \<notin> set (concat (ir_texts ir))"
  shows "marks (bs_sql b) = length (bs_values b)"
  using assms by (auto simp: lower_ir_iff marks_ir_text vmap_def)

definition sample_ir :: query_ir where
  "sample_ir =
     \<lparr>q_select = [\<lparr>si_text = ''a''\<rparr>], q_from = \<lparr>tr_schema = Some ''s'', tr_table = ''t'', tr_alias = None\<rparr>,
      q_joins = [], q_where = [Compare (Col ''ts'') CGe (Cast (Bind ''f'') Int8), InList (Col ''k'') [Bind ''k''] False],
      q_group_by = [], q_order_by = [\<lparr>oi_expr = ''ts'', oi_dir = Desc\<rparr>], q_limit = Some (LBind ''n''),
      q_raw_sql = []\<rparr>"

theorem clickhouse_placeholders_match_values_witness:
  "marks ''SELECT a FROM s.t FINAL PREWHERE ts >= CAST(? AS Int64) WHERE k IN (?) ORDER BY ts DESC LIMIT ?'' =
     length [VInt 1, VText ''x'', VInt 9]"
proof -
  have "lower_ir \<lparr>use_final = True, order_key_cols = [''ts'']\<rparr> sample_ir
      ((\<lambda>_. None)(''f'' := Some (VInt 1), ''k'' := Some (VText ''x''), ''n'' := Some (VInt 9))) =
      Inr \<lparr>bs_sql = ''SELECT a FROM s.t FINAL PREWHERE ts >= CAST(? AS Int64) WHERE k IN (?) ORDER BY ts DESC LIMIT ?'',
           bs_values = [VInt 1, VText ''x'', VInt 9]\<rparr>"
    by code_simp
  from clickhouse_placeholders_match_values [OF this] show ?thesis
    by (simp add: ir_texts_def sample_ir_def render_table_ref_def)
qed

text \<open>The PREWHERE split is a partition of the WHERE conjuncts: the two parts together hold of a row
  exactly when all conjuncts do, whatever their truth values are, and no conjunct is lost or repeated.\<close>

theorem prewhere_split_preserves_filter:
  "case split_prewhere d conjs of (pre, rest) \<Rightarrow>
     (list_all holds pre \<and> list_all holds rest \<longleftrightarrow> list_all holds conjs) \<and>
     length pre + length rest = length conjs"
  by (auto simp: split_prewhere_def list_all_iff sum_length_filter_compl split: list.split)

text \<open>For a raw-SQL spec on a ClickHouse table, translating the Postgres placeholders gives the same
  statement and values as lowering the binds to \<open>?\<close> directly, when the text is ASCII and uses neither
  \<open>$\<close> nor a \<open>::\<close> cast.\<close>

theorem clickhouse_fallback_is_direct_lowering:
  assumes "ascii_text s" and "CHR ''$'' \<notin> set s" and "\<not> contains s ''::''"
  shows "clickhouse_lower d s vals None =
     bind_res (lower_text_binds vals s []) (\<lambda>(t, vs). Inr \<lparr>bs_sql = t, bs_values = vs\<rparr>)"
  using placeholders_to_ch_render [OF assms, of vals 0 None]
  by (simp add: clickhouse_lower_def lower_binds_spec lower_text_binds_spec split: option.split)

theorem clickhouse_fallback_is_direct_lowering_witness:
  "clickhouse_lower \<lparr>use_final = False, order_key_cols = []\<rparr> ''SELECT a FROM s.t WHERE k = :k'' ((\<lambda>_. None)(''k'' := Some (VInt 5))) None =
     Inr \<lparr>bs_sql = ''SELECT a FROM s.t WHERE k = ?'', bs_values = [VInt 5]\<rparr>"
proof -
  have "lower_text_binds ((\<lambda>_. None)(''k'' := Some (VInt 5))) ''SELECT a FROM s.t WHERE k = :k'' [] =
      Inr (''SELECT a FROM s.t WHERE k = ?'', [VInt 5])"
    by code_simp
  moreover have "ascii_text ''SELECT a FROM s.t WHERE k = :k''" "\<not> contains ''SELECT a FROM s.t WHERE k = :k'' ''::''"
    by code_simp+
  ultimately show ?thesis
    using clickhouse_fallback_is_direct_lowering 
      [of "''SELECT a FROM s.t WHERE k = :k''" "\<lparr>use_final = False, order_key_cols = []\<rparr>"] by simp
qed

end
