(* ===== verification/Read_Spec.thy ===== *)
theory Read_Spec
  imports Read_Parse Read_Dialect
begin

text \<open>
  Read-endpoint specs (\<open>read/spec.rs\<close>, \<open>read/mod.rs\<close>): the declarative endpoint
  and parameter types, the start-up lints, the extraction of fragment names,
  the loader after TOML deserialisation (lint, drop, compile to the query
  representation) and the reverse index for cache invalidation.

  The TOML deserialiser is not part of the model: \<open>load_specs\<close> starts from the
  deserialised endpoints.  The functions of other crates the read layer calls
  are collected in \<open>externals\<close> and passed as an argument.
\<close>

text \<open>Dates are day numbers, timestamps and durations nanoseconds.\<close>

record externals =
  parse_date :: "string \<Rightarrow> int option"
  show_date :: "int \<Rightarrow> string"
  parse_rfc3339 :: "string \<Rightarrow> int option"
  midnight_utc :: "int \<Rightarrow> int"
  show_rfc3339 :: "int \<Rightarrow> string"
  show_f64 :: "f64 \<Rightarrow> string"
  parse_duration :: "string \<Rightarrow> int option"

datatype param_kind = PathParam | QueryParam

datatype transform = TNone | TUpper | TLower

datatype shape = Rows | One | Envelope

datatype toml_value = TString string | TInteger int | TFloat f64 | TBoolean bool | TOther string

record param_spec =
  p_name :: string
  p_kind :: param_kind
  p_ty :: string
  p_required :: bool
  p_default :: "toml_value option"
  p_min :: "f64 option"
  p_max :: "f64 option"
  p_max_len :: "nat option"
  p_transform :: transform
  p_select :: "(string, (string, string) hash_map) hash_map"
  p_present :: "(string, string) hash_map"
  p_absent :: "(string, string) hash_map"

definition is_enum :: "param_spec \<Rightarrow> bool" where
  "is_enum p \<longleftrightarrow> p_ty p = ''enum'' \<or> p_select p \<noteq> []"

definition is_presence :: "param_spec \<Rightarrow> bool" where
  "is_presence p \<longleftrightarrow> p_present p \<noteq> [] \<or> p_absent p \<noteq> []"

definition effectively_required :: "param_spec \<Rightarrow> bool" where
  "effectively_required p \<longleftrightarrow> p_required p \<or> p_kind p = PathParam"

record endpoint_spec =
  e_id :: string
  e_description :: string
  e_method :: string
  e_path :: string
  e_tables :: "string list"
  e_ttl :: string
  e_shape :: shape
  e_strip_lineage :: bool
  e_row_cap :: "int option"
  e_envelope_key :: "string option"
  e_sql :: string
  e_params :: "param_spec list"
  e_cache :: bool
  e_ch_final :: bool
  e_query_timeout_ms :: "int option"
  e_admin_cross_tenant :: bool
  e_self_tenant :: bool
  e_ir :: "query_ir option"

definition ttl_duration :: "externals \<Rightarrow> endpoint_spec \<Rightarrow> int" where
  "ttl_duration x ep =
     (case parse_duration x (e_ttl ep) of Some d \<Rightarrow> d | None \<Rightarrow> 60 * 1000000000)"

definition spec_param :: "endpoint_spec \<Rightarrow> string \<Rightarrow> param_spec option" where
  "spec_param ep name = find (\<lambda>p. p_name p = name) (e_params ep)"

subsection \<open>Fragments and lints\<close>

function fragment_names :: "string \<Rightarrow> string list" where
  "fragment_names [] = []"
| "fragment_names [a] = []"
| "fragment_names (a # b # cs) =
     (if a = CHR ''{'' \<and> b = CHR ''{'' then
        (case find_sub cs ''}}'' of
           Some e \<Rightarrow>
             (let name = trim (take e cs)
              in (if name = [] then [] else [name]) @ fragment_names (drop (e + 2) cs))
         | None \<Rightarrow> fragment_names (b # cs))
      else fragment_names (b # cs))"
  by pat_completeness auto
termination
  by (relation "measure length") auto

definition produced :: "endpoint_spec \<Rightarrow> string list" where
  "produced ep =
     concat (map (\<lambda>p. concat (map (\<lambda>(v, m). map fst m) (p_select p)) @
                       map fst (p_present p) @ map fst (p_absent p)) (e_params ep))"

definition bail :: "endpoint_spec \<Rightarrow> string \<Rightarrow> api_error" where
  "bail ep m = Internal (''spec '' @ [CHR 0x27] @ e_id ep @ [CHR 0x27] @ '': '' @ m)"

definition lint :: "externals \<Rightarrow> endpoint_spec \<Rightarrow> unit api_result" where
  "lint x ep =
     (if contains (to_lowercase (e_sql ep)) ''count(distinct'' then
        Inl (bail ep ''count(distinct ...) is banned on hypertables'')
      else if parse_duration x (e_ttl ep) = None then
        Inl (bail ep (''bad ttl '' @ [CHR 0x27] @ e_ttl ep @ [CHR 0x27]))
      else if e_self_tenant ep \<and> \<not> contains (e_sql ep) '':tenant'' then
        Inl (bail ep ''self_tenant = true but the SQL never references `:tenant`; the endpoint                  would read ACROSS tenants while appearing scoped'')
      else if e_self_tenant ep \<and> \<not> list_ex (\<lambda>p. p_name p = ''tenant'') (e_params ep) then
        Inl (bail ep ''self_tenant = true but no `tenant` param is declared; the bind cannot lower'')
      else
        (case find (\<lambda>frag. frag \<notin> set (produced ep)) (fragment_names (e_sql ep)) of
           Some frag \<Rightarrow> Inl (bail ep (''{{'' @ frag @ ''}}}} has no param producing it''))
         | None \<Rightarrow> Inr ()))"

subsection \<open>Loading\<close>

definition compile_spec :: "endpoint_spec \<Rightarrow> endpoint_spec run" where
  "compile_spec ep =
     (case parse_select (e_sql ep) of
        None \<Rightarrow> Panic
      | Some (Ir ir) \<Rightarrow> ret (ep\<lparr>e_ir := Some ir\<rparr>)
      | Some (Fallback reason) \<Rightarrow> ret (ep\<lparr>e_ir := None\<rparr>))"

fun compile_specs :: "endpoint_spec list \<Rightarrow> endpoint_spec list run" where
  "compile_specs [] = ret []"
| "compile_specs (ep # eps) =
     (case compile_spec ep of
        None \<Rightarrow> Panic
      | Some ep' \<Rightarrow> (case compile_specs eps of None \<Rightarrow> Panic | Some eps' \<Rightarrow> ret (ep' # eps')))"

definition load_specs :: "externals \<Rightarrow> endpoint_spec list \<Rightarrow> endpoint_spec list run" where
  \<comment> \<open>a spec that fails a lint is dropped, never fatal\<close>
  "load_specs x eps = compile_specs (filter (\<lambda>ep. lint x ep = Inr ()) eps)"

definition index_table :: "string \<Rightarrow> string \<Rightarrow> (string \<Rightarrow> string list option) \<Rightarrow> string \<Rightarrow> string list option" where
  "index_table i t idx =
     idx(t := Some (List.insert i (case idx t of None \<Rightarrow> [] | Some ids \<Rightarrow> ids)))"

definition build_reverse :: "endpoint_spec list \<Rightarrow> string \<Rightarrow> string list option" where
  "build_reverse specs =
     fold (\<lambda>ep idx. fold (\<lambda>t rv. index_table (e_id ep) t rv) (e_tables ep) idx) specs (\<lambda>_. None)"

subsection \<open>What the loader guarantees\<close>

lemma lint_self_tenant:
  "lint x ep = Inr () \<Longrightarrow> e_self_tenant ep \<Longrightarrow>
     contains (e_sql ep) '':tenant'' \<and> (\<exists>p\<in>set (e_params ep). p_name p = ''tenant'')"
  by (auto simp: lint_def list_ex_iff split: if_splits)

lemma lint_fragments: "lint x ep = Inr () \<Longrightarrow> set (fragment_names (e_sql ep)) \<subseteq> set (produced ep)"
  by (auto simp: lint_def find_None_iff split: if_splits option.splits)

lemma lint_ttl: "lint x ep = Inr () \<Longrightarrow> parse_duration x (e_ttl ep) = Some (ttl_duration x ep)"
  by (auto simp: lint_def ttl_duration_def split: if_splits option.splits)

lemma compile_spec_same: "compile_spec ep = Some ep' \<Longrightarrow> ep'\<lparr>e_ir := None\<rparr> = ep\<lparr>e_ir := None\<rparr>"
  by (auto simp: compile_spec_def split: option.splits parse_outcome.splits)

lemma compile_specs_map:
  "compile_specs eps = Some out \<Longrightarrow> map (\<lambda>e. e\<lparr>e_ir := None\<rparr>) out = map (\<lambda>e. e\<lparr>e_ir := None\<rparr>) eps"
  by (induction eps arbitrary: out) (auto simp: compile_spec_same split: option.splits)

lemma compile_specs_set:
  "compile_specs eps = Some out \<Longrightarrow> ep \<in> set out \<Longrightarrow> \<exists>e\<in>set eps. compile_spec e = Some ep"
  by (induction eps arbitrary: out) (auto split: option.splits)

lemma lint_ir_irrelevant [simp]: "lint x (ep\<lparr>e_ir := q\<rparr>) = lint x ep"
  by (simp add: lint_def bail_def produced_def cong: if_cong option.case_cong)

lemma lint_compile_spec: "compile_spec e = Some ep \<Longrightarrow> lint x ep = lint x e"
  by (auto simp: compile_spec_def split: option.splits parse_outcome.splits)

definition readers :: "(string \<Rightarrow> string list option) \<Rightarrow> string \<Rightarrow> string list" where
  "readers idx t = (case idx t of None \<Rightarrow> [] | Some ids \<Rightarrow> ids)"

lemma readers_index_table:
  "set (readers (index_table j t idx) u) = (if t = u then insert j (set (readers idx u)) else set (readers idx u))"
  by (auto simp: index_table_def readers_def split: option.splits)

lemma readers_fold_tables:
  "set (readers (fold (\<lambda>t rv. index_table j t rv) ts idx) u) =
     (if u \<in> set ts then insert j (set (readers idx u)) else set (readers idx u))"
  by (induction ts arbitrary: idx) (auto simp: readers_index_table)

lemma readers_fold_specs:
  "set (readers (fold (\<lambda>ep rv. fold (\<lambda>t rv. index_table (e_id ep) t rv) (e_tables ep) rv) specs idx) u) =
     {i. \<exists>ep\<in>set specs. e_id ep = i \<and> u \<in> set (e_tables ep)} \<union> set (readers idx u)"
  by (induction specs arbitrary: idx) (auto simp: readers_fold_tables)

lemma build_reverse_readers:
  "set (readers (build_reverse specs) u) = {i. \<exists>ep\<in>set specs. e_id ep = i \<and> u \<in> set (e_tables ep)}"
proof -
  have "readers (\<lambda>_. None) u = []" by (simp add: readers_def)
  then show ?thesis by (simp add: build_reverse_def readers_fold_specs)
qed

section \<open>A concrete instance of the external functions\<close>

fun sample_show_f64 :: "f64 \<Rightarrow> string" where
  "sample_show_f64 NaN = ''NaN''"
| "sample_show_f64 (Inf neg) = (if neg then ''-inf'' else ''inf'')"
| "sample_show_f64 (Fin neg m e) = (if neg then ''-'' else ''+'') @ show_int m @ ''p'' @ show_int e"

definition sample_ext :: externals where
  "sample_ext =
     \<lparr>parse_date = int_of_text, show_date = show_int, parse_rfc3339 = (\<lambda>s. None), midnight_utc = (\<lambda>d. d),
      show_rfc3339 = show_int, show_f64 = sample_show_f64, parse_duration = int_of_text\<rparr>"

definition text_param :: "string \<Rightarrow> param_spec" where
  "text_param n =
     \<lparr>p_name = n, p_kind = QueryParam, p_ty = ''str'', p_required = False, p_default = None, p_min = None,
      p_max = None, p_max_len = None, p_transform = TNone, p_select = [], p_present = [], p_absent = []\<rparr>"

definition sample_spec :: endpoint_spec where
  "sample_spec =
     \<lparr>e_id = ''t'', e_description = [], e_method = ''GET'', e_path = ''/t'', e_tables = [''s.t''], e_ttl = ''5'',
      e_shape = Rows, e_strip_lineage = True, e_row_cap = None, e_envelope_key = None,
      e_sql = ''SELECT id FROM s.t WHERE a = :a {{fb}}'',
      e_params = [text_param ''a'', (text_param ''b'')\<lparr>p_present := [(''fb'', ''AND b = :b'')]\<rparr>],
      e_cache = True, e_ch_final = False, e_query_timeout_ms = None, e_admin_cross_tenant = False,
      e_self_tenant = False, e_ir = None\<rparr>"

section \<open>Properties\<close>

definition tenant_spec :: endpoint_spec where
  "tenant_spec = sample_spec\<lparr>
     e_sql := ''SELECT id FROM s.t WHERE owner = :tenant'', e_params := [text_param ''tenant''], e_self_tenant := True\<rparr>"

definition attach_ir :: "endpoint_spec \<Rightarrow> endpoint_spec" where
  "attach_ir ep = ep\<lparr>e_ir := (case parse_select (e_sql ep) of Some (Ir ir) \<Rightarrow> Some ir | _ \<Rightarrow> None)\<rparr>"

lemma compile_spec_attach:
  "compile_spec ep = (if parse_select (e_sql ep) = None then None else Some (attach_ir ep))"
  by (auto simp: compile_spec_def attach_ir_def split: option.split parse_outcome.split)

lemma compile_specs_attach:
  "compile_specs eps =
     (if list_ex (\<lambda>ep. parse_select (e_sql ep) = None) eps then None else Some (map attach_ir eps))"
  by (induction eps) (auto simp: compile_spec_attach)

text \<open>Loading keeps exactly the endpoints that pass the lints, in the order of the configuration and
  unchanged but for the parsed query; a refused endpoint never affects another one.  Loading stops
  only when the parser panics on the SQL of an endpoint that passed.\<close>

theorem load_specs_exact:
  "load_specs x eps =
     (if list_ex (\<lambda>ep. lint x ep = Inr () \<and> parse_select (e_sql ep) = None) eps then None
      else Some (map attach_ir (filter (\<lambda>ep. lint x ep = Inr ()) eps)))"
  by (auto simp: load_specs_def compile_specs_attach list_ex_iff)



text \<open>One endpoint with a byte outside ASCII in its filter aborts loading for all endpoints: the
  scan for \<open>and\<close> slices the text at every byte and panics inside the character.\<close>

theorem non_ascii_filter_aborts_load:
  "load_specs sample_ext
     [sample_spec, sample_spec\<lparr>e_sql := ''SELECT id FROM s.t WHERE a = '' @ [CHR 0x27, CHR 0xC3, CHR 0xA9, CHR 0x27],
                               e_params := []\<rparr>] = None"
  by code_simp

end
