(* ===== verification/Read_Bind.thy ===== *)
theory Read_Bind
  imports Read_Spec
begin

text \<open>
  Per-request resolution of an endpoint (\<open>read/bind.rs\<close>): coercion and range
  check of every parameter, the choice of fragments, their substitution into
  the SQL text, the lowering of the remaining binds and the canonical cache
  key.
\<close>

subsection \<open>Coercion\<close>

fun canon :: "externals \<Rightarrow> bind_value \<Rightarrow> string" where
  "canon x (VText s) = s"
| "canon x (VInt i) = show_int i"
| "canon x (VFloat f) = show_f64 x f"
| "canon x (VDate d) = show_date x d"
| "canon x (VTs t) = show_rfc3339 x t"
| "canon x (VBool b) = (if b then ''true'' else ''false'')"

fun apply_transform :: "string \<Rightarrow> transform \<Rightarrow> string" where
  "apply_transform s TNone = s"
| "apply_transform s TUpper = to_uppercase s"
| "apply_transform s TLower = to_lowercase s"

definition default_str :: "externals \<Rightarrow> param_spec \<Rightarrow> string option" where
  "default_str x p =
     map_option (\<lambda>v. case v of
         TString s \<Rightarrow> s
       | TInteger i \<Rightarrow> show_int i
       | TFloat f \<Rightarrow> show_f64 x f
       | TBoolean b \<Rightarrow> (if b then ''true'' else ''false'')
       | TOther s \<Rightarrow> s) (p_default p)"

definition json_f64 :: "f64 option \<Rightarrow> json" where
  "json_f64 f = (case f of Some (Fin s m e) \<Rightarrow> JNumber (NFloat (Fin s m e)) | _ \<Rightarrow> JNull)"

definition range_bounds :: "externals \<Rightarrow> param_spec \<Rightarrow> string" where
  "range_bounds x p =
     (case (p_min p, p_max p) of
        (Some mn, Some mx) \<Rightarrow> ''expected '' @ show_f64 x mn @ '' <= '' @ p_name p @ '' <= '' @ show_f64 x mx
      | (Some mn, None) \<Rightarrow> ''expected '' @ p_name p @ '' >= '' @ show_f64 x mn
      | (None, Some mx) \<Rightarrow> ''expected '' @ p_name p @ '' <= '' @ show_f64 x mx
      | (None, None) \<Rightarrow> [])"

definition range_check :: "externals \<Rightarrow> param_spec \<Rightarrow> f64 \<Rightarrow> string \<Rightarrow> unit api_result" where
  \<comment> \<open>the branch without bounds is unreachable: nothing is below or above then\<close>
  "range_check x p v raw =
     (let below = (case p_min p of Some mn \<Rightarrow> f64_lt v mn | None \<Rightarrow> False);
          above = (case p_max p of Some mx \<Rightarrow> f64_lt mx v | None \<Rightarrow> False)
      in if \<not> below \<and> \<not> above then Inr ()
         else
           Inl (Validation (JArray [JObject
             [(''loc'', JArray [JString ''query'', JString (p_name p)]),
              (''msg'', JString (''value out of range: '' @ range_bounds x p @ '', got '' @ raw)),
              (''type'', JString ''value_error.number.not_in_range''),
              (''input'', JString raw),
              (''ctx'', JObject [(''min'', json_f64 (p_min p)), (''max'', json_f64 (p_max p))])]])))"

definition quoted :: "string \<Rightarrow> string" where
  "quoted s = [CHR 0x27] @ s @ [CHR 0x27]"

definition key_byte :: "char \<Rightarrow> bool" where
  "key_byte b \<longleftrightarrow> is_ascii_alphanumeric b \<or> b = CHR ''.'' \<or> b = CHR ''-'' \<or> b = CHR ''_''"

definition parse_timestamp :: "externals \<Rightarrow> string \<Rightarrow> int option" where
  "parse_timestamp x s =
     (case parse_rfc3339 x s of
        Some t \<Rightarrow> Some t
      | None \<Rightarrow> map_option (midnight_utc x) (parse_date x s))"

definition coerce :: "externals \<Rightarrow> param_spec \<Rightarrow> string \<Rightarrow> bind_value api_result" where
  "coerce x p raw =
     (if p_ty p = ''key'' \<or> p_ty p = ''symbol'' then
        (let s = apply_transform (to_uppercase (trim raw)) (p_transform p)
         in if s = [] \<or> 20 < length s \<or> \<not> list_all key_byte s
            then Inl (BadRequest (''invalid '' @ p_ty p @ '' '' @ quoted raw))
            else Inr (VText s))
      else if p_ty p = ''str'' then
        (let s = apply_transform raw (p_transform p)
         in case p_max_len p of
              Some ml \<Rightarrow>
                if ml < length s
                then Inl (BadRequest (quoted (p_name p) @ '' too long (max '' @ show_nat ml @ '')''))
                else Inr (VText s)
            | None \<Rightarrow> Inr (VText s))
      else if p_ty p = ''int'' then
        (case parse_i64 (trim raw) of
           None \<Rightarrow> Inl (BadRequest (quoted (p_name p) @ '' must be an integer''))
         | Some n \<Rightarrow> bind_res (range_check x p (f64_of_int n) raw) (\<lambda>_. Inr (VInt n)))
      else if p_ty p = ''float'' then
        (case parse_f64 (trim raw) of
           None \<Rightarrow> Inl (BadRequest (quoted (p_name p) @ '' must be a number''))
         | Some f \<Rightarrow> bind_res (range_check x p f raw) (\<lambda>_. Inr (VFloat f)))
      else if p_ty p = ''date'' then
        (case parse_date x (trim raw) of
           None \<Rightarrow> Inl (BadRequest (quoted (p_name p) @ '' must be YYYY-MM-DD''))
         | Some d \<Rightarrow> Inr (VDate d))
      else if p_ty p = ''timestamp'' then
        (case parse_timestamp x (trim raw) of
           None \<Rightarrow> Inl (BadRequest (quoted (p_name p) @ '' must be RFC3339 or YYYY-MM-DD''))
         | Some t \<Rightarrow> Inr (VTs t))
      else if p_ty p = ''bool'' then
        (let low = to_lowercase (trim raw)
         in Inr (VBool (low = ''1'' \<or> low = ''true'' \<or> low = ''yes'')))
      else if p_ty p = ''enum'' then Inr (VText (apply_transform raw (p_transform p)))
      else Inl (BadRequest (''unknown param type '' @ quoted (p_ty p))))"

subsection \<open>Resolution\<close>

record resolve_state =
  r_values :: bind_env
  r_choice :: "string \<Rightarrow> string option"
  r_present :: "string \<Rightarrow> bool option"
  r_canon :: "(string \<times> string) list"

type_synonym str_map = "string \<Rightarrow> string option"

definition raw_value :: "externals \<Rightarrow> str_map \<Rightarrow> str_map \<Rightarrow> param_spec \<Rightarrow> string option" where
  "raw_value x path query p =
     (case p_kind p of
        PathParam \<Rightarrow> path (p_name p)
      | QueryParam \<Rightarrow> (case query (p_name p) of Some v \<Rightarrow> Some v | None \<Rightarrow> default_str x p))"

definition enum_bound :: "param_spec \<Rightarrow> string \<Rightarrow> string" where
  \<comment> \<open>the mapped value under the parameter's own name, else the choice itself\<close>
  "enum_bound p choice =
     (case map_of (p_select p) choice of
        Some frags \<Rightarrow> (case map_of frags (p_name p) of Some v \<Rightarrow> v | None \<Rightarrow> choice)
      | None \<Rightarrow> choice)"

definition resolve_param ::
  "externals \<Rightarrow> str_map \<Rightarrow> str_map \<Rightarrow> param_spec \<Rightarrow> resolve_state \<Rightarrow> resolve_state api_result" where
  "resolve_param x path query p st =
     (case raw_value x path query p of
        None \<Rightarrow>
          if effectively_required p then Inl (BadRequest (''missing required '' @ quoted (p_name p)))
          else Inr (st\<lparr>r_present := (r_present st)(p_name p := Some False)\<rparr>)
      | Some r \<Rightarrow>
          if is_enum p then
            (let choice = apply_transform r (p_transform p)
             in if choice \<notin> fst ` set (p_select p)
                then Inl (BadRequest (quoted (p_name p) @ '' must be one of '' @
                       debug_str_list (sort (map fst (p_select p)))))
                else Inr (st\<lparr>r_choice := (r_choice st)(p_name p := Some choice),
                            r_canon := r_canon st @ [(p_name p, choice)],
                            r_values := (r_values st)(p_name p := Some (VText (enum_bound p choice))),
                            r_present := (r_present st)(p_name p := Some True)\<rparr>))
          else
            (case coerce x p r of
               Inl e \<Rightarrow> Inl e
             | Inr v \<Rightarrow> Inr (st\<lparr>r_canon := r_canon st @ [(p_name p, canon x v)],
                               r_values := (r_values st)(p_name p := Some v),
                               r_present := (r_present st)(p_name p := Some True)\<rparr>)))"

fun resolve_params ::
  "externals \<Rightarrow> str_map \<Rightarrow> str_map \<Rightarrow> param_spec list \<Rightarrow> resolve_state \<Rightarrow> resolve_state api_result" where
  "resolve_params x path query [] st = Inr st"
| "resolve_params x path query (p # ps) st =
     bind_res (resolve_param x path query p st) (resolve_params x path query ps)"

definition param_fragments :: "resolve_state \<Rightarrow> param_spec \<Rightarrow> (string, string) hash_map" where
  "param_fragments st p =
     (if is_enum p then
        (case r_choice st (p_name p) of
           Some choice \<Rightarrow> (case map_of (p_select p) choice of Some m \<Rightarrow> m | None \<Rightarrow> [])
         | None \<Rightarrow> [])
      else if is_presence p then
        (if r_present st (p_name p) = Some True then p_present p else p_absent p)
      else [])"

definition build_fragments :: "resolve_state \<Rightarrow> param_spec list \<Rightarrow> str_map" where
  "build_fragments st ps = fold (\<lambda>p frs. frs ++ map_of (param_fragments st p)) ps (\<lambda>_. None)"

function substitute_fragments :: "string \<Rightarrow> str_map \<Rightarrow> string" where
  "substitute_fragments [] frs = []"
| "substitute_fragments [a] frs = push_byte a"
| "substitute_fragments (a # b # cs) frs =
     (if a = CHR ''{'' \<and> b = CHR ''{'' then
        (case find_sub cs ''}}'' of
           Some e \<Rightarrow>
             (case frs (trim (take e cs)) of Some t \<Rightarrow> t | None \<Rightarrow> []) @
             substitute_fragments (drop (e + 2) cs) frs
         | None \<Rightarrow> push_byte a @ substitute_fragments (b # cs) frs)
      else push_byte a @ substitute_fragments (b # cs) frs)"
  by pat_completeness auto
termination
  by (relation "measure (\<lambda>(s, frs). length s)") auto

record bound =
  b_sql :: string
  b_values :: "bind_value list"
  b_substituted :: string
  b_value_map :: bind_env
  b_canon :: string

definition canon_text :: "(string \<times> string) list \<Rightarrow> string" where
  "canon_text parts = join ''&'' (map (\<lambda>(k, v). k @ ''='' @ v) (sort parts))"

definition empty_state :: resolve_state where
  "empty_state = \<lparr>r_values = (\<lambda>_. None), r_choice = (\<lambda>_. None), r_present = (\<lambda>_. None), r_canon = []\<rparr>"

definition resolve :: "externals \<Rightarrow> endpoint_spec \<Rightarrow> str_map \<Rightarrow> str_map \<Rightarrow> bound api_result" where
  "resolve x ep path query =
     bind_res (resolve_params x path query (e_params ep) empty_state) (\<lambda>st.
       let substituted = substitute_fragments (e_sql ep) (build_fragments st (e_params ep))
       in bind_res (lower_binds substituted (r_values st)) (\<lambda>lowered.
            Inr \<lparr>b_sql = bs_sql lowered, b_values = bs_values lowered, b_substituted = substituted,
                 b_value_map = r_values st, b_canon = canon_text (r_canon st)\<rparr>))"

section \<open>The statement depends on the author's decisions only\<close>

lemma coerce_kind:
  "coerce x p r = Inr v \<Longrightarrow> coerce x p r' = Inr v' \<Longrightarrow> widening_cast v = widening_cast v'"
  unfolding coerce_def Let_def
  by (auto simp: bind_res_Inr split: if_splits option.splits)

definition decision :: "externals \<Rightarrow> str_map \<Rightarrow> str_map \<Rightarrow> param_spec \<Rightarrow> string option option" where
  \<comment> \<open>absent, present, or present with this enum choice\<close>
  "decision x path query p =
     (case raw_value x path query p of
        None \<Rightarrow> None
      | Some r \<Rightarrow> Some (if is_enum p then Some (apply_transform r (p_transform p)) else None))"

definition same_decisions :: "resolve_state \<Rightarrow> resolve_state \<Rightarrow> bool" where
  "same_decisions st st' \<longleftrightarrow>
     r_choice st = r_choice st' \<and> r_present st = r_present st' \<and>
     (\<forall>n. map_option widening_cast (r_values st n) = map_option widening_cast (r_values st' n))"

lemma resolve_param_Inr:
  "resolve_param x path query p st = Inr st' \<longleftrightarrow>
     (case raw_value x path query p of
        None \<Rightarrow> \<not> effectively_required p \<and> st' = st\<lparr>r_present := (r_present st)(p_name p := Some False)\<rparr>
      | Some r \<Rightarrow>
          if is_enum p then
            apply_transform r (p_transform p) \<in> fst ` set (p_select p) \<and>
            st' = st\<lparr>r_choice := (r_choice st)(p_name p := Some (apply_transform r (p_transform p))),
                     r_canon := r_canon st @ [(p_name p, apply_transform r (p_transform p))],
                     r_values := (r_values st)
                       (p_name p := Some (VText (enum_bound p (apply_transform r (p_transform p))))),
                     r_present := (r_present st)(p_name p := Some True)\<rparr>
          else
            (\<exists>v. coerce x p r = Inr v \<and>
               st' = st\<lparr>r_canon := r_canon st @ [(p_name p, canon x v)],
                        r_values := (r_values st)(p_name p := Some v),
                        r_present := (r_present st)(p_name p := Some True)\<rparr>))"
  by (auto simp: resolve_param_def Let_def split: option.split sum.split)

lemma resolve_param_same_decisions:
  assumes r: "resolve_param x path query p st = Inr st1" "resolve_param x path' query' p st' = Inr st1'"
    and d: "decision x path query p = decision x path' query' p" and s: "same_decisions st st'"
  shows "same_decisions st1 st1'"
proof (cases "raw_value x path query p")
  case None
  with d have "raw_value x path' query' p = None" by (simp add: decision_def split: option.splits)
  with None r s show ?thesis by (simp add: resolve_param_Inr same_decisions_def)
next
  case (Some a)
  with d obtain b where b: "raw_value x path' query' p = Some b"
    by (auto simp: decision_def split: option.splits)
  show ?thesis
  proof (cases "is_enum p")
    case True
    with d Some b have "apply_transform a (p_transform p) = apply_transform b (p_transform p)"
      by (simp add: decision_def)
    with True Some b r s show ?thesis by (simp add: resolve_param_Inr same_decisions_def)
  next
    case False
    with Some b r obtain v w where v: "coerce x p a = Inr v" "coerce x p b = Inr w"
      and st: "st1 = st\<lparr>r_canon := r_canon st @ [(p_name p, canon x v)],
                r_values := (r_values st)(p_name p := Some v), r_present := (r_present st)(p_name p := Some True)\<rparr>"
      "st1' = st'\<lparr>r_canon := r_canon st' @ [(p_name p, canon x w)],
                r_values := (r_values st')(p_name p := Some w), r_present := (r_present st')(p_name p := Some True)\<rparr>"
      by (auto simp: resolve_param_Inr)
    with s coerce_kind [OF v] show ?thesis by (simp add: same_decisions_def)
  qed
qed

lemma resolve_params_same_decisions:
  assumes "resolve_params x path query ps st = Inr st1" "resolve_params x path' query' ps st' = Inr st1'"
    and "map (decision x path query) ps = map (decision x path' query') ps" "same_decisions st st'"
  shows "same_decisions st1 st1'"
  using assms
proof (induction ps arbitrary: st st')
  case (Cons p ps)
  then obtain s s' where "resolve_param x path query p st = Inr s" "resolve_params x path query ps s = Inr st1"
    "resolve_param x path' query' p st' = Inr s'" "resolve_params x path' query' ps s' = Inr st1'"
    by (auto simp: bind_res_Inr)
  with Cons show ?case using resolve_param_same_decisions by fastforce
qed simp

lemma build_fragments_same:
  "same_decisions st st' \<Longrightarrow> build_fragments st ps = build_fragments st' ps"
proof -
  assume "same_decisions st st'"
  then have "param_fragments st = param_fragments st'"
    by (intro ext) (simp add: param_fragments_def same_decisions_def)
  then show ?thesis by (simp add: build_fragments_def)
qed

lemma resolve_Inr:
  "resolve x ep path query = Inr b \<longleftrightarrow>
     (\<exists>st low. resolve_params x path query (e_params ep) empty_state = Inr st \<and>
        lower_binds (substitute_fragments (e_sql ep) (build_fragments st (e_params ep))) (r_values st) = Inr low \<and>
        b = \<lparr>b_sql = bs_sql low, b_values = bs_values low,
             b_substituted = substitute_fragments (e_sql ep) (build_fragments st (e_params ep)),
             b_value_map = r_values st, b_canon = canon_text (r_canon st)\<rparr>)"
  by (auto simp: resolve_def bind_res_Inr Let_def)

section \<open>Cache keys\<close>

lemma join_inject:
  assumes "join [c] xs = join [c] ys" "\<And>y. y \<in> set xs \<union> set ys \<Longrightarrow> c \<notin> set y \<and> y \<noteq> []"
  shows "xs = ys"
proof (cases "xs = [] \<or> ys = []")
  case True
  have "join [c] zs = [] \<Longrightarrow> zs = []" if "\<And>y. y \<in> set zs \<Longrightarrow> y \<noteq> []" for zs
    using that by (cases zs) (auto simp: join_Cons split: if_splits)
  with True assms show ?thesis by (metis UnCI join.simps(1))
next
  case False
  with assms show ?thesis by (metis UnCI split_on_join)
qed

lemma canon_text_inject:
  assumes "canon_text as = canon_text bs"
    and "\<And>k v. (k, v) \<in> set as \<union> set bs \<Longrightarrow> CHR ''='' \<notin> set k \<and> CHR ''&'' \<notin> set k \<and> CHR ''&'' \<notin> set v"
  shows "set as = set bs"
proof -
  let ?f = "\<lambda>(k, v). k @ ''='' @ v"
  have free: "CHR ''&'' \<notin> set (?f kv) \<and> ?f kv \<noteq> []" if "kv \<in> set as \<union> set bs" for kv
    using that assms(2) [of "fst kv" "snd kv"] by (cases kv) simp
  have "map ?f (sort as) = map ?f (sort bs)"
  proof (rule join_inject)
    show "join ''&'' (map ?f (sort as)) = join ''&'' (map ?f (sort bs))"
      using assms(1) by (simp only: canon_text_def)
    show "CHR ''&'' \<notin> set y \<and> y \<noteq> []" if "y \<in> set (map ?f (sort as)) \<union> set (map ?f (sort bs))" for y
    proof -
      from that obtain kv where "kv \<in> set as \<union> set bs" "y = ?f kv" by auto
      with free show ?thesis by metis
    qed
  qed
  then have "set (map ?f (sort as)) = set (map ?f (sort bs))" by (rule arg_cong)
  then have img: "?f ` set as = ?f ` set bs" by (simp only: set_map set_sort)
  have inj: "inj_on ?f (set as \<union> set bs)"
  proof (rule inj_onI, clarify)
    fix k v k' v' assume m: "(k, v) \<in> set as \<union> set bs" "(k', v') \<in> set as \<union> set bs"
      and eq: "k @ ''='' @ v = k' @ ''='' @ v'"
    have a: "split_once (CHR ''='') (k @ CHR ''='' # v) = Some (k, v)"
      using assms(2) [OF m(1)] by simp
    have b: "split_once (CHR ''='') (k' @ CHR ''='' # v') = Some (k', v')"
      using assms(2) [OF m(2)] by simp
    from eq have "k @ CHR ''='' # v = k' @ CHR ''='' # v'" by simp
    then have "Some (k, v) = Some (k', v')" by (simp only: a [symmetric] b [symmetric])
    then show "k = k' \<and> v = v'" by simp
  qed
  show ?thesis by (rule iffD1 [OF inj_on_image_eq_iff [OF inj Un_upper1 Un_upper2] img])
qed

definition param_out :: "externals \<Rightarrow> str_map \<Rightarrow> str_map \<Rightarrow> param_spec \<Rightarrow> (string \<times> bind_value) option" where
  \<comment> \<open>cache-key text and bound value of a parameter that is present\<close>
  "param_out x path query p =
     (case raw_value x path query p of
        None \<Rightarrow> None
      | Some r \<Rightarrow>
          if is_enum p then
            (let choice = apply_transform r (p_transform p) in Some (choice, VText (enum_bound p choice)))
          else (case coerce x p r of Inl e \<Rightarrow> None | Inr v \<Rightarrow> Some (canon x v, v)))"

definition canon_entry :: "externals \<Rightarrow> str_map \<Rightarrow> str_map \<Rightarrow> param_spec \<Rightarrow> (string \<times> string) list" where
  "canon_entry x path query p = (case param_out x path query p of None \<Rightarrow> [] | Some (c, v) \<Rightarrow> [(p_name p, c)])"

lemma canon_entry_mem:
  "(n, c) \<in> set (canon_entry x path query p) \<longleftrightarrow> n = p_name p \<and> (\<exists>v. param_out x path query p = Some (c, v))"
  by (cases "param_out x path query p") (auto simp: canon_entry_def)

lemma resolve_param_canon:
  "resolve_param x path query p st = Inr st' \<Longrightarrow> r_canon st' = r_canon st @ canon_entry x path query p"
  by (auto simp: resolve_param_def canon_entry_def param_out_def Let_def split: option.splits if_splits sum.splits)

lemma resolve_params_canon:
  "resolve_params x path query ps st = Inr st' \<Longrightarrow>
     r_canon st' = r_canon st @ concat (map (canon_entry x path query) ps)"
  by (induction ps arbitrary: st) (auto simp: bind_res_Inr resolve_param_canon)

lemma resolve_param_same_out:
  assumes "resolve_param x path query p st = Inr s" "resolve_param x path' query' p st = Inr s'"
    and "param_out x path query p = param_out x path' query' p"
  shows "s = s'"
  using assms
  by (auto simp: resolve_param_def param_out_def Let_def split: option.splits if_splits sum.splits)

lemma resolve_params_same_out:
  assumes "resolve_params x path query ps st = Inr s" "resolve_params x path' query' ps st = Inr s'"
    and "\<And>p. p \<in> set ps \<Longrightarrow> param_out x path query p = param_out x path' query' p"
  shows "s = s'"
  using assms
proof (induction ps arbitrary: st)
  case (Cons p ps)
  then obtain t t' where t: "resolve_param x path query p st = Inr t" "resolve_params x path query ps t = Inr s"
    "resolve_param x path' query' p st = Inr t'" "resolve_params x path' query' ps t' = Inr s'"
    by (auto simp: bind_res_Inr)
  then have "t = t'" using Cons.prems(3) resolve_param_same_out by (metis list.set_intros(1))
  with t Cons show ?case by simp
qed simp

definition faithful_printers :: "externals \<Rightarrow> bool" where
  \<comment> \<open>printing a date, a timestamp or a parsed number loses nothing\<close>
  "faithful_printers x \<longleftrightarrow>
     inj (show_date x) \<and> inj (show_rfc3339 x) \<and> inj_on (show_f64 x) {f. \<exists>s. parse_f64 s = Some f}"

lemma coerce_canon_inject:
  assumes "coerce x p r = Inr v" "coerce x p r' = Inr v'" "canon x v = canon x v'" "faithful_printers x"
  shows "v = v'"
proof -
  have fl: "parse_f64 s = Some f \<Longrightarrow> parse_f64 s' = Some f' \<Longrightarrow> show_f64 x f = show_f64 x f' \<Longrightarrow> f = f'" for s s' f f'
    using assms(4) unfolding faithful_printers_def inj_on_def by blast
  from assms show ?thesis
    unfolding coerce_def Let_def faithful_printers_def
    by (auto simp: bind_res_Inr inj_eq split: if_splits option.splits intro: fl)
qed

lemma param_out_canon_inject:
  assumes "param_out x path query p = Some (c, v)" "param_out x path' query' p = Some (c, v')" "faithful_printers x"
  shows "v = v'"
  using assms coerce_canon_inject
  by (fastforce simp: param_out_def Let_def split: option.splits if_splits sum.splits)

lemma canon_entries_determine:
  assumes "set (concat (map (canon_entry x path query) ps)) = set (concat (map (canon_entry x path' query') ps))"
    and "distinct (map p_name ps)" "p \<in> set ps" "faithful_printers x"
  shows "param_out x path query p = param_out x path' query' p"
proof -
  have uniq: "q \<in> set ps \<Longrightarrow> p_name p = p_name q \<Longrightarrow> q = p" for q
    using assms(2,3) by (simp add: distinct_map inj_on_def)
  have mem: "(p_name p, c) \<in> set (concat (map (canon_entry x pa qu) ps)) \<longleftrightarrow>
      (\<exists>v. param_out x pa qu p = Some (c, v))" for c pa qu
    using assms(3) uniq by (simp add: canon_entry_mem) metis
  show ?thesis
  proof (cases "param_out x path query p")
    case None
    then show ?thesis using mem assms(1) by (metis not_None_eq surj_pair)
  next
    case (Some cv)
    obtain c v where cv: "cv = (c, v)" by fastforce
    with Some mem assms(1) obtain v' where "param_out x path' query' p = Some (c, v')" by metis
    with Some cv assms(4) show ?thesis using param_out_canon_inject by metis
  qed
qed

section \<open>A concrete instance of the external functions\<close>

lemma p_not_in_show_int: "CHR ''p'' \<notin> set (show_int i)"
proof -
  have "\<not> is_ascii_digit (CHR ''p'')" by (simp add: is_ascii_digit_def code_def)
  then have "CHR ''p'' \<notin> set (show_nat n)" for n using show_nat_digits [of n] by (auto simp: list_all_iff)
  then show ?thesis by (simp add: show_int_def)
qed

lemma sample_show_Fin_inject:
  assumes "show_int m @ CHR ''p'' # show_int e = show_int m' @ CHR ''p'' # show_int e'"
  shows "m = m' \<and> e = e'"
proof -
  have "split_once (CHR ''p'') (show_int m @ CHR ''p'' # show_int e) =
      split_once (CHR ''p'') (show_int m' @ CHR ''p'' # show_int e')"
    by (simp only: assms)
  then show ?thesis by (simp add: p_not_in_show_int)
qed

lemma show_int_hd_i: "show_int m @ r \<noteq> CHR ''i'' # s"
proof -
  have "\<not> is_ascii_digit (CHR ''i'')" by (simp add: is_ascii_digit_def code_def)
  then show ?thesis
    using show_nat_digits [of "nat m"] by (cases "show_nat (nat m)") (auto simp: show_int_def)
qed

lemma sample_show_f64_inject: "sample_show_f64 f = sample_show_f64 g \<Longrightarrow> f = g"
  by (cases f; cases g)
    (auto simp: show_int_hd_i show_int_hd_i [symmetric] dest: sample_show_Fin_inject split: if_splits)

lemma faithful_sample_ext: "faithful_printers sample_ext"
  by (auto simp: faithful_printers_def sample_ext_def inj_on_def intro: sample_show_f64_inject)

section \<open>Properties\<close>

text \<open>Two requests to an endpoint that are resolved and agree on which parameters are present and on
  the enum choices get the same SQL text, whatever the parameter values are: no client text reaches
  the statement.\<close>

theorem sql_text_fixed_by_decisions:
  assumes "resolve x ep path query = Inr b" and "resolve x ep path' query' = Inr b'"
    and "map (decision x path query) (e_params ep) = map (decision x path' query') (e_params ep)"
  shows "b_sql b = b_sql b' \<and> b_substituted b = b_substituted b'"
proof -
  from assms(1,2) obtain st low st' low' where
    st: "resolve_params x path query (e_params ep) empty_state = Inr st"
      "resolve_params x path' query' (e_params ep) empty_state = Inr st'" and
    low: "lower_binds (substitute_fragments (e_sql ep) (build_fragments st (e_params ep))) (r_values st) = Inr low"
      "lower_binds (substitute_fragments (e_sql ep) (build_fragments st' (e_params ep))) (r_values st') = Inr low'" and
    b: "b_sql b = bs_sql low" "b_sql b' = bs_sql low'"
      "b_substituted b = substitute_fragments (e_sql ep) (build_fragments st (e_params ep))"
      "b_substituted b' = substitute_fragments (e_sql ep) (build_fragments st' (e_params ep))"
    by (auto simp: resolve_Inr)
  have same: "same_decisions st st'"
    using resolve_params_same_decisions [OF st assms(3)] by (simp add: same_decisions_def)
  have frs: "build_fragments st (e_params ep) = build_fragments st' (e_params ep)"
    by (rule build_fragments_same [OF same])
  have "bs_sql low = bs_sql low'"
  proof (rule lower_binds_blind [OF low(1)])
    show "lower_binds (substitute_fragments (e_sql ep) (build_fragments st (e_params ep))) (r_values st') = Inr low'"
      using low(2) frs by simp
    fix n assume "n \<in> set (bind_names (substitute_fragments (e_sql ep) (build_fragments st (e_params ep))))"
    then have "r_values st n \<noteq> None"
      using low(1) by (auto simp: lower_binds_spec missing_None split: option.splits)
    moreover have "map_option widening_cast (r_values st n) = map_option widening_cast (r_values st' n)"
      using same by (simp add: same_decisions_def)
    ultimately show "widening_cast (the (r_values st n)) = widening_cast (the (r_values st' n))"
      by (cases "r_values st n"; cases "r_values st' n") auto
  qed
  with b frs show ?thesis by simp
qed

theorem sql_text_fixed_by_decisions_witness:
  "\<exists>b b'. resolve sample_ext sample_spec (\<lambda>_. None) [''a'' \<mapsto> ''x''] = Inr b \<and>
          resolve sample_ext sample_spec (\<lambda>_. None) [''a'' \<mapsto> [CHR 0x27] @ '' OR 1=1 --''] = Inr b' \<and>
          b_sql b = b_sql b'"
proof -
  let ?q = "[''a'' \<mapsto> ''x'']" and ?q' = "[''a'' \<mapsto> [CHR 0x27] @ '' OR 1=1 --'']"
  have "map_sum id b_canon (resolve sample_ext sample_spec (\<lambda>_. None) ?q) = Inr ''a=x''"
    "map_sum id b_canon (resolve sample_ext sample_spec (\<lambda>_. None) ?q') = Inr (''a='' @ [CHR 0x27] @ '' OR 1=1 --'')"
    by code_simp+
  then have "\<exists>b. resolve sample_ext sample_spec (\<lambda>_. None) ?q = Inr b"
    "\<exists>b. resolve sample_ext sample_spec (\<lambda>_. None) ?q' = Inr b"
    by (auto simp: map_sum_Inr)
  moreover have "map (decision sample_ext (\<lambda>_. None) ?q) (e_params sample_spec) =
      map (decision sample_ext (\<lambda>_. None) ?q') (e_params sample_spec)"
    by code_simp
  ultimately show ?thesis using sql_text_fixed_by_decisions by metis
qed

text \<open>Equal cache keys mean the same query.  When the parameter names of an endpoint are distinct and
  free of \<open>=\<close> and \<open>&\<close> and no resolved value contains \<open>&\<close>, two requests with the same canonical key
  run the same statement with the same values.\<close>

theorem cache_key_determines_query:
  assumes "resolve x ep path query = Inr b" and "resolve x ep path' query' = Inr b'"
    and "b_canon b = b_canon b'"
    and "distinct (map p_name (e_params ep))" and "faithful_printers x"
    and "\<And>p. p \<in> set (e_params ep) \<Longrightarrow> CHR ''='' \<notin> set (p_name p) \<and> CHR ''&'' \<notin> set (p_name p)"
    and "\<And>p c v. p \<in> set (e_params ep) \<Longrightarrow>
           param_out x path query p = Some (c, v) \<or> param_out x path' query' p = Some (c, v) \<Longrightarrow> CHR ''&'' \<notin> set c"
  shows "b = b'"
proof -
  let ?ps = "e_params ep"
  from assms(1,2) obtain st st' where
    st: "resolve_params x path query ?ps empty_state = Inr st" "resolve_params x path' query' ?ps empty_state = Inr st'"
    and canon: "b_canon b = canon_text (r_canon st)" "b_canon b' = canon_text (r_canon st')"
    by (auto simp: resolve_Inr)
  have parts: "r_canon st = concat (map (canon_entry x path query) ?ps)"
      "r_canon st' = concat (map (canon_entry x path' query') ?ps)"
    using resolve_params_canon [OF st(1)] resolve_params_canon [OF st(2)] by (simp_all add: empty_state_def)
  have clean: "CHR ''='' \<notin> set k \<and> CHR ''&'' \<notin> set k \<and> CHR ''&'' \<notin> set v"
    if kv: "(k, v) \<in> set (r_canon st) \<union> set (r_canon st')" for k v
  proof -
    from kv obtain p w where "p \<in> set ?ps" "k = p_name p"
      "param_out x path query p = Some (v, w) \<or> param_out x path' query' p = Some (v, w)"
      unfolding parts by (auto simp: canon_entry_mem)
    then show ?thesis using assms(6,7) by blast
  qed
  from assms(3) canon have "canon_text (r_canon st) = canon_text (r_canon st')" by simp
  then have "set (r_canon st) = set (r_canon st')" using clean by (rule canon_text_inject)
  then have "set (concat (map (canon_entry x path query) ?ps)) = set (concat (map (canon_entry x path' query') ?ps))"
    by (simp only: parts)
  then have "param_out x path query p = param_out x path' query' p" if "p \<in> set ?ps" for p
    using assms(4) that assms(5) by (rule canon_entries_determine)
  then have "st = st'" using resolve_params_same_out [OF st] by blast
  with st assms(1,2) show ?thesis by (auto simp: resolve_Inr)
qed

theorem cache_key_determines_query_witness:
  "resolve sample_ext sample_spec (\<lambda>_. None) [''a'' \<mapsto> ''x''] =
     resolve sample_ext sample_spec (\<lambda>_. None) [''a'' \<mapsto> ''x'', ''c'' \<mapsto> ''&'']"
proof -
  let ?q = "[''a'' \<mapsto> ''x'']" and ?q' = "[''a'' \<mapsto> ''x'', ''c'' \<mapsto> ''&'']"
  have "map_sum id b_canon (resolve sample_ext sample_spec (\<lambda>_. None) ?q) = Inr ''a=x''"
    "map_sum id b_canon (resolve sample_ext sample_spec (\<lambda>_. None) ?q') = Inr ''a=x''"
    by code_simp+
  then obtain b b' where b: "resolve sample_ext sample_spec (\<lambda>_. None) ?q = Inr b"
      "resolve sample_ext sample_spec (\<lambda>_. None) ?q' = Inr b'" "b_canon b = b_canon b'"
    by (auto simp: map_sum_Inr)
  have out: "map (param_out sample_ext (\<lambda>_. None) ?q) (e_params sample_spec) = [Some (''x'', VText ''x''), None]"
    "map (param_out sample_ext (\<lambda>_. None) ?q') (e_params sample_spec) = [Some (''x'', VText ''x''), None]"
    "map p_name (e_params sample_spec) = [''a'', ''b'']"
    by code_simp+
  have "b = b'"
    using out by (intro cache_key_determines_query [OF b _ faithful_sample_ext])
      (auto simp: sample_spec_def text_param_def)
  with b show ?thesis by simp
qed

text \<open>Without that restriction the key is ambiguous: the parameters are joined without escaping, so
  a value that contains \<open>&\<close> and \<open>=\<close> gives the key of a different query on the same endpoint.\<close>

theorem cache_key_collision:
  "\<exists>x ep query query' b b'.
     resolve x ep (\<lambda>_. None) query = Inr b \<and> resolve x ep (\<lambda>_. None) query' = Inr b' \<and>
     b_canon b = b_canon b' \<and> b_sql b \<noteq> b_sql b' \<and> b_values b \<noteq> b_values b'"
proof -
  let ?q = "[''a'' \<mapsto> ''1&b=2'']" and ?q' = "[''a'' \<mapsto> ''1'', ''b'' \<mapsto> ''2'']"
  have e: "map_sum id (\<lambda>b. (b_canon b, b_sql b, b_values b)) (resolve sample_ext sample_spec (\<lambda>_. None) ?q) =
      Inr (''a=1&b=2'', ''SELECT id FROM s.t WHERE a = $1 '', [VText ''1&b=2''])"
    by code_simp
  have e': "map_sum id (\<lambda>b. (b_canon b, b_sql b, b_values b)) (resolve sample_ext sample_spec (\<lambda>_. None) ?q') =
      Inr (''a=1&b=2'', ''SELECT id FROM s.t WHERE a = $1 AND b = $2'', [VText ''1'', VText ''2''])"
    by code_simp
  from e obtain b where "resolve sample_ext sample_spec (\<lambda>_. None) ?q = Inr b" "b_canon b = ''a=1&b=2''"
    "b_sql b = ''SELECT id FROM s.t WHERE a = $1 ''" "b_values b = [VText ''1&b=2'']"
    by (cases "resolve sample_ext sample_spec (\<lambda>_. None) ?q") auto
  moreover from e' obtain b' where "resolve sample_ext sample_spec (\<lambda>_. None) ?q' = Inr b'" "b_canon b' = ''a=1&b=2''"
    "b_sql b' = ''SELECT id FROM s.t WHERE a = $1 AND b = $2''" "b_values b' = [VText ''1'', VText ''2'']"
    by (cases "resolve sample_ext sample_spec (\<lambda>_. None) ?q'") auto
  ultimately show ?thesis
    by (intro exI [of _ sample_ext] exI [of _ sample_spec] exI [of _ ?q] exI [of _ ?q'] exI [of _ b] exI [of _ b']) simp
qed

section \<open>Values and errors\<close>

lemma resolve_param_values:
  "resolve_param x path query p st = Inr st' \<Longrightarrow>
     r_values st' = (case param_out x path query p of
       None \<Rightarrow> r_values st | Some (c, v) \<Rightarrow> (r_values st)(p_name p := Some v))"
  by (auto simp: resolve_param_def param_out_def Let_def split: option.splits if_splits sum.splits)

lemma resolve_params_other:
  "resolve_params x path query ps st = Inr st' \<Longrightarrow> n \<notin> p_name ` set ps \<Longrightarrow> r_values st' n = r_values st n"
proof (induction ps arbitrary: st)
  case (Cons p ps)
  then obtain s where s: "resolve_param x path query p st = Inr s" "resolve_params x path query ps s = Inr st'"
    by (auto simp: bind_res_Inr)
  with Cons have "r_values st' n = r_values s n" by simp
  with resolve_param_values [OF s(1)] Cons.prems(2) show ?case by (auto split: option.splits)
qed simp

lemma resolve_params_value:
  "resolve_params x path query ps st = Inr st' \<Longrightarrow> distinct (map p_name ps) \<Longrightarrow> p \<in> set ps \<Longrightarrow>
     param_out x path query p = Some (c, v) \<Longrightarrow> r_values st' (p_name p) = Some v"
proof (induction ps arbitrary: st)
  case (Cons q ps)
  then obtain s where s: "resolve_param x path query q st = Inr s" "resolve_params x path query ps s = Inr st'"
    by (auto simp: bind_res_Inr)
  show ?case
  proof (cases "p = q")
    case True
    with Cons.prems have "p_name p \<notin> p_name ` set ps" by simp
    with resolve_params_other [OF s(2)] resolve_param_values [OF s(1)] True Cons.prems show ?thesis by simp
  next
    case False
    with Cons.prems Cons.IH [OF s(2)] show ?thesis by simp
  qed
qed simp

lemma resolve_value_map:
  "resolve x ep path query = Inr b \<Longrightarrow> distinct (map p_name (e_params ep)) \<Longrightarrow> p \<in> set (e_params ep) \<Longrightarrow>
     param_out x path query p = Some (c, v) \<Longrightarrow> b_value_map b (p_name p) = Some v"
  by (auto simp: resolve_Inr intro: resolve_params_value)

definition in_bounds :: "param_spec \<Rightarrow> f64 \<Rightarrow> bool" where
  "in_bounds p v \<longleftrightarrow>
     (case p_min p of Some mn \<Rightarrow> \<not> f64_lt v mn | None \<Rightarrow> True) \<and>
     (case p_max p of Some mx \<Rightarrow> \<not> f64_lt mx v | None \<Rightarrow> True)"

lemma range_check_Inr: "range_check x p v raw = Inr u \<longleftrightarrow> in_bounds p v"
  by (auto simp: range_check_def in_bounds_def Let_def split: option.splits)

lemma coerce_int_Inr:
  "p_ty p = ''int'' \<Longrightarrow>
     coerce x p raw = Inr v \<longleftrightarrow>
       (\<exists>n. parse_i64 (trim raw) = Some n \<and> v = VInt n \<and> in_bounds p (f64_of_int n))"
  by (auto simp: coerce_def bind_res_Inr range_check_Inr split: option.splits)

lemma resolve_params_each:
  "resolve_params x path query ps st = Inr st' \<Longrightarrow> p \<in> set ps \<Longrightarrow>
     \<exists>s s'. resolve_param x path query p s = Inr s'"
  by (induction ps arbitrary: st) (auto simp: bind_res_Inr)

text \<open>A numeric parameter is never clamped or rounded.  When a request is resolved, an integer
  parameter the client gave is a 64-bit integer inside the declared bounds and is bound as exactly
  that integer.\<close>

theorem int_parameter_exact:
  assumes "resolve x ep path query = Inr b" and "distinct (map p_name (e_params ep))"
    and "p \<in> set (e_params ep)" and "p_ty p = ''int''" and "\<not> is_enum p"
    and "raw_value x path query p = Some raw"
  shows "\<exists>n. parse_i64 (trim raw) = Some n \<and> - (2 ^ 63) \<le> n \<and> n < 2 ^ 63 \<and> in_bounds p (f64_of_int n) \<and>
           b_value_map b (p_name p) = Some (VInt n)"
proof -
  from assms(1) obtain st where st: "resolve_params x path query (e_params ep) empty_state = Inr st"
    by (auto simp: resolve_Inr)
  from resolve_params_each [OF st assms(3)] obtain v where v: "coerce x p raw = Inr v"
    using assms(5,6) by (auto simp: resolve_param_Inr)
  then have "param_out x path query p = Some (canon x v, v)" using assms(5,6) by (simp add: param_out_def)
  from resolve_value_map [OF assms(1-3) this] v show ?thesis
    using assms(4) by (auto simp: coerce_int_Inr parse_i64_def split: if_splits option.splits)
qed

definition int_spec :: endpoint_spec where
  "int_spec = sample_spec\<lparr>
     e_sql := ''SELECT id FROM s.t LIMIT :n'',
     e_params := [(text_param ''n'')\<lparr>p_ty := ''int'', p_min := Some (f64_of_int 1), p_max := Some (f64_of_int 200)\<rparr>]\<rparr>"

theorem int_parameter_exact_witness:
  "\<exists>b. resolve sample_ext int_spec (\<lambda>_. None) [''n'' \<mapsto> '' 150''] = Inr b \<and> b_value_map b ''n'' = Some (VInt 150)"
proof -
  let ?q = "[''n'' \<mapsto> '' 150'']"
  let ?p = "(text_param ''n'')\<lparr>p_ty := ''int'', p_min := Some (f64_of_int 1), p_max := Some (f64_of_int 200)\<rparr>"
  have "map_sum id b_canon (resolve sample_ext int_spec (\<lambda>_. None) ?q) = Inr ''n=150''" by code_simp
  then obtain b where b: "resolve sample_ext int_spec (\<lambda>_. None) ?q = Inr b" by (auto simp: map_sum_Inr)
  have "\<exists>n. parse_i64 (trim '' 150'') = Some n \<and> - (2 ^ 63) \<le> n \<and> n < 2 ^ 63 \<and> in_bounds ?p (f64_of_int n) \<and>
      b_value_map b (p_name ?p) = Some (VInt n)"
    by (rule int_parameter_exact [OF b])
      (simp_all add: int_spec_def text_param_def is_enum_def raw_value_def)
  moreover have "parse_i64 (trim '' 150'') = Some 150" by code_simp
  ultimately show ?thesis using b by (auto simp: text_param_def)
qed

definition param_accepts :: "externals \<Rightarrow> str_map \<Rightarrow> str_map \<Rightarrow> param_spec \<Rightarrow> bool" where
  "param_accepts x path query p =
     (case raw_value x path query p of
        None \<Rightarrow> \<not> effectively_required p
      | Some r \<Rightarrow>
          if is_enum p then apply_transform r (p_transform p) \<in> fst ` set (p_select p)
          else (case coerce x p r of Inl e \<Rightarrow> False | Inr v \<Rightarrow> True))"

lemma range_check_status: "range_check x p v raw = Inl e \<Longrightarrow> status_of e = 422"
  by (auto simp: range_check_def Let_def split: if_splits)

lemma coerce_status: "coerce x p raw = Inl e \<Longrightarrow> status_of e = 400 \<or> status_of e = 422"
  by (auto simp: coerce_def Let_def bind_res_Inl range_check_status split: if_splits option.splits)

lemma resolve_param_outcome:
  "case resolve_param x path query p st of
     Inr st' \<Rightarrow> param_accepts x path query p
   | Inl e \<Rightarrow> \<not> param_accepts x path query p \<and> (status_of e = 400 \<or> status_of e = 422)"
  by (auto simp: resolve_param_def param_accepts_def Let_def dest: coerce_status split: option.split sum.split)

lemma resolve_params_outcome:
  "case resolve_params x path query ps st of
     Inr st' \<Rightarrow> list_all (param_accepts x path query) ps
   | Inl e \<Rightarrow> \<not> list_all (param_accepts x path query) ps \<and> (status_of e = 400 \<or> status_of e = 422)"
proof (induction ps arbitrary: st)
  case (Cons p ps)
  show ?case
  proof (cases "resolve_param x path query p st")
    case (Inl e)
    with resolve_param_outcome [of x path query p st] show ?thesis by (simp add: bind_res_case)
  next
    case (Inr st1)
    with resolve_param_outcome [of x path query p st] Cons [of st1] show ?thesis
      by (auto simp: bind_res_case split: sum.splits)
  qed
qed simp


end
