(* ===== verification/Read_Cache.thy ===== *)
theory Read_Cache
  imports Read_Bind
begin

text \<open>
  The response cache of the read layer (\<open>read/cache.rs\<close>): keys with a
  per-endpoint generation, the two tiers with their lookup order and fill,
  invalidation by generation bump, the cross-replica message and the second
  tier's value format.

  The in-process cache, Redis and the digest are code of other crates: they
  are the fields of \<open>stores\<close>.  A store may forget an entry at any time
  (eviction, expiry, a failed call) but never answers with something that was
  not put there; this is \<open>honest_stores\<close>.  Durations are nanoseconds.
\<close>

record cached_body =
  cb_bytes :: string
  cb_etag :: string
  cb_ttl :: int

record cache_key =
  k_endpoint :: string
  k_gen :: int
  k_canon :: string

record ('c, 'r) stores =
  sha256_hex :: "string \<Rightarrow> string"
  l1_get :: "'c \<Rightarrow> cache_key \<Rightarrow> cached_body option"
  l1_put :: "'c \<Rightarrow> cache_key \<Rightarrow> cached_body \<Rightarrow> 'c"
  redis_get :: "'r \<Rightarrow> string \<Rightarrow> string option"
  redis_set_ex :: "'r \<Rightarrow> string \<Rightarrow> string \<Rightarrow> int \<Rightarrow> 'r"

record 'c cache_manager =
  cm_l1 :: 'c
  cm_redis :: bool
  cm_reverse :: "string \<Rightarrow> string list option"
  cm_generations :: "string \<Rightarrow> int option"

subsection \<open>Keys and bodies\<close>

definition redis_key :: "('c, 'r) stores \<Rightarrow> cache_key \<Rightarrow> string" where
  "redis_key s k = ''rc:v1:'' @ k_endpoint k @ '':'' @ show_int (k_gen k) @ '':'' @ sha256_hex s (k_canon k)"

definition cached_body_new :: "('c, 'r) stores \<Rightarrow> string \<Rightarrow> int \<Rightarrow> cached_body" where
  "cached_body_new s bytes ttl =
     \<lparr>cb_bytes = bytes, cb_etag = [CHR 0x22] @ sha256_hex s bytes @ [CHR 0x22], cb_ttl = ttl\<rparr>"

definition encode_l2 :: "cached_body \<Rightarrow> string" where
  "encode_l2 b = cb_etag b @ [CHR 0x0A] @ cb_bytes b"

definition decode_l2 :: "string \<Rightarrow> int \<Rightarrow> cached_body option" where
  "decode_l2 raw ttl =
     (case split_once (CHR 0x0A) raw of
        None \<Rightarrow> None
      | Some (etag, bytes) \<Rightarrow> Some \<lparr>cb_bytes = bytes, cb_etag = utf8_lossy etag, cb_ttl = ttl\<rparr>)"

subsection \<open>The manager\<close>

definition new_manager :: "'c \<Rightarrow> bool \<Rightarrow> (string \<Rightarrow> string list option) \<Rightarrow> 'c cache_manager" where
  "new_manager l1 redis rv = \<lparr>cm_l1 = l1, cm_redis = redis, cm_reverse = rv, cm_generations = (\<lambda>_. None)\<rparr>"

definition generation :: "'c cache_manager \<Rightarrow> string \<Rightarrow> int" where
  "generation cm i = (case cm_generations cm i of Some g \<Rightarrow> g | None \<Rightarrow> 0)"

definition l2_lookup :: "('c, 'r) stores \<Rightarrow> 'c cache_manager \<Rightarrow> 'r \<Rightarrow> cache_key \<Rightarrow> int \<Rightarrow> bool \<Rightarrow> cached_body option" where
  "l2_lookup s cm r key ttl use_l2 =
     (if use_l2 \<and> cm_redis cm then
        (case redis_get s r (redis_key s key) of Some raw \<Rightarrow> decode_l2 raw ttl | None \<Rightarrow> None)
      else None)"

definition l2_store :: "('c, 'r) stores \<Rightarrow> 'c cache_manager \<Rightarrow> 'r \<Rightarrow> cache_key \<Rightarrow> cached_body \<Rightarrow> bool \<Rightarrow> 'r" where
  "l2_store s cm r key body use_l2 =
     (if use_l2 \<and> cm_redis cm
      then redis_set_ex s r (redis_key s key) (encode_l2 body) (max (cb_ttl body div 1000000000) 1)
      else r)"

definition l1_store :: "('c, 'r) stores \<Rightarrow> cache_key \<Rightarrow> cached_body \<Rightarrow> 'c cache_manager \<Rightarrow> 'c cache_manager" where
  "l1_store s key body cm = cm\<lparr>cm_l1 := l1_put s (cm_l1 cm) key body\<rparr>"

definition get_or_compute ::
  "('c, 'r) stores \<Rightarrow> 'c cache_manager \<Rightarrow> 'r \<Rightarrow> cache_key \<Rightarrow> int \<Rightarrow> bool \<Rightarrow> string api_result \<Rightarrow>
     ('c cache_manager \<times> 'r) \<times> cached_body api_result" where
  "get_or_compute s cm r key ttl use_l2 compute =
     (case l1_get s (cm_l1 cm) key of
        Some body \<Rightarrow> ((cm, r), Inr body)
      | None \<Rightarrow>
          (case l2_lookup s cm r key ttl use_l2 of
             Some body \<Rightarrow> ((l1_store s key body cm, r), Inr body)
           | None \<Rightarrow>
               (case compute of
                  Inl e \<Rightarrow> ((cm, r), Inl (clone_lite e))
                | Inr bytes \<Rightarrow>
                    (let body = cached_body_new s bytes ttl
                     in ((l1_store s key body cm, l2_store s cm r key body use_l2), Inr body)))))"

definition bump :: "string \<Rightarrow> 'c cache_manager \<Rightarrow> 'c cache_manager" where
  "bump i cm = cm\<lparr>cm_generations := (cm_generations cm)(i := Some ((generation cm i + 1) mod 2 ^ 64))\<rparr>"

definition invalidate_table_local :: "string \<Rightarrow> string \<Rightarrow> 'c cache_manager \<Rightarrow> 'c cache_manager \<times> string list" where
  "invalidate_table_local sch tab cm =
     (case cm_reverse cm (sch @ ''.'' @ tab) of
        None \<Rightarrow> (cm, [])
      | Some ids \<Rightarrow> (fold bump ids cm, ids))"

definition invalidate_table :: "string \<Rightarrow> string \<Rightarrow> 'c cache_manager \<Rightarrow> 'c cache_manager \<times> string option" where
  \<comment> \<open>the manager and the message published on the invalidation channel\<close>
  "invalidate_table sch tab cm =
     (case invalidate_table_local sch tab cm of
        (cm', affected) \<Rightarrow>
          (cm', if affected = [] then None else if cm_redis cm' then Some (sch @ ''.'' @ tab) else None))"

definition on_message :: "string \<Rightarrow> 'c cache_manager \<Rightarrow> 'c cache_manager" where
  \<comment> \<open>one message of the invalidation listener\<close>
  "on_message p cm =
     (case split_once (CHR ''.'') p of
        Some (sch, tab) \<Rightarrow> fst (invalidate_table_local sch tab cm)
      | None \<Rightarrow> cm)"

section \<open>The interleaving of readers and writers\<close>

text \<open>
  A world has the answer the database would now give for every endpoint and
  canonical parameter text, the cache, the tables that were written but not yet
  invalidated, and the requests between their generation read and their store.
  Requests are never removed: a step may be repeated, so the runs include every
  interleaving of any number of requests.
\<close>

datatype flight = Asked cache_key | Ready cache_key cached_body bool

record ('c, 'r) world =
  w_answer :: "string \<Rightarrow> string \<Rightarrow> string"
  w_cm :: "'c cache_manager"
  w_redis :: 'r
  w_dirty :: "string set"
  w_flight :: "flight set"

definition reads_table :: "'c cache_manager \<Rightarrow> string \<Rightarrow> string \<Rightarrow> bool" where
  "reads_table cm i t \<longleftrightarrow> i \<in> set (readers (cm_reverse cm) t)"

definition current_key :: "('c, 'r) world \<Rightarrow> string \<Rightarrow> string \<Rightarrow> cache_key" where
  "current_key w i c = \<lparr>k_endpoint = i, k_gen = generation (w_cm w) i, k_canon = c\<rparr>"

inductive cache_step :: "('c, 'r) stores \<Rightarrow> ('c, 'r) world \<Rightarrow> ('c, 'r) world \<Rightarrow> bool" for s where
  commit:
    "(\<And>i c. \<not> reads_table (w_cm w) i t \<Longrightarrow> answer i c = w_answer w i c) \<Longrightarrow>
     cache_step s w (w\<lparr>w_answer := answer, w_dirty := insert t (w_dirty w)\<rparr>)"
| invalidate:
    "cache_step s w (w\<lparr>w_cm := fst (invalidate_table sch tab (w_cm w)),
                       w_dirty := w_dirty w - {sch @ ''.'' @ tab}\<rparr>)"
| message:
    "cache_step s w (w\<lparr>w_cm := on_message p (w_cm w)\<rparr>)"
| ask:
    "cache_step s w (w\<lparr>w_flight := insert (Asked (current_key w i c)) (w_flight w)\<rparr>)"
| promote:
    "Asked k \<in> w_flight w \<Longrightarrow> l2_lookup s (w_cm w) (w_redis w) k ttl True = Some body \<Longrightarrow>
     cache_step s w (w\<lparr>w_flight := insert (Ready k body False) (w_flight w)\<rparr>)"
| compute:
    "Asked k \<in> w_flight w \<Longrightarrow>
     cache_step s w
       (w\<lparr>w_flight :=
          insert (Ready k (cached_body_new s (w_answer w (k_endpoint k) (k_canon k)) ttl) True) (w_flight w)\<rparr>)"
| store:
    "Ready k body computed \<in> w_flight w \<Longrightarrow>
     cache_step s w
       (w\<lparr>w_cm := l1_store s k body (w_cm w), w_redis := l2_store s (w_cm w) (w_redis w) k body computed\<rparr>)"
| forget:
    "(\<And>k b. l1_get s l1 k = Some b \<Longrightarrow> l1_get s (cm_l1 (w_cm w)) k = Some b) \<Longrightarrow>
     (\<And>k v. redis_get s r k = Some v \<Longrightarrow> redis_get s (w_redis w) k = Some v) \<Longrightarrow>
     cache_step s w (w\<lparr>w_cm := (w_cm w)\<lparr>cm_l1 := l1\<rparr>, w_redis := r\<rparr>)"

inductive cache_run :: "('c, 'r) stores \<Rightarrow> ('c, 'r) world \<Rightarrow> nat \<Rightarrow> ('c, 'r) world \<Rightarrow> bool" for s w0 where
  start: "cache_run s w0 0 w0"
| more: "cache_run s w0 n w \<Longrightarrow> cache_step s w w' \<Longrightarrow> cache_run s w0 (Suc n) w'"

definition honest_stores :: "('c, 'r) stores \<Rightarrow> bool" where
  "honest_stores s \<longleftrightarrow>
     (\<forall>c k b k' b'. l1_get s (l1_put s c k b) k' = Some b' \<longrightarrow> k' = k \<and> b' = b \<or> l1_get s c k' = Some b') \<and>
     (\<forall>r k v n k' v'. redis_get s (redis_set_ex s r k v n) k' = Some v' \<longrightarrow> k' = k \<and> v' = v \<or> redis_get s r k' = Some v')"

definition ideal_digest :: "('c, 'r) stores \<Rightarrow> bool" where
  \<comment> \<open>the digest is printed in hexadecimal and does not collide\<close>
  "ideal_digest s \<longleftrightarrow>
     inj (sha256_hex s) \<and> (\<forall>t. list_all is_ascii_alphanumeric (sha256_hex s t))"

definition fresh_world :: "('c, 'r) stores \<Rightarrow> 'c \<Rightarrow> bool \<Rightarrow> endpoint_spec list \<Rightarrow> 'r \<Rightarrow>
    (string \<Rightarrow> string \<Rightarrow> string) \<Rightarrow> ('c, 'r) world" where
  "fresh_world s l1 redis specs r answer =
     \<lparr>w_answer = answer, w_cm = new_manager l1 redis (build_reverse specs), w_redis = r, w_dirty = {}, w_flight = {}\<rparr>"

section \<open>Keys, bodies and generations\<close>

lemma alphanumeric_code: "is_ascii_alphanumeric c \<Longrightarrow> code c < 128 \<and> c \<noteq> CHR '':'' \<and> c \<noteq> CHR 0x0A \<and> c \<noteq> CHR 0x22"
  by (auto simp: is_ascii_alphanumeric_def is_ascii_alphabetic_def is_ascii_upper_def is_ascii_lower_def
      is_ascii_digit_def code_def)

lemma last_sep_inject:
  assumes "a @ c # x = b @ c # y" "c \<notin> set x" "c \<notin> set y"
  shows "a = b \<and> x = y"
proof -
  have t: "takeWhile (\<lambda>d. d \<noteq> c) (rev (a @ c # x)) = rev x" if "c \<notin> set x" for a x
    using that by (auto simp: takeWhile_tail)
  have "rev x = rev y" using t [OF assms(2), of a] t [OF assms(3), of b] assms(1) by metis
  with assms(1) show ?thesis by simp
qed

lemma digest_clean:
  assumes "ideal_digest s"
  shows "CHR '':'' \<notin> set (sha256_hex s t)" "CHR 0x0A \<notin> set (sha256_hex s t)" "ascii_text (sha256_hex s t)"
  using assms alphanumeric_code unfolding ideal_digest_def ascii_text_def list_all_iff by fastforce+

lemma show_int_no_colon: "CHR '':'' \<notin> set (show_int i)"
proof -
  have "\<not> is_ascii_digit (CHR '':'')" by (simp add: is_ascii_digit_def code_def)
  then have "CHR '':'' \<notin> set (show_nat n)" for n using show_nat_digits [of n] by (auto simp: list_all_iff)
  then show ?thesis by (simp add: show_int_def)
qed

lemma redis_key_inject:
  assumes "ideal_digest s" "redis_key s k = redis_key s k'"
  shows "k = k'"
proof -
  have eq: "(k_endpoint k @ '':'' @ show_int (k_gen k)) @ CHR '':'' # sha256_hex s (k_canon k) =
      (k_endpoint k' @ '':'' @ show_int (k_gen k')) @ CHR '':'' # sha256_hex s (k_canon k')"
    using assms(2) by (simp add: redis_key_def)
  from last_sep_inject [OF eq digest_clean(1) [OF assms(1)] digest_clean(1) [OF assms(1)]]
  have "k_endpoint k @ CHR '':'' # show_int (k_gen k) = k_endpoint k' @ CHR '':'' # show_int (k_gen k')"
    and c: "sha256_hex s (k_canon k) = sha256_hex s (k_canon k')" by simp_all
  from last_sep_inject [OF this(1) show_int_no_colon show_int_no_colon]
  have "k_endpoint k = k_endpoint k'" "k_gen k = k_gen k'" by simp_all
  moreover have "k_canon k = k_canon k'" using c assms(1) by (simp add: ideal_digest_def inj_eq)
  ultimately show ?thesis by simp
qed

lemma decode_encode_bytes:
  "CHR 0x0A \<notin> set (cb_etag b) \<Longrightarrow>
     decode_l2 (encode_l2 b) ttl = Some \<lparr>cb_bytes = cb_bytes b, cb_etag = utf8_lossy (cb_etag b), cb_ttl = ttl\<rparr>"
  by (simp add: decode_l2_def encode_l2_def)

lemma etag_clean: "ideal_digest s \<Longrightarrow> CHR 0x0A \<notin> set (cb_etag (cached_body_new s bytes ttl))"
  by (simp add: cached_body_new_def digest_clean)

lemma etag_ascii: "ideal_digest s \<Longrightarrow> ascii_text (cb_etag (cached_body_new s bytes ttl))"
  using digest_clean(3) [of s bytes] by (simp add: cached_body_new_def ascii_text_def code_def)

lemma bump_simps [simp]:
  "cm_l1 (bump i cm) = cm_l1 cm" "cm_redis (bump i cm) = cm_redis cm" "cm_reverse (bump i cm) = cm_reverse cm"
  "generation (bump i cm) j = (if i = j then (generation cm j + 1) mod 2 ^ 64 else generation cm j)"
  by (auto simp: bump_def generation_def)

lemma fold_bump [simp]:
  "cm_l1 (fold bump ids cm) = cm_l1 cm" "cm_redis (fold bump ids cm) = cm_redis cm"
  "cm_reverse (fold bump ids cm) = cm_reverse cm"
  by (induction ids arbitrary: cm) auto

lemma generation_fold_bump:
  "distinct ids \<Longrightarrow>
     generation (fold bump ids cm) j = (if j \<in> set ids then (generation cm j + 1) mod 2 ^ 64 else generation cm j)"
  by (induction ids arbitrary: cm) auto

lemma invalidate_local_simps [simp]:
  "cm_l1 (fst (invalidate_table_local sch tab cm)) = cm_l1 cm"
  "cm_redis (fst (invalidate_table_local sch tab cm)) = cm_redis cm"
  "cm_reverse (fst (invalidate_table_local sch tab cm)) = cm_reverse cm"
  by (simp_all add: invalidate_table_local_def split: option.split)

lemma fst_invalidate_table [simp]: "fst (invalidate_table sch tab cm) = fst (invalidate_table_local sch tab cm)"
  by (simp add: invalidate_table_def split: prod.split)

lemma generation_invalidate:
  assumes "distinct (readers (cm_reverse cm) (sch @ ''.'' @ tab))"
  shows "generation (fst (invalidate_table_local sch tab cm)) i =
     (if reads_table cm i (sch @ ''.'' @ tab) then (generation cm i + 1) mod 2 ^ 64 else generation cm i)"
  using assms
  by (auto simp: invalidate_table_local_def reads_table_def readers_def generation_fold_bump split: option.splits)

lemma distinct_readers_index: "distinct (readers idx u) \<Longrightarrow> distinct (readers (index_table j t idx) u)"
  by (auto simp: index_table_def readers_def split: option.splits)

lemma distinct_readers_fold:
  "distinct (readers idx u) \<Longrightarrow> distinct (readers (fold (\<lambda>t rv. index_table j t rv) ts idx) u)"
  by (induction ts arbitrary: idx) (auto simp: distinct_readers_index)

lemma distinct_build_reverse: "distinct (readers (build_reverse specs) u)"
proof -
  have "distinct (readers idx u) \<Longrightarrow>
      distinct (readers (fold (\<lambda>ep idx. fold (\<lambda>t rv. index_table (e_id ep) t rv) (e_tables ep) idx) specs idx) u)" for idx
    by (induction specs arbitrary: idx) (auto simp: distinct_readers_fold)
  from this [of "\<lambda>_. None"] show ?thesis by (simp add: build_reverse_def readers_def)
qed

section \<open>The freshness invariant\<close>

definition held :: "('c, 'r) stores \<Rightarrow> ('c, 'r) world \<Rightarrow> cache_key \<Rightarrow> cached_body \<Rightarrow> bool" where
  \<comment> \<open>a body some tier or some request has under a key\<close>
  "held s w k b \<longleftrightarrow>
     l1_get s (cm_l1 (w_cm w)) k = Some b \<or> (\<exists>ttl. l2_lookup s (w_cm w) (w_redis w) k ttl True = Some b) \<or>
     (\<exists>c. Ready k b c \<in> w_flight w)"

definition clean :: "('c, 'r) world \<Rightarrow> string \<Rightarrow> bool" where
  "clean w i \<longleftrightarrow> (\<forall>t\<in>w_dirty w. \<not> reads_table (w_cm w) i t)"

abbreviation gen_of :: "('c, 'r) world \<Rightarrow> string \<Rightarrow> int" where
  "gen_of w i \<equiv> generation (w_cm w) i"

definition cache_inv :: "('c, 'r) stores \<Rightarrow> nat \<Rightarrow> ('c, 'r) world \<Rightarrow> bool" where
  "cache_inv s n w \<longleftrightarrow>
     (\<forall>t. distinct (readers (cm_reverse (w_cm w)) t)) \<and>
     (\<forall>i. 0 \<le> gen_of w i \<and> gen_of w i \<le> int n) \<and>
     (\<forall>k. Asked k \<in> w_flight w \<longrightarrow> k_gen k \<le> gen_of w (k_endpoint k)) \<and>
     (\<forall>k b. held s w k b \<longrightarrow> k_gen k \<le> gen_of w (k_endpoint k)) \<and>
     (\<forall>k b. held s w k b \<longrightarrow> k_gen k = gen_of w (k_endpoint k) \<longrightarrow> clean w (k_endpoint k) \<longrightarrow>
        cb_bytes b = w_answer w (k_endpoint k) (k_canon k)) \<and>
     (\<forall>k b. Ready k b True \<in> w_flight w \<longrightarrow> CHR 0x0A \<notin> set (cb_etag b))"

lemma cache_inv_mono:
  assumes inv: "cache_inv s n w"
    and rev: "cm_reverse (w_cm w') = cm_reverse (w_cm w)"
    and gens: "\<And>i. gen_of w' i = gen_of w i \<or> gen_of w' i = gen_of w i + 1"
    and fl: "w_flight w' = w_flight w"
    and held: "\<And>k b. held s w' k b \<Longrightarrow> \<exists>b'. held s w k b' \<and> cb_bytes b' = cb_bytes b"
    and kept: "\<And>i c. gen_of w' i = gen_of w i \<Longrightarrow> clean w' i \<Longrightarrow> clean w i \<and> w_answer w' i c = w_answer w i c"
  shows "cache_inv s (Suc n) w'"
proof -
  have le: "gen_of w i \<le> gen_of w' i" for i using gens [of i] by auto
  have eq: "gen_of w' i = gen_of w i" if "g \<le> gen_of w i" "g = gen_of w' i" for g i using le [of i] that by auto
  have up: "0 \<le> gen_of w' i \<and> gen_of w' i \<le> int (Suc n)" for i
    using inv gens [of i] by (auto simp: cache_inv_def dest!: spec [of _ i])
  have key: "k_gen k \<le> gen_of w' (k_endpoint k)" if "held s w k b \<or> Asked k \<in> w_flight w" for k b
    using that inv le [of "k_endpoint k"] unfolding cache_inv_def by (meson order_trans)
  have ans: "cb_bytes b = w_answer w' (k_endpoint k) (k_canon k)"
    if "held s w k b" "k_gen k = gen_of w' (k_endpoint k)" "clean w' (k_endpoint k)" for k b
  proof -
    have "k_gen k \<le> gen_of w (k_endpoint k)" using that inv unfolding cache_inv_def by blast
    with that(2) eq have g: "gen_of w' (k_endpoint k) = gen_of w (k_endpoint k)" by metis
    with kept [OF g that(3)] that inv show ?thesis unfolding cache_inv_def by metis
  qed
  have key': "k_gen k \<le> gen_of w' (k_endpoint k)" if "held s w' k b" for k b using that key held by blast
  have ans': "cb_bytes b = w_answer w' (k_endpoint k) (k_canon k)"
    if "held s w' k b" "k_gen k = gen_of w' (k_endpoint k)" "clean w' (k_endpoint k)" for k b
    using held [OF that(1)] ans that(2,3) by metis
  show ?thesis
    unfolding cache_inv_def fl rev
    using inv up key key' ans' by (auto simp: cache_inv_def)
qed

lemma held_commit: "held s (w\<lparr>w_answer := a, w_dirty := d\<rparr>) k b \<longleftrightarrow> held s w k b"
  by (simp add: held_def)

lemma inv_commit:
  assumes "cache_inv s n w" "\<And>i c. \<not> reads_table (w_cm w) i t \<Longrightarrow> answer i c = w_answer w i c"
  shows "cache_inv s (Suc n) (w\<lparr>w_answer := answer, w_dirty := insert t (w_dirty w)\<rparr>)"
  using assms by (intro cache_inv_mono [OF assms(1)]) (auto simp: held_commit clean_def)

lemma held_bumped:
  assumes "cm_l1 cm = cm_l1 (w_cm w)" "cm_redis cm = cm_redis (w_cm w)"
  shows "held s (w\<lparr>w_cm := cm, w_dirty := d\<rparr>) k b \<longleftrightarrow> held s w k b"
  using assms by (simp add: held_def l2_lookup_def)

lemma inv_bumped:
  assumes "cache_inv s n w" "int n < 2 ^ 64 - 1" "d = w_dirty w \<or> d = w_dirty w - {sch @ ''.'' @ tab}"
  shows "cache_inv s (Suc n) (w\<lparr>w_cm := fst (invalidate_table_local sch tab (w_cm w)), w_dirty := d\<rparr>)"
proof -
  let ?t = "sch @ ''.'' @ tab" and ?cm = "fst (invalidate_table_local sch tab (w_cm w))"
  have g: "generation ?cm i = (if reads_table (w_cm w) i ?t then gen_of w i + 1 else gen_of w i)" for i
  proof -
    have "0 \<le> gen_of w i" "gen_of w i < 2 ^ 64 - 1" "distinct (readers (cm_reverse (w_cm w)) ?t)"
      using assms(1,2) unfolding cache_inv_def by (auto dest!: spec [of _ i])
    then show ?thesis by (simp add: generation_invalidate)
  qed
  show ?thesis
    using assms(3) by (intro cache_inv_mono [OF assms(1)]) (auto simp: held_bumped g clean_def reads_table_def split: if_splits)
qed

lemma inv_forget:
  assumes "cache_inv s n w"
    and "\<And>k b. l1_get s l1 k = Some b \<Longrightarrow> l1_get s (cm_l1 (w_cm w)) k = Some b"
    and "\<And>k v. redis_get s r k = Some v \<Longrightarrow> redis_get s (w_redis w) k = Some v"
  shows "cache_inv s (Suc n) (w\<lparr>w_cm := (w_cm w)\<lparr>cm_l1 := l1\<rparr>, w_redis := r\<rparr>)"
proof -
  have "held s w k b" if "held s (w\<lparr>w_cm := (w_cm w)\<lparr>cm_l1 := l1\<rparr>, w_redis := r\<rparr>) k b" for k b
    using that assms(2,3) by (fastforce simp: held_def l2_lookup_def split: if_splits option.splits)
  then show ?thesis
    by (intro cache_inv_mono [OF assms(1)]) (auto simp: generation_def clean_def reads_table_def)
qed

lemma cache_inv_flight:
  assumes inv: "cache_inv s n w"
    and asked: "\<And>k. f = Asked k \<Longrightarrow> k_gen k \<le> gen_of w (k_endpoint k)"
    and ready: "\<And>k b c. f = Ready k b c \<Longrightarrow>
      k_gen k \<le> gen_of w (k_endpoint k) \<and>
      (k_gen k = gen_of w (k_endpoint k) \<longrightarrow> clean w (k_endpoint k) \<longrightarrow> cb_bytes b = w_answer w (k_endpoint k) (k_canon k)) \<and>
      (c \<longrightarrow> CHR 0x0A \<notin> set (cb_etag b))"
  shows "cache_inv s (Suc n) (w\<lparr>w_flight := insert f (w_flight w)\<rparr>)"
proof -
  have h: "held s (w\<lparr>w_flight := insert f (w_flight w)\<rparr>) k b \<longleftrightarrow> held s w k b \<or> (\<exists>c. f = Ready k b c)" for k b
    by (auto simp: held_def)
  have c: "clean (w\<lparr>w_flight := insert f (w_flight w)\<rparr>) i \<longleftrightarrow> clean w i" for i by (simp add: clean_def)
  let ?w = "w\<lparr>w_flight := insert f (w_flight w)\<rparr>"
  have g: "gen_of ?w i = gen_of w i" "w_answer ?w = w_answer w" for i by simp_all
  have up: "0 \<le> gen_of w i \<and> gen_of w i \<le> int (Suc n)" for i
    using inv by (auto simp: cache_inv_def dest!: spec [of _ i])
  have a: "k_gen k \<le> gen_of w (k_endpoint k)" if "Asked k \<in> insert f (w_flight w)" for k
    using that asked inv unfolding cache_inv_def by blast
  have l: "k_gen k \<le> gen_of w (k_endpoint k)" if "held s w k b \<or> (\<exists>c. f = Ready k b c)" for k b
    using that ready inv unfolding cache_inv_def by blast
  have b: "cb_bytes b = w_answer w (k_endpoint k) (k_canon k)"
    if "held s w k b \<or> (\<exists>c. f = Ready k b c)" "k_gen k = gen_of w (k_endpoint k)" "clean w (k_endpoint k)" for k b
    using that ready inv unfolding cache_inv_def by blast
  have e: "CHR 0x0A \<notin> set (cb_etag b)" if "Ready k b True \<in> insert f (w_flight w)" for k b
    using that ready inv unfolding cache_inv_def by blast
  show ?thesis
    unfolding cache_inv_def h c g using inv up a l b e by (simp add: cache_inv_def)
qed

lemma held_promoted:
  "l2_lookup s (w_cm w) (w_redis w) k ttl True = Some body \<Longrightarrow> held s w k body"
  by (auto simp: held_def)

lemma honest_l1:
  "honest_stores s \<Longrightarrow> l1_get s (l1_put s c k b) k' = Some b' \<Longrightarrow> k' = k \<and> b' = b \<or> l1_get s c k' = Some b'"
  unfolding honest_stores_def by blast

lemma honest_redis:
  "honest_stores s \<Longrightarrow> redis_get s (redis_set_ex s r k v n) k' = Some v' \<Longrightarrow>
     k' = k \<and> v' = v \<or> redis_get s r k' = Some v'"
  unfolding honest_stores_def by blast

lemma held_stored:
  assumes "honest_stores s" "ideal_digest s" "Ready k body c \<in> w_flight w" "c \<longrightarrow> CHR 0x0A \<notin> set (cb_etag body)"
    and h: "held s (w\<lparr>w_cm := l1_store s k body (w_cm w), w_redis := l2_store s (w_cm w) (w_redis w) k body c\<rparr>) k' b"
  shows "\<exists>b'. held s w k' b' \<and> cb_bytes b' = cb_bytes b"
proof -
  have body: "held s w k body" using assms(3) by (auto simp: held_def)
  have l1: "k' = k \<and> b = body \<or> held s w k' b" if "l1_get s (l1_put s (cm_l1 (w_cm w)) k body) k' = Some b"
    using honest_l1 [OF assms(1) that] by (auto simp: held_def)
  have l2: "k' = k \<and> cb_bytes b = cb_bytes body \<or> held s w k' b"
    if "l2_lookup s (w_cm w) (l2_store s (w_cm w) (w_redis w) k body c) k' ttl True = Some b" for ttl
  proof (cases "c \<and> cm_redis (w_cm w)")
    case False
    with that show ?thesis by (auto simp: l2_store_def held_def)
  next
    case True
    with that obtain raw where raw: "decode_l2 raw ttl = Some b"
      "redis_get s (redis_set_ex s (w_redis w) (redis_key s k) (encode_l2 body) (max (cb_ttl body div 1000000000) 1))
         (redis_key s k') = Some raw"
      by (auto simp: l2_lookup_def l2_store_def split: option.splits)
    have "redis_key s k' = redis_key s k \<and> raw = encode_l2 body \<or>
        redis_get s (w_redis w) (redis_key s k') = Some raw" by (rule honest_redis [OF assms(1) raw(2)])
    then show ?thesis
    proof
      assume "redis_key s k' = redis_key s k \<and> raw = encode_l2 body"
      with raw(1) True assms(2,4) show ?thesis
        by (auto simp: decode_encode_bytes dest: redis_key_inject)
    next
      assume "redis_get s (w_redis w) (redis_key s k') = Some raw"
      with raw(1) True show ?thesis by (auto simp: held_def l2_lookup_def split: option.split)
    qed
  qed
  from h have "k' = k \<and> cb_bytes b = cb_bytes body \<or> held s w k' b"
  proof -
    from h consider "l1_get s (l1_put s (cm_l1 (w_cm w)) k body) k' = Some b"
      | ttl where "l2_lookup s (w_cm w) (l2_store s (w_cm w) (w_redis w) k body c) k' ttl True = Some b"
      | c where "Ready k' b c \<in> w_flight w"
      by (auto simp: held_def l1_store_def l2_lookup_def)
    then show ?thesis using l1 l2 by cases (auto simp: held_def)
  qed
  with body show ?thesis by auto
qed

lemma inv_store:
  assumes "cache_inv s n w" "honest_stores s" "ideal_digest s" "Ready k body c \<in> w_flight w"
  shows "cache_inv s (Suc n)
    (w\<lparr>w_cm := l1_store s k body (w_cm w), w_redis := l2_store s (w_cm w) (w_redis w) k body c\<rparr>)"
proof -
  have "c \<longrightarrow> CHR 0x0A \<notin> set (cb_etag body)" using assms(1,4) by (cases c) (auto simp: cache_inv_def)
  from held_stored [OF assms(2-4) this] show ?thesis
    by (intro cache_inv_mono [OF assms(1)]) (auto simp: l1_store_def generation_def clean_def reads_table_def)
qed

lemma inv_step:
  assumes "cache_step s w w'" "cache_inv s n w" "honest_stores s" "ideal_digest s" "int n < 2 ^ 64 - 1"
  shows "cache_inv s (Suc n) w'"
  using assms(1)
proof cases
  case (commit t answer)
  then show ?thesis using inv_commit [OF assms(2)] by blast
next
  case (invalidate sch tab)
  then show ?thesis using inv_bumped [OF assms(2,5), of "w_dirty w - {sch @ ''.'' @ tab}" sch tab] by simp
next
  case (message p)
  have id: "cache_inv s (Suc n) w"
    by (rule cache_inv_mono [OF assms(2)]) auto
  show ?thesis
    using message id inv_bumped [OF assms(2,5), of "w_dirty w"]
    by (auto simp: on_message_def split: option.split)
next
  case (ask i c)
  then show ?thesis by (auto simp: current_key_def intro: cache_inv_flight [OF assms(2)])
next
  case (promote k ttl body)
  then show ?thesis
    using assms(2) held_promoted [OF promote(3)] unfolding promote(1)
    by (intro cache_inv_flight [OF assms(2)]) (auto simp: cache_inv_def)
next
  case (compute k ttl)
  then show ?thesis
    using assms(2) etag_clean [OF assms(4)] unfolding compute(1)
    by (intro cache_inv_flight [OF assms(2)]) (auto simp: cache_inv_def cached_body_new_def)
next
  case (store k body computed)
  then show ?thesis using inv_store [OF assms(2-4)] by blast
next
  case (forget l1 r)
  then show ?thesis using inv_forget [OF assms(2)] by blast
qed

lemma inv_run:
  assumes "cache_run s (fresh_world s l1 redis specs r answer) n w" "honest_stores s" "ideal_digest s"
    and "\<And>k. l1_get s l1 k = None" "\<And>k. redis_get s r k = None" "int n < 2 ^ 64"
  shows "cache_inv s n w"
  using assms(1,6)
proof (induction rule: cache_run.induct)
  case start
  then show ?case
    using assms(4,5)
    by (auto simp: cache_inv_def fresh_world_def new_manager_def generation_def held_def l2_lookup_def
        distinct_build_reverse split: if_splits)
next
  case (more n w w')
  then show ?case using inv_step [OF more(2) _ assms(2,3)] by simp
qed

text \<open>C8: The cache never serves a stale body.  In every interleaving of readers, committed writes,
  invalidations, cross-replica messages, evictions and expiries of one process, a read of an
  endpoint none of whose tables has a write that is still to be invalidated returns the
  bytes the database would give now, whichever tier answers.\<close>

theorem cache_serves_fresh:
  assumes "cache_run s (fresh_world s l1 redis specs r answer) n w"
    and "honest_stores s" and "ideal_digest s"
    and "\<And>k. l1_get s l1 k = None" and "\<And>k. redis_get s r k = None" and "int n < 2 ^ 64"
    and "clean w i"
  shows "\<exists>body. snd (get_or_compute s (w_cm w) (w_redis w) (current_key w i c) ttl use_l2 (Inr (w_answer w i c))) =
           Inr body \<and> cb_bytes body = w_answer w i c"
proof -
  have inv: "cache_inv s n w" by (rule inv_run [OF assms(1-6)])
  have h: "cb_bytes b = w_answer w i c" if "held s w (current_key w i c) b" for b
    using inv that assms(7) unfolding cache_inv_def by (fastforce simp: current_key_def)
  have l1: "cb_bytes b = w_answer w i c" if "l1_get s (cm_l1 (w_cm w)) (current_key w i c) = Some b" for b
    using that by (intro h) (simp add: held_def)
  have l2: "cb_bytes b = w_answer w i c"
    if "l2_lookup s (w_cm w) (w_redis w) (current_key w i c) ttl use_l2 = Some b" for b
    using that by (intro h) (auto simp: held_def l2_lookup_def split: if_splits)
  show ?thesis
    using l1 l2 by (auto simp: get_or_compute_def Let_def cached_body_new_def split: option.split)
qed

section \<open>A concrete instance of the stores\<close>

definition sample_digest :: "string \<Rightarrow> string" where
  "sample_digest t = concat (map (\<lambda>c. [hex_digit (code c div 16), hex_digit (code c mod 16)]) t)"

definition sample_stores :: "(cache_key \<Rightarrow> cached_body option, string \<Rightarrow> string option) stores" where
  "sample_stores =
     \<lparr>sha256_hex = sample_digest, l1_get = (\<lambda>c. c), l1_put = (\<lambda>c k b. c(k := Some b)),
      redis_get = (\<lambda>r. r), redis_set_ex = (\<lambda>r k v n. r(k := Some v))\<rparr>"

lemma hex_digit_code: "0 \<le> n \<Longrightarrow> n < 16 \<Longrightarrow> code (hex_digit n) = (if n < 10 then 48 + n else 87 + n)"
  by (simp add: hex_digit_def)

lemma hex_digit_inject:
  assumes "0 \<le> a" "a < 16" "0 \<le> b" "b < 16" "hex_digit a = hex_digit b"
  shows "a = b"
proof -
  from assms(5) have "code (hex_digit a) = code (hex_digit b)" by simp
  with assms(1-4) show ?thesis by (auto simp: hex_digit_code split: if_splits)
qed

lemma hex_digit_alphanumeric: "0 \<le> n \<Longrightarrow> n < 16 \<Longrightarrow> is_ascii_alphanumeric (hex_digit n)"
  by (auto simp: is_ascii_alphanumeric_def is_ascii_alphabetic_def is_ascii_lower_def is_ascii_digit_def hex_digit_code)

lemma nibbles: "0 \<le> code c div 16 \<and> code c div 16 < 16" "0 \<le> code c mod 16 \<and> code c mod 16 < 16"
  by (simp_all add: pos_imp_zdiv_nonneg_iff) (use code_range(2) [of c] in linarith)

lemma byte_of_nibbles:
  assumes "hex_digit (code a div 16) = hex_digit (code b div 16)" "hex_digit (code a mod 16) = hex_digit (code b mod 16)"
  shows "a = b"
proof -
  have "code a div 16 = code b div 16" "code a mod 16 = code b mod 16"
    using assms nibbles [of a] nibbles [of b] hex_digit_inject by blast+
  then have "code a = code b" by (metis div_mult_mod_eq)
  then show ?thesis by simp
qed

lemma sample_digest_inject: "sample_digest s = sample_digest t \<Longrightarrow> s = t"
proof (induction s arbitrary: t)
  case Nil
  then show ?case by (cases t) (auto simp: sample_digest_def)
next
  case (Cons a s)
  then obtain b t' where "t = b # t'" by (cases t) (auto simp: sample_digest_def)
  with Cons show ?case by (auto simp: sample_digest_def dest: byte_of_nibbles)
qed

lemma ideal_sample: "ideal_digest sample_stores"
proof -
  have "inj sample_digest" by (rule injI) (rule sample_digest_inject)
  moreover have "list_all is_ascii_alphanumeric (sample_digest t)" for t
    by (induction t) (simp_all add: sample_digest_def hex_digit_alphanumeric nibbles)
  ultimately show ?thesis by (simp add: ideal_digest_def sample_stores_def)
qed

lemma honest_sample: "honest_stores sample_stores"
  by (auto simp: honest_stores_def sample_stores_def split: if_splits)

theorem cache_serves_fresh_witness:
  "\<exists>w body.
     cache_run sample_stores (fresh_world sample_stores (\<lambda>_. None) True [sample_spec] (\<lambda>_. None) (\<lambda>i c. ''old'')) 2 w \<and>
     snd (get_or_compute sample_stores (w_cm w) (w_redis w) (current_key w ''t'' []) 5 True (Inr (w_answer w ''t'' []))) =
       Inr body \<and> cb_bytes body = ''new''"
proof -
  let ?w0 = "fresh_world sample_stores (\<lambda>_. None) True [sample_spec] (\<lambda>_. None) (\<lambda>i c. ''old'')"
  let ?w1 = "?w0\<lparr>w_answer := (\<lambda>i c. if i = ''t'' then ''new'' else ''old''), w_dirty := insert ''s.t'' (w_dirty ?w0)\<rparr>"
  let ?w2 = "?w1\<lparr>w_cm := fst (invalidate_table ''s'' ''t'' (w_cm ?w1)), w_dirty := w_dirty ?w1 - {''s'' @ ''.'' @ ''t''}\<rparr>"
  have rd: "reads_table (w_cm ?w0) ''t'' ''s.t''"
    by (simp add: reads_table_def fresh_world_def new_manager_def build_reverse_readers sample_spec_def)
  have s1: "cache_step sample_stores ?w0 ?w1"
    using rd by (intro cache_step.commit) (auto simp: fresh_world_def)
  have s2: "cache_step sample_stores ?w1 ?w2" by (rule cache_step.invalidate)
  have run: "cache_run sample_stores ?w0 2 ?w2"
    using cache_run.more [OF cache_run.more [OF cache_run.start s1] s2] by (simp add: numeral_2_eq_2)
  have ans: "w_answer ?w2 ''t'' [] = ''new''" by simp
  have cl: "clean ?w2 ''t''" by (simp add: clean_def fresh_world_def)
  have "\<exists>body. snd (get_or_compute sample_stores (w_cm ?w2) (w_redis ?w2) (current_key ?w2 ''t'' []) 5 True
      (Inr (w_answer ?w2 ''t'' []))) = Inr body \<and> cb_bytes body = w_answer ?w2 ''t'' []"
    by (rule cache_serves_fresh [OF run honest_sample ideal_sample _ _ _ cl]) (simp_all add: sample_stores_def)
  with run ans show ?thesis by metis
qed

section \<open>Properties\<close>

text \<open>A body written to the shared tier is read back with the same bytes and the same entity tag.\<close>

theorem l2_roundtrip:
  assumes "ideal_digest s"
  shows "decode_l2 (encode_l2 (cached_body_new s bytes ttl)) ttl' = Some (cached_body_new s bytes ttl')"
  using etag_clean [OF assms] etag_ascii [OF assms, of bytes ttl]
  by (simp add: decode_encode_bytes) (simp add: cached_body_new_def)

theorem l2_roundtrip_witness:
  "decode_l2 (encode_l2 (cached_body_new sample_stores ''[1]'' 5)) 7 = Some (cached_body_new sample_stores ''[1]'' 7)"
  by (rule l2_roundtrip [OF ideal_sample])

text \<open>Two replicas that share the second tier can serve a stale body although every write was
  invalidated and every message delivered.  Generations are counted in each process, and the
  replica that publishes an invalidation counts it twice (once locally, once from its own message):
  a body stored by one replica is found by the other one write later.\<close>

theorem replicas_serve_stale:
  "let s = sample_stores;
       start = new_manager (\<lambda>_. None) True (build_reverse [sample_spec]);
       key = (\<lambda>cm. \<lparr>k_endpoint = ''t'', k_gen = generation cm ''t'', k_canon = []\<rparr>);
       write = (\<lambda>(a, b). case invalidate_table ''s'' ''t'' a of
                 (a', Some p) \<Rightarrow> (on_message p a', on_message p b) | (a', None) \<Rightarrow> (a', b));
       (a1, b1) = write (start, start);
       ((a2, r), seen) = get_or_compute s a1 (\<lambda>_. None) (key a1) 5 True (Inr ''first'');
       (a3, b3) = write (a2, b1)
   in map_sum id cb_bytes seen = Inr ''first'' \<and>
      map_sum id cb_bytes (snd (get_or_compute s b3 r (key b3) 5 True (Inr ''second''))) = Inr ''first''"
  by code_simp

end
