(* ===== verification/Auth_Ratelimit.thy ===== *)
theory Auth_Ratelimit
  imports Api_Error "HOL-Library.Word"
begin

text \<open>
  The tiered fixed-window rate limiter and the concurrency limiter
  (\<open>auth/ratelimit.rs\<close>).  The clock is an argument of \<open>check\<close>.  The counters of
  the concurrency limiter are 32-bit atomics; an acquisition is two atomic
  operations, so the limiter is also modelled as a step relation in which the
  operations of different requests interleave.
\<close>

subsection \<open>Rates\<close>

definition trim_end_s :: "string \<Rightarrow> string" where
  "trim_end_s s = rev (dropWhile (\<lambda>c. c = CHR ''s'') (rev s))"

definition parse_rate :: "string \<Rightarrow> int \<times> int" where
  "parse_rate spec =
     (let parts = split_on (CHR ''/'') spec;
          n = (case parse_u32 (trim (hd parts)) of Some n \<Rightarrow> n | None \<Rightarrow> 60);
          u = to_lowercase (trim_end_s (trim (case parts of _ # u # _ \<Rightarrow> u | _ \<Rightarrow> ''minute'')));
          secs = (if u = ''second'' then 1 else if u = ''minute'' then 60 else if u = ''hour'' then 3600
                  else if u = ''day'' then 86400 else 60)
      in (n, secs))"

subsection \<open>The fixed-window limiter\<close>

record rate_limiter =
  rl_anon :: "int \<times> int"
  rl_authed :: "int \<times> int"
  rl_anon_spec :: string
  rl_authed_spec :: string
  rl_buckets :: "string \<Rightarrow> (int \<times> int) option"

record rate_decision =
  d_allowed :: bool
  d_retry_after_s :: int
  d_limit_spec :: string
  d_limit :: int
  d_remaining :: int
  d_reset_s :: int

definition rate_limiter_new :: "string \<Rightarrow> string \<Rightarrow> rate_limiter" where
  "rate_limiter_new anon_spec authed_spec =
     \<lparr>rl_anon = parse_rate anon_spec, rl_authed = parse_rate authed_spec, rl_anon_spec = anon_spec,
      rl_authed_spec = authed_spec, rl_buckets = (\<lambda>_. None)\<rparr>"

definition authed_key :: "string \<Rightarrow> bool" where
  "authed_key key \<longleftrightarrow> starts_with key ''id:'' \<or> starts_with key ''presented:''"

definition rate_of :: "rate_limiter \<Rightarrow> string \<Rightarrow> int \<times> int" where
  "rate_of rl key = (if authed_key key then rl_authed rl else rl_anon rl)"

definition check :: "rate_limiter \<Rightarrow> int \<Rightarrow> string \<Rightarrow> rate_limiter \<times> rate_decision" where
  "check rl now key =
     (let (limit, window) = rate_of rl key;
          window_id = now div window;
          (wid, seen) = (case rl_buckets rl key of Some e \<Rightarrow> e | None \<Rightarrow> (window_id, 0));
          (wid', seen') = (if wid \<noteq> window_id then (window_id, 0) else (wid, seen));
          count = (seen' + 1) mod 2 ^ 32;
          allowed = (count \<le> limit);
          reset_s = (window_id + 1) * window - now
      in (rl\<lparr>rl_buckets := (rl_buckets rl)(key := Some (wid', count))\<rparr>,
          \<lparr>d_allowed = allowed, d_retry_after_s = (if allowed then 0 else reset_s),
           d_limit_spec = (if authed_key key then rl_authed_spec rl else rl_anon_spec rl),
           d_limit = limit, d_remaining = max 0 (limit - count), d_reset_s = reset_s\<rparr>))"

fun check_all :: "rate_limiter \<Rightarrow> (int \<times> string) list \<Rightarrow> rate_decision list" where
  "check_all rl [] = []"
| "check_all rl ((now, key) # calls) = (case check rl now key of (rl', d) \<Rightarrow> d # check_all rl' calls)"

subsection \<open>The concurrency limiter\<close>

record concurrency_limiter =
  cl_per_key :: "32 word"
  cl_per_ip :: "32 word"
  cl_counters :: "string \<Rightarrow> 32 word option"

definition counter :: "concurrency_limiter \<Rightarrow> string \<Rightarrow> 32 word" where
  "counter cl b = (case cl_counters cl b of Some n \<Rightarrow> n | None \<Rightarrow> 0)"

definition fetch_add :: "string \<Rightarrow> concurrency_limiter \<Rightarrow> concurrency_limiter" where
  "fetch_add b cl = cl\<lparr>cl_counters := (cl_counters cl)(b := Some (counter cl b + 1))\<rparr>"

definition fetch_sub :: "string \<Rightarrow> concurrency_limiter \<Rightarrow> concurrency_limiter" where
  "fetch_sub b cl = cl\<lparr>cl_counters := (cl_counters cl)(b := Some (counter cl b - 1))\<rparr>"

definition try_acquire :: "string \<Rightarrow> 32 word \<Rightarrow> concurrency_limiter \<Rightarrow> concurrency_limiter \<times> bool" where
  \<comment> \<open>the flag says whether a guard is returned\<close>
  "try_acquire b limit cl =
     (if limit \<le> counter cl b then (fetch_sub b (fetch_add b cl), False) else (fetch_add b cl, True))"

definition acquire :: "string \<Rightarrow> string \<Rightarrow> concurrency_limiter \<Rightarrow> concurrency_limiter \<times> bool" where
  "acquire key ip cl =
     (case try_acquire key (cl_per_key cl) cl of
        (cl1, False) \<Rightarrow> (cl1, False)
      | (cl1, True) \<Rightarrow>
          (case try_acquire ip (cl_per_ip cl1) cl1 of
             (cl2, True) \<Rightarrow> (cl2, True)
           | (cl2, False) \<Rightarrow> (fetch_sub key cl2, False)))"

definition release :: "string \<Rightarrow> string \<Rightarrow> concurrency_limiter \<Rightarrow> concurrency_limiter" where
  \<comment> \<open>dropping the pair of guards\<close>
  "release key ip cl = fetch_sub ip (fetch_sub key cl)"

subsection \<open>Interleaved acquisitions\<close>

text \<open>
  The atomic operations of concurrent requests on the counters: a request adds
  one and reads the previous value, which decides; a refused request subtracts
  one later, a granted one when its guard is dropped.
\<close>

record conc_world =
  cw_limiter :: concurrency_limiter
  cw_granted :: "string \<Rightarrow> nat"
  cw_refused :: "string \<Rightarrow> nat"

inductive conc_step :: "conc_world \<Rightarrow> conc_world \<Rightarrow> bool" where
  grant:
    "limit = cl_per_key (cw_limiter w) \<or> limit = cl_per_ip (cw_limiter w) \<Longrightarrow> counter (cw_limiter w) b < limit \<Longrightarrow>
     conc_step w (w\<lparr>cw_limiter := fetch_add b (cw_limiter w), cw_granted := (cw_granted w)(b := cw_granted w b + 1)\<rparr>)"
| refuse:
    "limit = cl_per_key (cw_limiter w) \<or> limit = cl_per_ip (cw_limiter w) \<Longrightarrow> limit \<le> counter (cw_limiter w) b \<Longrightarrow>
     conc_step w (w\<lparr>cw_limiter := fetch_add b (cw_limiter w), cw_refused := (cw_refused w)(b := cw_refused w b + 1)\<rparr>)"
| undo:
    "0 < cw_refused w b \<Longrightarrow>
     conc_step w (w\<lparr>cw_limiter := fetch_sub b (cw_limiter w), cw_refused := (cw_refused w)(b := cw_refused w b - 1)\<rparr>)"
| drop_guard:
    "0 < cw_granted w b \<Longrightarrow>
     conc_step w (w\<lparr>cw_limiter := fetch_sub b (cw_limiter w), cw_granted := (cw_granted w)(b := cw_granted w b - 1)\<rparr>)"

inductive conc_run :: "conc_world \<Rightarrow> nat \<Rightarrow> conc_world \<Rightarrow> bool" for w0 where
  start: "conc_run w0 0 w0"
| more: "conc_run w0 n w \<Longrightarrow> conc_step w w' \<Longrightarrow> conc_run w0 (Suc n) w'"

definition idle :: "32 word \<Rightarrow> 32 word \<Rightarrow> conc_world" where
  "idle per_key per_ip =
     \<lparr>cw_limiter = \<lparr>cl_per_key = per_key, cl_per_ip = per_ip, cl_counters = (\<lambda>_. None)\<rparr>,
      cw_granted = (\<lambda>_. 0), cw_refused = (\<lambda>_. 0)\<rparr>"

section \<open>The fixed window\<close>

lemma check_rates [simp]:
  "rl_anon (fst (check rl now key)) = rl_anon rl" "rl_authed (fst (check rl now key)) = rl_authed rl"
  "rate_of (fst (check rl now key)) k = rate_of rl k"
  by (simp_all add: check_def Let_def rate_of_def split: prod.split)

lemma check_other_bucket: "key \<noteq> k \<Longrightarrow> rl_buckets (fst (check rl now key)) k = rl_buckets rl k"
  by (simp add: check_def Let_def split: prod.split)

definition seen_in :: "rate_limiter \<Rightarrow> string \<Rightarrow> int \<Rightarrow> int" where
  \<comment> \<open>requests of a key already counted in a window\<close>
  "seen_in rl key wid = (case rl_buckets rl key of Some (v, n) \<Rightarrow> if v = wid then n else 0 | None \<Rightarrow> 0)"

lemma check_same_bucket:
  assumes "rate_of rl key = (limit, window)" "now div window = wid"
  shows "rl_buckets (fst (check rl now key)) key = Some (wid, (seen_in rl key wid + 1) mod 2 ^ 32)"
    and "d_allowed (snd (check rl now key)) \<longleftrightarrow> (seen_in rl key wid + 1) mod 2 ^ 32 \<le> limit"
  using assms by (auto simp: check_def Let_def seen_in_def split: option.splits prod.splits if_splits)

definition allowed_for :: "string \<Rightarrow> rate_limiter \<Rightarrow> (int \<times> string) list \<Rightarrow> bool list" where
  "allowed_for key rl calls =
     map (\<lambda>(c, d). d_allowed d) (filter (\<lambda>(c, d). snd c = key) (zip calls (check_all rl calls)))"

lemma allowed_for_Cons:
  "allowed_for key rl ((now, k) # calls) =
     (if k = key then [d_allowed (snd (check rl now k))] else []) @ allowed_for key (fst (check rl now k)) calls"
  by (simp add: allowed_for_def split: prod.split)

lemma allowed_for_window:
  assumes "rate_of rl key = (limit, window)"
    and "\<And>now. (now, key) \<in> set calls \<Longrightarrow> now div window = wid"
    and "seen_in rl key wid = int j" "j + length calls < 2 ^ 32"
  shows "allowed_for key rl calls =
    map (\<lambda>i. int (j + i) < limit) [0..<length (filter (\<lambda>c. snd c = key) calls)]"
  using assms
proof (induction calls arbitrary: rl j)
  case Nil
  then show ?case by (simp add: allowed_for_def)
next
  case (Cons call calls)
  obtain now k where call: "call = (now, k)" by fastforce
  let ?rl = "fst (check rl now k)"
  show ?case
  proof (cases "k = key")
    case True
    have w: "now div window = wid" using Cons.prems(2) call True by simp
    have small: "(seen_in rl key wid + 1) mod 2 ^ 32 = int (Suc j)" using Cons.prems(3,4) by simp
    have "seen_in ?rl key wid = int (Suc j)"
      using check_same_bucket(1) [OF Cons.prems(1) w] small True by (simp add: seen_in_def)
    then have rest: "allowed_for key ?rl calls =
        map (\<lambda>i. int (Suc j + i) < limit) [0..<length (filter (\<lambda>c. snd c = key) calls)]"
      using Cons.prems by (intro Cons.IH) auto
    have first: "d_allowed (snd (check rl now key)) \<longleftrightarrow> int j < limit"
      using check_same_bucket(2) [OF Cons.prems(1) w] small by auto
    have "[0..<Suc n] = 0 # map Suc [0..<n]" for n by (simp only: upt_conv_Cons map_Suc_upt zero_less_Suc)
    then show ?thesis
      using rest first True call by (simp add: allowed_for_Cons ac_simps)
  next
    case False
    then have "seen_in ?rl key wid = int j" using Cons.prems(3) by (simp add: seen_in_def check_other_bucket)
    then have "allowed_for key ?rl calls =
        map (\<lambda>i. int (j + i) < limit) [0..<length (filter (\<lambda>c. snd c = key) calls)]"
      using Cons.prems by (intro Cons.IH) auto
    then show ?thesis using False call by (simp add: allowed_for_Cons)
  qed
qed

lemma threshold_list:
  "map (\<lambda>i. int i < limit) [0..<n] = replicate (min (nat limit) n) True @ replicate (n - nat limit) False"
proof (rule nth_equalityI)
  fix i assume "i < length (map (\<lambda>i. int i < limit) [0..<n])"
  then show "map (\<lambda>i. int i < limit) [0..<n] ! i = (replicate (min (nat limit) n) True @ replicate (n - nat limit) False) ! i"
    by (auto simp: nth_append zless_nat_conj)
qed simp

text \<open>C27: The rate limiter admits exactly the limit.  In any sequence of requests of any clients, the requests
  of one client that fall in one window are admitted up to the limit of the client's tier and then
  all refused, whatever the other clients do.\<close>

theorem rate_limit_exact:
  assumes "rate_of rl key = (limit, window)"
    and "\<And>now. (now, key) \<in> set calls \<Longrightarrow> now div window = wid"
    and "seen_in rl key wid = 0" and "length calls < 2 ^ 32"
  shows "allowed_for key rl calls =
    (let n = length (filter (\<lambda>c. snd c = key) calls)
     in replicate (min (nat limit) n) True @ replicate (n - nat limit) False)"
  using allowed_for_window [OF assms(1,2), where j = 0] assms(3,4) threshold_list
  by (simp add: Let_def)

theorem rate_limit_exact_witness:
  "allowed_for ''id:a'' (rate_limiter_new ''1/second'' ''2/minute'')
     [(60, ''id:a''), (61, ''ip:x''), (62, ''id:a''), (119, ''id:a'')] = [True, True, False]"
proof -
  let ?rl = "rate_limiter_new ''1/second'' ''2/minute''"
  let ?calls = "[(60 :: int, ''id:a''), (61, ''ip:x''), (62, ''id:a''), (119, ''id:a'')]"
  have r: "rate_of ?rl ''id:a'' = (2, 60)" by code_simp
  have "allowed_for ''id:a'' ?rl ?calls =
    (let n = length (filter (\<lambda>c. snd c = ''id:a'') ?calls)
     in replicate (min (nat 2) n) True @ replicate (n - nat 2) False)"
    by (rule rate_limit_exact [OF r, where wid = 1]) (auto simp: seen_in_def rate_limiter_new_def)
  then show ?thesis by (simp add: numeral_2_eq_2)
qed

lemma parse_rate_window: "snd (parse_rate spec) \<in> {1, 60, 3600, 86400}"
  by (simp add: parse_rate_def Let_def)

lemma rate_of_new_window: "0 < snd (rate_of (rate_limiter_new a b) key)"
  using parse_rate_window [of a] parse_rate_window [of b] by (auto simp: rate_of_def rate_limiter_new_def)

lemma reset_bounds:
  assumes "rate_of rl key = (limit, window)" "0 < window"
  shows "0 < d_reset_s (snd (check rl now key)) \<and> d_reset_s (snd (check rl now key)) \<le> window \<and>
    (now + d_reset_s (snd (check rl now key))) div window = now div window + 1"
proof -
  have r: "d_reset_s (snd (check rl now key)) = (now div window + 1) * window - now"
    using assms(1) by (simp add: check_def Let_def split: prod.split)
  have "0 < (now div window + 1) * window - now \<and> (now div window + 1) * window - now \<le> window"
    using pos_mod_bound [OF assms(2), of now] pos_mod_sign [OF assms(2), of now]
      div_mult_mod_eq [of now window] unfolding distrib_right by linarith
  moreover have "(now + ((now div window + 1) * window - now)) div window = now div window + 1"
    using assms(2) by simp
  ultimately show ?thesis using r by simp
qed

text \<open>The wait a refused client is told is right: it is positive, no longer than the window, and a
  request made after exactly that wait is admitted.\<close>

theorem retry_after_admitted:
  assumes "rate_of rl key = (limit, window)" and "0 < window" and "1 \<le> limit"
    and "check rl now key = (rl', d)" and "\<not> d_allowed d"
  shows "0 < d_retry_after_s d \<and> d_retry_after_s d \<le> window \<and>
    d_allowed (snd (check rl' (now + d_retry_after_s d) key))"
proof -
  have d: "d_retry_after_s d = d_reset_s d" "d = snd (check rl now key)" "rl' = fst (check rl now key)"
    using assms(4,5) by (auto simp: check_def Let_def split: prod.splits)
  note b = reset_bounds [OF assms(1,2), of now]
  have "rate_of rl' key = (limit, window)" using assms(1) d(3) by simp
  moreover have "seen_in rl' key (now div window + 1) = 0"
    using check_same_bucket(1) [OF assms(1) refl, of now] d(3) by (simp add: seen_in_def)
  ultimately have "d_allowed (snd (check rl' (now + d_reset_s d) key)) \<longleftrightarrow> 1 mod 2 ^ 32 \<le> limit"
    using check_same_bucket(2) [of rl' key limit window "now + d_reset_s d" "now div window + 1"] b d(2) by simp
  with b d assms(3) show ?thesis by simp
qed

theorem retry_after_admitted_witness:
  "d_retry_after_s (snd (check (fst (check (rate_limiter_new ''1/minute'' ''1/minute'') 70 ''ip:x'')) 100 ''ip:x'')) = 20 \<and>
   d_allowed (snd (check (fst (check (fst (check (rate_limiter_new ''1/minute'' ''1/minute'') 70 ''ip:x'')) 100 ''ip:x'')) 120 ''ip:x''))"
proof -
  let ?rl = "fst (check (rate_limiter_new ''1/minute'' ''1/minute'') 70 ''ip:x'')"
  have e: "rate_of ?rl ''ip:x'' = (1, 60)" by code_simp
  have c: "check ?rl 100 ''ip:x'' = (fst (check ?rl 100 ''ip:x''), snd (check ?rl 100 ''ip:x''))" by simp
  have n: "\<not> d_allowed (snd (check ?rl 100 ''ip:x''))" by code_simp
  have t: "d_retry_after_s (snd (check ?rl 100 ''ip:x'')) = 20" by code_simp
  from retry_after_admitted [OF e _ _ c n] t show ?thesis by simp
qed

section \<open>Concurrency slots\<close>

lemma counter_simps [simp]:
  "counter (fetch_add b cl) c = (if b = c then counter cl c + 1 else counter cl c)"
  "counter (fetch_sub b cl) c = (if b = c then counter cl c - 1 else counter cl c)"
  by (auto simp: counter_def fetch_add_def fetch_sub_def)

lemma limits_simps [simp]:
  "cl_per_key (fetch_add b cl) = cl_per_key cl" "cl_per_ip (fetch_add b cl) = cl_per_ip cl"
  "cl_per_key (fetch_sub b cl) = cl_per_key cl" "cl_per_ip (fetch_sub b cl) = cl_per_ip cl"
  by (simp_all add: fetch_add_def fetch_sub_def)

lemma acquire_balanced:
  \<comment> \<open>a refused acquisition leaves every counter, and dropping the guards of a granted one restores them\<close>
  "case acquire key ip cl of
     (cl', granted) \<Rightarrow>
       if granted then counter (release key ip cl') = counter cl else counter cl' = counter cl"
  by (auto simp: acquire_def try_acquire_def release_def fun_eq_iff split: prod.split bool.split)

definition conc_inv :: "32 word \<Rightarrow> 32 word \<Rightarrow> nat \<Rightarrow> conc_world \<Rightarrow> bool" where
  "conc_inv pk pi n w \<longleftrightarrow>
     cl_per_key (cw_limiter w) = pk \<and> cl_per_ip (cw_limiter w) = pi \<and>
     (\<forall>b. unat (counter (cw_limiter w) b) = cw_granted w b + cw_refused w b \<and>
          cw_granted w b + cw_refused w b \<le> n \<and> cw_granted w b \<le> unat (max pk pi))"

lemma unat_plus_one: "unat (x :: 32 word) < 2 ^ 32 - 1 \<Longrightarrow> unat (x + 1) = unat x + 1"
  by (simp add: unat_word_ariths)

lemma unat_minus_one: "0 < unat (x :: 32 word) \<Longrightarrow> unat (x - 1) = unat x - 1"
  by (metis One_nat_def nat_less_le unat_0 unat_minus_one)

lemma conc_inv_update:
  assumes inv: "conc_inv pk pi n w"
    and lim: "cl_per_key (cw_limiter w') = pk" "cl_per_ip (cw_limiter w') = pi"
    and other: "\<And>c. c \<noteq> b \<Longrightarrow> counter (cw_limiter w') c = counter (cw_limiter w) c \<and>
      cw_granted w' c = cw_granted w c \<and> cw_refused w' c = cw_refused w c"
    and this_b: "unat (counter (cw_limiter w') b) = cw_granted w' b + cw_refused w' b"
      "cw_granted w' b + cw_refused w' b \<le> Suc n" "cw_granted w' b \<le> unat (max pk pi)"
  shows "conc_inv pk pi (Suc n) w'"
  unfolding conc_inv_def
proof (intro conjI allI)
  fix c
  have "unat (counter (cw_limiter w) c) = cw_granted w c + cw_refused w c"
    "cw_granted w c + cw_refused w c \<le> n" "cw_granted w c \<le> unat (max pk pi)"
    using inv by (simp_all add: conc_inv_def)
  then show "unat (counter (cw_limiter w') c) = cw_granted w' c + cw_refused w' c"
    "cw_granted w' c + cw_refused w' c \<le> Suc n" "cw_granted w' c \<le> unat (max pk pi)"
    using other [of c] this_b by (cases "c = b"; simp)+
qed (fact lim)+

lemma conc_step_inv:
  assumes "conc_step w w'" "conc_inv pk pi n w" "n < 2 ^ 32 - 1"
  shows "conc_inv pk pi (Suc n) w'"
proof -
  have lim: "cl_per_key (cw_limiter w) = pk" "cl_per_ip (cw_limiter w) = pi"
    and cnt: "unat (counter (cw_limiter w) b) = cw_granted w b + cw_refused w b"
      "cw_granted w b + cw_refused w b \<le> n" "cw_granted w b \<le> unat (max pk pi)" for b
    using assms(2) by (simp_all add: conc_inv_def)
  have up: "unat (counter (cw_limiter w) b + 1) = cw_granted w b + cw_refused w b + 1" for b
    using cnt [of b] assms(3) by (subst unat_plus_one) simp_all
  have down: "unat (counter (cw_limiter w) b - 1) = cw_granted w b + cw_refused w b - 1"
    if "0 < cw_granted w b + cw_refused w b" for b
    using cnt(1) [of b] that by (subst unat_minus_one) simp_all
  from assms(1) show ?thesis
  proof cases
    case (grant limit b)
    have "counter (cw_limiter w) b < max pk pi"
      using grant(2,3) lim by (auto simp: less_max_iff_disj)
    then have "cw_granted w b + cw_refused w b < unat (max pk pi)" using cnt(1) [of b] by (simp add: word_less_nat_alt)
    with up [of b] cnt [of b] lim show ?thesis
      by (intro conc_inv_update [OF assms(2), where b = b]) (simp_all add: grant(1))
  next
    case (refuse limit b)
    with up [of b] cnt [of b] lim show ?thesis
      by (intro conc_inv_update [OF assms(2), where b = b]) (simp_all add: refuse(1))
  next
    case (undo b)
    with down [of b] cnt [of b] lim show ?thesis
      by (intro conc_inv_update [OF assms(2), where b = b]) (simp_all add: undo(1))
  next
    case (drop_guard b)
    with down [of b] cnt [of b] lim show ?thesis
      by (intro conc_inv_update [OF assms(2), where b = b]) (simp_all add: drop_guard(1))
  qed
qed

lemma conc_run_inv:
  assumes "conc_run (idle pk pi) n w" "n < 2 ^ 32"
  shows "conc_inv pk pi n w"
  using assms
proof (induction rule: conc_run.induct)
  case start
  then show ?case by (simp add: conc_inv_def idle_def counter_def)
next
  case (more n w w')
  then show ?case using conc_step_inv [OF more(2)] by simp
qed



lemma try_acquire_runs:
  \<comment> \<open>one call is one step, or a refusal and its undoing\<close>
  assumes "limit = cl_per_key (cw_limiter w) \<or> limit = cl_per_ip (cw_limiter w)"
    and "try_acquire b limit (cw_limiter w) = (cl, ok)"
  shows "\<exists>n w'. conc_run w n w' \<and> n \<le> 2 \<and> cw_limiter w' = cl \<and> cw_refused w' = cw_refused w \<and>
    cw_granted w' = (cw_granted w)(b := cw_granted w b + (if ok then 1 else 0))"
proof (cases "limit \<le> counter (cw_limiter w) b")
  case True
  let ?w1 = "w\<lparr>cw_limiter := fetch_add b (cw_limiter w), cw_refused := (cw_refused w)(b := cw_refused w b + 1)\<rparr>"
  let ?w2 = "?w1\<lparr>cw_limiter := fetch_sub b (cw_limiter ?w1), cw_refused := (cw_refused ?w1)(b := cw_refused ?w1 b - 1)\<rparr>"
  have "conc_step w ?w1" using assms(1) True by (rule conc_step.refuse)
  moreover have "conc_step ?w1 ?w2" by (rule conc_step.undo) simp
  ultimately have "conc_run w (Suc (Suc 0)) ?w2" by (rule conc_run.more [OF conc_run.more [OF conc_run.start]])
  with True assms(2) show ?thesis by (intro exI [of _ "Suc (Suc 0)"] exI [of _ ?w2]) (auto simp: try_acquire_def)
next
  case False
  let ?w1 = "w\<lparr>cw_limiter := fetch_add b (cw_limiter w), cw_granted := (cw_granted w)(b := cw_granted w b + 1)\<rparr>"
  have "conc_step w ?w1" using assms(1) False by (intro conc_step.grant) auto
  then have "conc_run w (Suc 0) ?w1" by (rule conc_run.more [OF conc_run.start])
  with False assms(2) show ?thesis by (intro exI [of _ "Suc 0"] exI [of _ ?w1]) (auto simp: try_acquire_def)
qed

end
