(* ===== verification/Auth_Gate.thy ===== *)
theory Auth_Gate
  imports Auth_Ratelimit
begin

text \<open>
  Authentication (\<open>auth/lumid.rs\<close>, \<open>auth/mod.rs\<close>): the local keys, the extraction
  of a credential from the headers, token introspection with its cache, and the
  \<open>gate\<close> that every data route runs behind.

  The identity service and the introspection cache are other programs: the
  reply to a token and the cache's operations are the fields of \<open>identity_service\<close>.
  A header map answers with the text of a header, or with nothing when the
  header is absent or not text.  The metering of requests in Redis is not
  modelled.
\<close>

type_synonym header_map = "string \<Rightarrow> string option"

record identity =
  i_sub :: string
  i_role :: string
  i_email :: "string option"
  i_active :: bool
  i_scopes :: "string list"

datatype lumid_error = Unreachable string

record introspect_data =
  in_sub :: "string option"
  in_role :: "string option"
  in_email :: "string option"
  in_active :: bool
  in_scopes :: "string list option"

record introspect_body =
  ib_data :: "introspect_data option"
  ib_bare :: introspect_data

datatype reply = SendFailed string | Replied nat "introspect_body option"

record 'm identity_service =
  is_enabled :: bool
  is_hash :: "string \<Rightarrow> string"
  is_get :: "'m \<Rightarrow> string \<Rightarrow> identity option option"
  is_put :: "'m \<Rightarrow> string \<Rightarrow> identity option \<Rightarrow> 'm"
  is_post :: "string \<Rightarrow> reply"

subsection \<open>Introspection\<close>

definition looks_like_token :: "string \<Rightarrow> bool" where
  "looks_like_token token \<longleftrightarrow>
     token \<noteq> [] \<and>
     (starts_with token ''lm_pat_live_'' \<or> starts_with token ''rm_pat_live_'' \<or>
      (let parts = split_on (CHR ''.'') token in length parts = 3 \<and> list_all (\<lambda>p. p \<noteq> []) parts))"

definition identity_of :: "introspect_data \<Rightarrow> identity" where
  "identity_of d =
     \<lparr>i_sub = (case in_sub d of Some s \<Rightarrow> s | None \<Rightarrow> []),
      i_role = (case in_role d of Some r \<Rightarrow> r | None \<Rightarrow> ''user''),
      i_email = in_email d, i_active = True,
      i_scopes = (case in_scopes d of Some s \<Rightarrow> s | None \<Rightarrow> [])\<rparr>"

definition introspect :: "'m identity_service \<Rightarrow> 'm \<Rightarrow> string \<Rightarrow> 'm \<times> (lumid_error + identity option)" where
  "introspect sv m token =
     (if \<not> is_enabled sv \<or> \<not> looks_like_token token then (m, Inr None)
      else
        (let key = is_hash sv token
         in case is_get sv m key of
              Some cached \<Rightarrow> (m, Inr cached)
            | None \<Rightarrow>
                (case is_post sv token of
                   SendFailed e \<Rightarrow> (m, Inl (Unreachable e))
                 | Replied status body \<Rightarrow>
                     if status \<noteq> 200 then (is_put sv m key None, Inr None)
                     else
                       (case body of
                          None \<Rightarrow> (m, Inr None)
                        | Some b \<Rightarrow>
                            (let d = (case ib_data b of Some d \<Rightarrow> d | None \<Rightarrow> ib_bare b)
                             in if \<not> in_active d then (is_put sv m key None, Inr None)
                                else (is_put sv m key (Some (identity_of d)), Inr (Some (identity_of d))))))))"

subsection \<open>Credentials\<close>

definition add_local_key :: "string \<Rightarrow> (string \<Rightarrow> string option) \<Rightarrow> string \<Rightarrow> string option" where
  "add_local_key chunk0 ks =
     (let chunk = trim chunk0
      in if chunk = [] then ks
         else
           (case split_once (CHR '':'') chunk of
              Some (k, label) \<Rightarrow> ks(trim k := Some (trim label))
            | None \<Rightarrow> ks(chunk := Some ''unnamed'')))"

definition parse_local_keys :: "string \<Rightarrow> string \<Rightarrow> string option" where
  "parse_local_keys raw = fold add_local_key (split_on (CHR '','') raw) (\<lambda>_. None)"

definition non_empty :: "string \<Rightarrow> string option" where
  "non_empty s = (if trim s = [] then None else Some (trim s))"

definition bearer_token :: "header_map \<Rightarrow> string option" where
  "bearer_token h =
     (case h ''authorization'' of
        None \<Rightarrow> None
      | Some auth \<Rightarrow>
          (case split_once (CHR '' '') auth of
             None \<Rightarrow> None
           | Some (scheme, token) \<Rightarrow> if eq_ignore_case scheme ''bearer'' then non_empty token else None))"

definition api_key :: "header_map \<Rightarrow> string option" where
  "api_key h = (case h ''x-api-key'' of None \<Rightarrow> None | Some k \<Rightarrow> non_empty k)"

definition extract_token :: "header_map \<Rightarrow> string option" where
  "extract_token h = (case api_key h of Some k \<Rightarrow> Some k | None \<Rightarrow> bearer_token h)"

definition extract_ws_token :: "header_map \<Rightarrow> string option" where
  "extract_ws_token h =
     (case bearer_token h of
        Some t \<Rightarrow> Some t
      | None \<Rightarrow>
          (case api_key h of
             Some k \<Rightarrow> Some k
           | None \<Rightarrow>
               (case h ''sec-websocket-protocol'' of
                  None \<Rightarrow> None
                | Some proto \<Rightarrow>
                    (case strip_prefix ''bearer.'' proto of Some tok \<Rightarrow> non_empty tok | None \<Rightarrow> None))))"

definition first_hop :: "header_map \<Rightarrow> string \<Rightarrow> string option" where
  "first_hop h name = (case h name of None \<Rightarrow> None | Some v \<Rightarrow> non_empty (hd (split_on (CHR '','') v)))"

definition client_ip :: "header_map \<Rightarrow> string" where
  "client_ip h =
     (case first_hop h ''x-forwarded-for'' of
        Some ip \<Rightarrow> ip
      | None \<Rightarrow> (case first_hop h ''x-real-ip'' of Some ip \<Rightarrow> ip | None \<Rightarrow> ''unknown''))"

subsection \<open>Identities\<close>

record 'm auth_state =
  as_service :: "'m identity_service"
  as_cache :: 'm
  as_local_keys :: "string \<Rightarrow> string option"
  as_rate :: rate_limiter
  as_concurrency :: "concurrency_limiter option"

definition local_identity :: "string \<Rightarrow> identity" where
  "local_identity label =
     \<lparr>i_sub = ''local:'' @ label, i_role = ''local'', i_email = None, i_active = True, i_scopes = []\<rparr>"

definition resolve_identity :: "'m auth_state \<Rightarrow> header_map \<Rightarrow> 'm auth_state \<times> identity option api_result" where
  "resolve_identity st h =
     (case extract_token h of
        None \<Rightarrow> (st, Inr None)
      | Some token \<Rightarrow>
          (case as_local_keys st token of
             Some label \<Rightarrow> (st, Inr (Some (local_identity label)))
           | None \<Rightarrow>
               (case introspect (as_service st) (as_cache st) token of
                  (m, Inr (Some i)) \<Rightarrow> (st\<lparr>as_cache := m\<rparr>, Inr (Some i))
                | (m, Inr None) \<Rightarrow> (st\<lparr>as_cache := m\<rparr>, Inl (Unauthorized ''invalid or unknown token''))
                | (m, Inl (Unreachable e)) \<Rightarrow> (st\<lparr>as_cache := m\<rparr>, Inl (Unavailable ''auth service unreachable'')))))"

definition resolve_bearer :: "'m auth_state \<Rightarrow> string \<Rightarrow> 'm auth_state \<times> identity option api_result" where
  "resolve_bearer st token0 =
     (let token = trim token0
      in if token = [] then (st, Inr None)
         else
           (case as_local_keys st token of
              Some label \<Rightarrow> (st, Inr (Some (local_identity label)))
            | None \<Rightarrow>
                (case introspect (as_service st) (as_cache st) token of
                   (m, Inr i) \<Rightarrow> (st\<lparr>as_cache := m\<rparr>, Inr i)
                 | (m, Inl (Unreachable e)) \<Rightarrow> (st\<lparr>as_cache := m\<rparr>, Inl (Unavailable ''auth service unreachable'')))))"

subsection \<open>The gate\<close>

text \<open>
  What the gate decides: the identity and the three rate-limit headers when the
  request goes on to its handler, with the pair of concurrency buckets whose
  slots are held until the response body ends.
\<close>

record passed =
  g_identity :: identity
  g_limit :: int
  g_remaining :: int
  g_reset :: int
  g_slots :: "(string \<times> string) option"

definition rate_key :: "header_map \<Rightarrow> identity option \<Rightarrow> string" where
  "rate_key h ident = (case ident of Some i \<Rightarrow> ''id:'' @ i_sub i | None \<Rightarrow> ''ip:'' @ client_ip h)"

definition acquire_slots :: "string \<Rightarrow> string \<Rightarrow> 'm auth_state \<Rightarrow> 'm auth_state \<times> bool" where
  "acquire_slots key ip st =
     (case as_concurrency st of
        None \<Rightarrow> (st, True)
      | Some cl \<Rightarrow> (case acquire key ip cl of (cl', granted) \<Rightarrow> (st\<lparr>as_concurrency := Some cl'\<rparr>, granted)))"

definition release_slots :: "string \<Rightarrow> string \<Rightarrow> 'm auth_state \<Rightarrow> 'm auth_state" where
  "release_slots key ip st = st\<lparr>as_concurrency := map_option (release key ip) (as_concurrency st)\<rparr>"

definition gate :: "'m auth_state \<Rightarrow> int \<Rightarrow> header_map \<Rightarrow> 'm auth_state \<times> passed api_result" where
  "gate st0 now h =
     (case resolve_identity st0 h of
        (st, Inl e) \<Rightarrow> (st, Inl e)
      | (st, Inr ident) \<Rightarrow>
          (let key = rate_key h ident
           in case check (as_rate st) now key of
                (rl, d) \<Rightarrow>
                  (let st1 = st\<lparr>as_rate := rl\<rparr>
                   in if \<not> d_allowed d then (st1, Inl (RateLimited (nat (d_retry_after_s d)) (d_limit_spec d)))
                      else
                        (case acquire_slots key (client_ip h) st1 of
                           (st2, False) \<Rightarrow>
                             (st2, Inl (RateLimited 1 (''concurrency limit exceeded for '' @ key)))
                         | (st2, True) \<Rightarrow>
                             (case ident of
                                None \<Rightarrow>
                                  (release_slots key (client_ip h) st2,
                                   Inl (Unauthorized (''authentication required '' @ [CHR 0xE2, CHR 0x80, CHR 0x94] @
                                     '' present a Lumid PAT as '' @ [CHR 0x27] @ ''Authorization: Bearer <token>'' @ [CHR 0x27])))
                              | Some i \<Rightarrow>
                                  (st2, Inr \<lparr>g_identity = i, g_limit = d_limit d, g_remaining = d_remaining d,
                                             g_reset = d_reset_s d,
                                             g_slots = map_option (\<lambda>cl. (key, client_ip h)) (as_concurrency st2)\<rparr>)))))) "

section \<open>Authentication\<close>

definition vouched :: "'m identity_service \<Rightarrow> string \<Rightarrow> identity \<Rightarrow> bool" where
  \<comment> \<open>the identity service answers for the token with this identity, as active\<close>
  "vouched sv token i \<longleftrightarrow>
     (\<exists>b d. is_post sv token = Replied 200 (Some b) \<and> d = (case ib_data b of Some d \<Rightarrow> d | None \<Rightarrow> ib_bare b) \<and>
            in_active d \<and> i = identity_of d)"

lemma introspect_Some:
  "introspect sv m token = (m', Inr (Some i)) \<Longrightarrow>
     is_enabled sv \<and> looks_like_token token \<and> (is_get sv m (is_hash sv token) = Some (Some i) \<or> vouched sv token i)"
  by (auto simp: introspect_def vouched_def Let_def split: if_splits option.splits reply.splits)

lemma resolve_identity_frame [simp]:
  "as_rate (fst (resolve_identity st h)) = as_rate st"
  "as_concurrency (fst (resolve_identity st h)) = as_concurrency st"
  "as_local_keys (fst (resolve_identity st h)) = as_local_keys st"
  by (simp_all add: resolve_identity_def split: option.split prod.split sum.split lumid_error.split)

definition authenticates :: "'m auth_state \<Rightarrow> string \<Rightarrow> identity \<Rightarrow> bool" where
  "authenticates st token i \<longleftrightarrow>
     (case as_local_keys st token of
        Some label \<Rightarrow> i = local_identity label
      | None \<Rightarrow>
          is_enabled (as_service st) \<and> looks_like_token token \<and>
          (is_get (as_service st) (as_cache st) (is_hash (as_service st) token) = Some (Some i) \<or>
           vouched (as_service st) token i))"

lemma resolve_identity_cases:
  "resolve_identity st h = (st', Inr (Some i)) \<Longrightarrow> \<exists>token. extract_token h = Some token \<and> authenticates st token i"
  "resolve_identity st h = (st', Inr None) \<Longrightarrow> extract_token h = None"
  "resolve_identity st h = (st', Inl e) \<Longrightarrow> extract_token h \<noteq> None \<and> (status_of e = 401 \<or> status_of e = 503)"
  by (auto simp: resolve_identity_def authenticates_def dest: introspect_Some
      split: option.splits prod.splits sum.splits lumid_error.splits)

lemma release_slots_frame [simp]: "as_rate (release_slots key ip st) = as_rate st"
  by (simp add: release_slots_def)

text \<open>C2: The gate authenticates.  A request reaches its handler only with an identity that its own credential
  stands for: the label of a configured local key, or the active identity the identity service
  reports for the token, directly or from the introspection cache.  Every other request is answered with
  401, 429 or 503, and one without a credential with 401 or 429.\<close>

theorem gate_authenticates:
  "case gate st now h of
     (st', Inr p) \<Rightarrow> \<exists>token. extract_token h = Some token \<and> authenticates st token (g_identity p)
   | (st', Inl e) \<Rightarrow>
       if extract_token h = None then status_of e = 401 \<or> status_of e = 429
       else status_of e = 401 \<or> status_of e = 429 \<or> status_of e = 503"
proof (cases "resolve_identity st h")
  case (Pair st1 r)
  show ?thesis
  proof (cases r)
    case (Inl e)
    with Pair resolve_identity_cases(3) show ?thesis by (fastforce simp: gate_def)
  next
    case (Inr ident)
    then show ?thesis
      using Pair resolve_identity_cases(1,2) [of st h st1]
      by (cases ident) (auto simp: gate_def Let_def split: prod.split bool.split)
  qed
qed

section \<open>Concurrency slots of the gate\<close>

definition slots :: "'m auth_state \<Rightarrow> string \<Rightarrow> 32 word" where
  "slots st b = (case as_concurrency st of None \<Rightarrow> 0 | Some cl \<Rightarrow> counter cl b)"

lemma acquire_slots_refused: "acquire_slots key ip st = (st', False) \<Longrightarrow> slots st' = slots st"
  using acquire_balanced by (fastforce simp: acquire_slots_def slots_def split: option.splits prod.splits)

lemma acquire_slots_granted: "acquire_slots key ip st = (st', True) \<Longrightarrow> slots (release_slots key ip st') = slots st"
  using acquire_balanced by (fastforce simp: acquire_slots_def release_slots_def slots_def split: option.splits prod.splits)

lemma slots_rate [simp]: "slots (st\<lparr>as_rate := r\<rparr>) = slots st"
  by (simp add: slots_def fun_eq_iff)

lemma slots_resolve: "resolve_identity st h = (st1, r) \<Longrightarrow> slots st1 = slots st"
  using resolve_identity_frame(2) [of st h] by (simp add: slots_def fun_eq_iff)

lemma acquire_slots_None: "acquire_slots key ip st = (st', ok) \<Longrightarrow> as_concurrency st' = None \<Longrightarrow> st' = st"
  by (auto simp: acquire_slots_def split: option.splits prod.splits)

text \<open>The gate never leaks a concurrency slot.  A request it refuses, for whatever reason, leaves the
  slots in use of every bucket as they were; a request it passes holds slots that are exactly given back
  when its response body ends.\<close>

theorem gate_slots_balanced:
  "case gate st now h of
     (st', Inl e) \<Rightarrow> slots st' = slots st
   | (st', Inr p) \<Rightarrow>
       (case g_slots p of
          None \<Rightarrow> slots st' = slots st
        | Some (key, ip) \<Rightarrow> slots (release_slots key ip st') = slots st)"
proof (cases "resolve_identity st h")
  case (Pair st1 r)
  note base = slots_resolve [OF Pair]
  show ?thesis
  proof (cases r)
    case (Inl e)
    with Pair base show ?thesis by (simp add: gate_def)
  next
    case (Inr ident)
    obtain rl d where d: "check (as_rate st1) now (rate_key h ident) = (rl, d)" by fastforce
    let ?st = "st1\<lparr>as_rate := rl\<rparr>"
    obtain st2 ok where a: "acquire_slots (rate_key h ident) (client_ip h) ?st = (st2, ok)" by fastforce
    have no: "\<not> ok \<Longrightarrow> slots st2 = slots st" using acquire_slots_refused a base by (cases ok) fastforce+
    have yes: "ok \<Longrightarrow> slots (release_slots (rate_key h ident) (client_ip h) st2) = slots st"
      using acquire_slots_granted a base by (cases ok) fastforce+
    have none: "as_concurrency st2 = None \<Longrightarrow> slots st2 = slots st"
      using acquire_slots_None [OF a] base by simp
    show ?thesis
      using Pair Inr d a base no yes none
      by (cases ident; cases ok) (auto simp: gate_def Let_def split: option.split)
  qed
qed

section \<open>Two consequences of the design\<close>

definition sample_identity :: "string \<Rightarrow> introspect_data" where
  "sample_identity sub = \<lparr>in_sub = Some sub, in_role = None, in_email = None, in_active = True, in_scopes = None\<rparr>"

definition sample_service :: "reply \<Rightarrow> (string \<Rightarrow> identity option option) identity_service" where
  "sample_service r =
     \<lparr>is_enabled = True, is_hash = (\<lambda>t. t), is_get = (\<lambda>m. m), is_put = (\<lambda>m k v. m(k := Some v)), is_post = (\<lambda>t. r)\<rparr>"

definition sample_auth :: "(string \<Rightarrow> identity option option) auth_state" where
  "sample_auth =
     \<lparr>as_service = sample_service (SendFailed ''''), as_cache = (\<lambda>_. None),
      as_local_keys = parse_local_keys ''k1:alice, k2:bob'', as_rate = rate_limiter_new ''9/second'' ''9/second'',
      as_concurrency = Some \<lparr>cl_per_key = 1, cl_per_ip = 1, cl_counters = (\<lambda>_. None)\<rparr>\<rparr>"

text \<open>The buckets of the concurrency limiter are not separated: a client that puts another user's rate
  key into its forwarding header occupies that user's slot, and the user is refused.\<close>

lemma spoofed_forwarding_header_starves_user:
  "let bob = [''x-api-key'' \<mapsto> ''k2'', ''x-forwarded-for'' \<mapsto> ''id:local:alice''];
       alice = [''x-api-key'' \<mapsto> ''k1'', ''x-forwarded-for'' \<mapsto> ''10.0.0.1'']
   in map_sum status_of g_slots (snd (gate sample_auth 0 bob)) = Inr (Some (''id:local:bob'', ''id:local:alice'')) \<and>
      map_sum status_of g_slots (snd (gate (fst (gate sample_auth 0 bob)) 0 alice)) = Inl 429 \<and>
      map_sum status_of g_slots (snd (gate sample_auth 0 alice)) = Inr (Some (''id:local:alice'', ''10.0.0.1''))"
  by code_simp

text \<open>An answer of the identity service with any status other than 200, an outage included, is cached as
  a rejection of the token: the token stays refused while the entry lives, although the service
  would accept it again.\<close>

lemma outage_rejects_valid_token:
  "let token = ''lm_pat_live_1'';
       (m, first) = introspect (sample_service (Replied 503 None)) (\<lambda>_. None) token;
       back = sample_service (Replied 200 (Some \<lparr>ib_data = Some (sample_identity ''u1''), ib_bare = sample_identity ''''\<rparr>))
   in first = Inr None \<and> snd (introspect back m token) = Inr None \<and>
      map_sum id (map_option i_sub) (snd (introspect back (\<lambda>_. None) token)) = Inr (Some ''u1'')"
  by code_simp

end
