(* ===== verification/Read_Exec.thy ===== *)
theory Read_Exec
  imports Read_Cache Auth_Gate
begin

text \<open>
  The executor of declarative reads (\<open>read/exec.rs\<close>, \<open>db/lineage.rs\<close>): query-string
  decoding, self-tenant scoping, admin elevation, the local and the federated
  production of a body, response shaping, and the handler \<open>run_spec\<close> around the
  cache.

  A backend is what its trait promises: a kind and an answer to a bound query
  under a role, with the time the answer takes.  The forwarding client, the
  backend registry and the JSON codec are fields of \<open>app\<close>.  The cache state is
  passed and returned.
\<close>

subsection \<open>Query strings\<close>

definition hex_val :: "char \<Rightarrow> int option" where
  "hex_val c =
     (if is_ascii_digit c then Some (code c - 48)
      else if 97 \<le> code c \<and> code c \<le> 102 then Some (code c - 87)
      else if 65 \<le> code c \<and> code c \<le> 70 then Some (code c - 55)
      else None)"

fun pct_decode_loop :: "string \<Rightarrow> string run" where
  \<comment> \<open>the slice of two bytes after \<open>%\<close> panics when it ends inside a character\<close>
  "pct_decode_loop (c # a # b # cs) =
     (if c = CHR ''%'' then
        (if cs \<noteq> [] \<and> is_continuation (hd cs) then Panic
         else
           (case (hex_val a, hex_val b) of
              (Some x, Some y) \<Rightarrow> map_option (\<lambda>r. char_of (16 * x + y) # r) (pct_decode_loop cs)
            | _ \<Rightarrow> map_option (\<lambda>r. c # r) (pct_decode_loop (a # b # cs))))
      else map_option (\<lambda>r. c # r) (pct_decode_loop (a # b # cs)))"
| "pct_decode_loop cs = ret cs"

definition pct_decode :: "string \<Rightarrow> string run" where
  "pct_decode s =
     map_option utf8_lossy (pct_decode_loop (map (\<lambda>c. if c = CHR ''+'' then CHR '' '' else c) s))"

fun parse_pairs :: "string list \<Rightarrow> str_map \<Rightarrow> str_map run" where
  "parse_pairs [] out = ret out"
| "parse_pairs (pair # ps) out =
     (if pair = [] then parse_pairs ps out
      else
        (let (k, v) = (case split_once (CHR ''='') pair of Some kv \<Rightarrow> kv | None \<Rightarrow> (pair, []))
         in case (pct_decode k, pct_decode v) of
              (Some k', Some v') \<Rightarrow> parse_pairs ps (out(k' := Some v'))
            | _ \<Rightarrow> Panic))"

definition parse_query :: "string option \<Rightarrow> str_map run" where
  "parse_query q =
     (case q of None \<Rightarrow> ret (\<lambda>_. None) | Some q \<Rightarrow> parse_pairs (split_on (CHR ''&'') q) (\<lambda>_. None))"

subsection \<open>Rows\<close>

type_synonym row = "(string \<times> json) list"

definition HIDDEN_COLUMNS :: "string list" where
  "HIDDEN_COLUMNS = [''source'', ''source_endpoint'', ''source_run_id'', ''raw'']"

definition remove_key :: "string \<Rightarrow> row \<Rightarrow> row" where
  "remove_key k r = filter (\<lambda>(n, v). n \<noteq> k) r"

definition strip_lineage :: "row \<Rightarrow> row" where
  "strip_lineage r = fold remove_key HIDDEN_COLUMNS r"

definition strip_lineage_rows :: "row list \<Rightarrow> row list" where
  "strip_lineage_rows rs = map strip_lineage rs"

fun insert_key :: "string \<Rightarrow> json \<Rightarrow> row \<Rightarrow> row" where
  "insert_key k v [] = [(k, v)]"
| "insert_key k v ((n, w) # r) = (if n = k then (n, v) # r else (n, w) # insert_key k v r)"

definition id_echo :: "str_map \<Rightarrow> (string \<times> string) option" where
  "id_echo path =
     (case path ''key'' of
        Some v \<Rightarrow> Some (''key'', v)
      | None \<Rightarrow> (case path ''symbol'' of Some v \<Rightarrow> Some (''symbol'', v) | None \<Rightarrow> None))"

definition shape_rows :: "endpoint_spec \<Rightarrow> row list \<Rightarrow> (string \<times> string) option \<Rightarrow> json api_result" where
  "shape_rows ep objs id_kv =
     (case e_shape ep of
        Rows \<Rightarrow> Inr (JArray (map JObject objs))
      | One \<Rightarrow> (case objs of ob # _ \<Rightarrow> Inr (JObject ob) | [] \<Rightarrow> Inl (NotFound ''not found''))
      | Envelope \<Rightarrow>
          (let key = (case e_envelope_key ep of Some k \<Rightarrow> k | None \<Rightarrow> ''data'');
               env = (case id_kv of Some (name, val) \<Rightarrow> insert_key name (JString val) [] | None \<Rightarrow> []);
               env = insert_key ''count'' (JNumber (NInt (int (length objs)))) env
           in Inr (JObject (insert_key key (JArray (map JObject objs)) env))))"

subsection \<open>Roles and targets\<close>

definition admin_read_elevation :: "endpoint_spec \<Rightarrow> string \<Rightarrow> string \<Rightarrow> string option" where
  "admin_read_elevation ep admin_read_role caller_role =
     (let role = trim admin_read_role
      in if e_admin_cross_tenant ep \<and> role \<noteq> [] \<and>
            (caller_role = ''admin'' \<or> caller_role = ''super_admin'' \<or> caller_role = ''local'')
         then Some role else None)"

definition read_target :: "endpoint_spec \<Rightarrow> string \<times> string" where
  "read_target ep =
     (case e_tables ep of
        t # _ \<Rightarrow> (case split_once (CHR ''.'') t of Some (s, tbl) \<Rightarrow> (s, tbl) | None \<Rightarrow> ([], t))
      | [] \<Rightarrow> ([], []))"

subsection \<open>Producing a body\<close>

datatype backend_kind = Postgres | ClickHouse

record bound_query =
  bq_sql :: string
  bq_binds :: "bind_value list"
  bq_pre_lowered :: bool

record backend =
  bk_kind :: backend_kind
  bk_query :: "bound_query \<Rightarrow> string \<Rightarrow> int \<times> row list api_result"

record origin_identity =
  o_sub :: string
  o_role :: string

record ('c, 'r) app =
  ap_stores :: "('c, 'r) stores"
  ap_ext :: externals
  ap_admin_read_role :: string
  ap_backends :: "string \<Rightarrow> string \<Rightarrow> backend api_result"
  ap_forward :: "(string \<Rightarrow> string option \<Rightarrow> origin_identity \<Rightarrow> nat \<times> (string + string)) option"
  ap_to_vec :: "json \<Rightarrow> string + string"
  ap_from_slice :: "string \<Rightarrow> string + json"

definition lower_for :: "endpoint_spec \<Rightarrow> backend_kind \<Rightarrow> bound \<Rightarrow> bound_query api_result" where
  "lower_for ep kind bnd =
     (case (kind, e_ir ep) of
        (ClickHouse, Some ir) \<Rightarrow>
          bind_res (clickhouse_lower \<lparr>use_final = e_ch_final ep, order_key_cols = map oi_expr (q_order_by ir)\<rparr>
                      (b_substituted bnd) (b_value_map bnd) (Some ir))
            (\<lambda>low. Inr \<lparr>bq_sql = bs_sql low, bq_binds = bs_values low, bq_pre_lowered = True\<rparr>)
      | _ \<Rightarrow> Inr \<lparr>bq_sql = b_sql bnd, bq_binds = b_values bnd, bq_pre_lowered = False\<rparr>)"

definition run_query :: "endpoint_spec \<Rightarrow> backend \<Rightarrow> bound \<Rightarrow> string \<Rightarrow> row list api_result" where
  \<comment> \<open>a query that takes longer than the endpoint's limit is an empty result\<close>
  "run_query ep bk bnd read_role =
     (case lower_for ep (bk_kind bk) bnd of
        Inl e \<Rightarrow> Inl e
      | Inr q \<Rightarrow>
          (case bk_query bk q read_role of
             (elapsed, result) \<Rightarrow>
               (case e_query_timeout_ms ep of
                  Some ms \<Rightarrow> if elapsed \<le> ms then result else Inr []
                | None \<Rightarrow> result)))"

definition produce :: "('c, 'r) app \<Rightarrow> endpoint_spec \<Rightarrow> bound \<Rightarrow> (string \<times> string) option \<Rightarrow> string \<Rightarrow> string api_result" where
  "produce ap ep bnd id_kv read_role =
     (case read_target ep of
        (sch, tbl) \<Rightarrow>
          bind_res (ap_backends ap sch tbl) (\<lambda>bk.
          bind_res (run_query ep bk bnd read_role) (\<lambda>objs.
          bind_res (shape_rows ep (if e_strip_lineage ep then strip_lineage_rows objs else objs) id_kv) (\<lambda>value.
            (case ap_to_vec ap value of Inl e \<Rightarrow> Inl (Internal e) | Inr bytes \<Rightarrow> Inr bytes)))))"

definition peer_detail :: "('c, 'r) app \<Rightarrow> nat \<Rightarrow> string \<Rightarrow> string" where
  "peer_detail ap status bytes =
     (case ap_from_slice ap bytes of
        Inr (JObject kvs) \<Rightarrow>
          (case map_of kvs ''detail'' of
             Some (JString d) \<Rightarrow> d
           | _ \<Rightarrow> ''federation peer returned '' @ show_nat status)
      | _ \<Rightarrow> ''federation peer returned '' @ show_nat status)"

definition produce_federated ::
  "('c, 'r) app \<Rightarrow> (string \<Rightarrow> string option \<Rightarrow> origin_identity \<Rightarrow> nat \<times> (string + string)) \<Rightarrow> string \<Rightarrow>
     string option \<Rightarrow> origin_identity \<Rightarrow> string api_result" where
  "produce_federated ap fwd path query origin =
     (case fwd path query origin of
        (status, Inl e) \<Rightarrow> Inl (Internal (''federation body read: '' @ e))
      | (status, Inr bytes) \<Rightarrow>
          if 200 \<le> status \<and> status < 300 then Inr bytes
          else
            (let d = peer_detail ap status bytes
             in Inl (if status = 404 then NotFound d else if status = 400 then BadRequest d
                     else if status = 401 \<or> status = 403 then Forbidden d else Unavailable d)))"

definition execute_to_value :: "('c, 'r) app \<Rightarrow> endpoint_spec \<Rightarrow> str_map \<Rightarrow> str_map \<Rightarrow> json api_result" where
  "execute_to_value ap ep path query =
     (if e_self_tenant ep then
        Inl (Forbidden ''self-tenant endpoints require an authenticated caller; not available on this path'')
      else
        bind_res (resolve (ap_ext ap) ep path query) (\<lambda>bnd.
        bind_res (produce ap ep bnd (id_echo path) []) (\<lambda>bytes.
          (case ap_from_slice ap bytes of
             Inr v \<Rightarrow> Inr v
           | Inl e \<Rightarrow> Inl (Internal e)))))"

subsection \<open>Responding\<close>

definition cache_control :: "externals \<Rightarrow> endpoint_spec \<Rightarrow> string" where
  "cache_control x ep =
     (if e_cache ep then ''public, max-age='' @ show_int (ttl_duration x ep div 1000000000) else ''no-store'')"

definition respond :: "externals \<Rightarrow> cached_body \<Rightarrow> endpoint_spec \<Rightarrow> header_map \<Rightarrow> response" where
  "respond x cb ep h =
     (let matched = (case h ''if-none-match'' of
                       Some inm \<Rightarrow> list_ex (\<lambda>t. trim t = cb_etag cb) (split_on (CHR '','') inm)
                     | None \<Rightarrow> False)
      in if matched then
           \<lparr>resp_status = 304, resp_headers = [(''etag'', cb_etag cb), (''cache-control'', cache_control x ep)],
            resp_body = NoBody\<rparr>
         else
           \<lparr>resp_status = 200,
            resp_headers = [(''content-type'', ''application/json''), (''etag'', cb_etag cb),
                            (''cache-control'', cache_control x ep)],
            resp_body = RawBody (cb_bytes cb)\<rparr>)"

subsection \<open>The handler\<close>

record request =
  rq_path :: "(string \<times> string) list"
  rq_query :: "string option"
  rq_uri_path :: string
  rq_identity :: "identity option"
  rq_headers :: header_map

definition caller_sub :: "request \<Rightarrow> string" where
  "caller_sub rq = (case rq_identity rq of Some i \<Rightarrow> i_sub i | None \<Rightarrow> [])"

definition caller_role :: "request \<Rightarrow> string" where
  "caller_role rq = (case rq_identity rq of Some i \<Rightarrow> i_role i | None \<Rightarrow> [])"

definition path_map :: "(string \<times> string) list \<Rightarrow> str_map" where
  "path_map kvs = fold (\<lambda>(k, v) m. m(k := Some v)) kvs (\<lambda>_. None)"

definition scope_query :: "('c, 'r) app \<Rightarrow> endpoint_spec \<Rightarrow> request \<Rightarrow> str_map \<Rightarrow> str_map api_result" where
  \<comment> \<open>self-tenant scoping: the server supplies the \<open>tenant\<close> bind\<close>
  "scope_query ap ep rq query =
     (if e_self_tenant ep \<and> admin_read_elevation ep (ap_admin_read_role ap) (caller_role rq) = None then
        (if caller_sub rq = [] then
           Inl (Forbidden ''this endpoint is self-tenant scoped and the caller has no subject'')
         else Inr (query(''tenant'' := Some (caller_sub rq))))
      else Inr query)"

definition effective_read_role :: "('c, 'r) app \<Rightarrow> endpoint_spec \<Rightarrow> request \<Rightarrow> string" where
  "effective_read_role ap ep rq =
     (case admin_read_elevation ep (ap_admin_read_role ap) (caller_role rq) of Some r \<Rightarrow> r | None \<Rightarrow> [])"

definition params_canon :: "string \<Rightarrow> bound \<Rightarrow> string" where
  "params_canon read_role bnd =
     (if read_role \<noteq> [] then b_canon bnd @ [CHR 0x01] @ ''admin_read='' @ read_role else b_canon bnd)"

definition compute_body :: "('c, 'r) app \<Rightarrow> endpoint_spec \<Rightarrow> request \<Rightarrow> bound \<Rightarrow> string api_result" where
  "compute_body ap ep rq bnd =
     (case ap_forward ap of
        Some fwd \<Rightarrow>
          produce_federated ap fwd (rq_uri_path rq) (rq_query rq) \<lparr>o_sub = caller_sub rq, o_role = caller_role rq\<rparr>
      | None \<Rightarrow> produce ap ep bnd (id_echo (path_map (rq_path rq))) (effective_read_role ap ep rq))"

definition serve_bound ::
  "('c, 'r) app \<Rightarrow> endpoint_spec \<Rightarrow> 'c cache_manager \<times> 'r \<Rightarrow> string \<Rightarrow> request \<Rightarrow> bound \<Rightarrow>
     ('c cache_manager \<times> 'r) \<times> response" where
  \<comment> \<open>from the bound query on: cache or compute, then respond\<close>
  "serve_bound ap ep cs rid rq bnd =
     (let ttl = ttl_duration (ap_ext ap) ep;
          (cs', body) =
            (if e_cache ep then
               get_or_compute (ap_stores ap) (fst cs) (snd cs)
                 \<lparr>k_endpoint = e_id ep, k_gen = generation (fst cs) (e_id ep),
                  k_canon = params_canon (effective_read_role ap ep rq) bnd\<rparr>
                 ttl True (compute_body ap ep rq bnd)
             else (cs, map_sum id (\<lambda>bytes. cached_body_new (ap_stores ap) bytes ttl) (compute_body ap ep rq bnd)))
      in (cs', case body of
                 Inr cb \<Rightarrow> respond (ap_ext ap) cb ep (rq_headers rq)
               | Inl e \<Rightarrow> into_response rid e))"

definition run_spec ::
  "('c, 'r) app \<Rightarrow> endpoint_spec \<Rightarrow> 'c cache_manager \<times> 'r \<Rightarrow> string \<Rightarrow> request \<Rightarrow>
     (('c cache_manager \<times> 'r) \<times> response) run" where
  "run_spec ap ep cs rid rq =
     (case parse_query (rq_query rq) of
        None \<Rightarrow> Panic
      | Some query0 \<Rightarrow>
          (case scope_query ap ep rq query0 of
             Inl e \<Rightarrow> ret (cs, into_response rid e)
           | Inr query \<Rightarrow>
               (case resolve (ap_ext ap) ep (path_map (rq_path rq)) query of
                  Inl e \<Rightarrow> ret (cs, into_response rid e)
                | Inr bnd \<Rightarrow> ret (serve_bound ap ep cs rid rq bnd))))"

section \<open>Decoding\<close>

definition pct_encode :: "string \<Rightarrow> string" where
  "pct_encode s = concat (map (\<lambda>c. [CHR ''%'', hex_digit (code c div 16), hex_digit (code c mod 16)]) s)"

definition encode_query :: "(string \<times> string) list \<Rightarrow> string" where
  "encode_query kvs = join ''&'' (map (\<lambda>(k, v). pct_encode k @ ''='' @ pct_encode v) kvs)"

lemma hex_val_digit: "0 \<le> n \<Longrightarrow> n < 16 \<Longrightarrow> hex_val (hex_digit n) = Some n"
  by (auto simp: hex_val_def is_ascii_digit_def hex_digit_code)

lemma pct_encode_simps [simp]:
  "pct_encode [] = []"
  "pct_encode (c # s) = CHR ''%'' # hex_digit (code c div 16) # hex_digit (code c mod 16) # pct_encode s"
  by (simp_all add: pct_encode_def)

lemma pct_encode_hd: "pct_encode s = [] \<or> hd (pct_encode s) = CHR ''%''"
  by (cases s) simp_all

lemma code_percent: "\<not> is_continuation (CHR ''%'')"
  by (simp add: is_continuation_def code_def)

lemma pct_decode_loop_encode: "pct_decode_loop (pct_encode s) = Some s"
proof (induction s)
  case (Cons c s)
  have "char_of (16 * (code c div 16) + code c mod 16) = c"
    by (simp add: code_def)
  moreover have "\<not> (pct_encode s \<noteq> [] \<and> is_continuation (hd (pct_encode s)))"
    using pct_encode_hd [of s] code_percent by auto
  ultimately show ?case using Cons nibbles [of c] by (simp add: hex_val_digit)
qed simp

lemma hex_digit_alnum: "is_ascii_alphanumeric (hex_digit (code c div 16))" "is_ascii_alphanumeric (hex_digit (code c mod 16))"
  using nibbles [of c] by (simp_all add: hex_digit_alphanumeric)

lemma alphanumeric_not: "is_ascii_alphanumeric c \<Longrightarrow> c \<noteq> CHR ''+'' \<and> c \<noteq> CHR ''&'' \<and> c \<noteq> CHR ''=''"
  by (auto simp: is_ascii_alphanumeric_def is_ascii_alphabetic_def is_ascii_upper_def is_ascii_lower_def
      is_ascii_digit_def code_def)

lemma pct_encode_clean: "c \<in> set (pct_encode s) \<Longrightarrow> c \<noteq> CHR ''+'' \<and> c \<noteq> CHR ''&'' \<and> c \<noteq> CHR ''=''"
  by (induction s) (auto simp: alphanumeric_not [OF hex_digit_alnum(1)] alphanumeric_not [OF hex_digit_alnum(2)])

lemma pct_decode_encode: "pct_decode (pct_encode s) = Some (utf8_lossy s)"
proof -
  have "map (\<lambda>c. if c = CHR ''+'' then CHR '' '' else c) (pct_encode s) = pct_encode s"
    using pct_encode_clean by (intro map_idI) auto
  then show ?thesis by (simp add: pct_decode_def pct_decode_loop_encode)
qed

lemma parse_pairs_encoded:
  "parse_pairs (map (\<lambda>(k, v). pct_encode k @ ''='' @ pct_encode v) kvs) out =
     Some (fold (\<lambda>(k, v) m. m(utf8_lossy k := Some (utf8_lossy v))) kvs out)"
proof (induction kvs arbitrary: out)
  case (Cons kv kvs)
  obtain k v where kv: "kv = (k, v)" by fastforce
  have "CHR ''='' \<notin> set (pct_encode k)" using pct_encode_clean by blast
  then have "split_once (CHR ''='') (pct_encode k @ CHR ''='' # pct_encode v) = Some (pct_encode k, pct_encode v)"
    by simp
  with Cons kv show ?case by (simp add: pct_decode_encode)
qed simp

text \<open>The query string is decoded faithfully.  Encoding any list of parameters byte by byte and parsing
  the result gives back every name and value, later ones overriding earlier ones; only bytes that are not UTF-8
  are replaced.\<close>

theorem query_roundtrip:
  "parse_query (Some (encode_query kvs)) =
     Some (fold (\<lambda>(k, v) m. m(utf8_lossy k := Some (utf8_lossy v))) kvs (\<lambda>_. None))"
proof (cases "kvs = []")
  case True
  then show ?thesis by (simp add: encode_query_def parse_query_def)
next
  case False
  have "CHR ''&'' \<notin> set y" if "y \<in> set (map (\<lambda>(k, v). pct_encode k @ ''='' @ pct_encode v) kvs)" for y
    using that by (auto dest: pct_encode_clean)
  then have "split_on (CHR ''&'') (encode_query kvs) = map (\<lambda>(k, v). pct_encode k @ ''='' @ pct_encode v) kvs"
    using False unfolding encode_query_def by (intro split_on_join) simp_all
  then show ?thesis by (simp add: parse_query_def parse_pairs_encoded [simplified])
qed

text \<open>A percent sign before a character that is not ASCII makes the decoder slice inside it.\<close>

lemma pct_decode_panics: "pct_decode [CHR ''%'', CHR ''a'', CHR 0xC3, CHR 0xA9] = None"
  by code_simp

section \<open>Tenants and roles\<close>

lemma rq_query_irrelevant [simp]:
  "caller_sub (rq\<lparr>rq_query := q\<rparr>) = caller_sub rq" "caller_role (rq\<lparr>rq_query := q\<rparr>) = caller_role rq"
  "effective_read_role ap ep (rq\<lparr>rq_query := q\<rparr>) = effective_read_role ap ep rq"
  "rq_headers (rq\<lparr>rq_query := q\<rparr>) = rq_headers rq"
  by (simp_all add: caller_sub_def caller_role_def effective_read_role_def)

text \<open>A client cannot choose its tenant.  On a self-tenant endpoint that is served locally and for a caller
  that does not elevate, two requests that differ only in the \<open>tenant\<close> parameter they send
  get the same response and leave the same cache.\<close>

theorem client_tenant_ignored:
  assumes "e_self_tenant ep" and "admin_read_elevation ep (ap_admin_read_role ap) (caller_role rq) = None"
    and "ap_forward ap = None"
    and "parse_query q = Some m" and "parse_query q' = Some m'" and "m(''tenant'' := None) = m'(''tenant'' := None)"
  shows "run_spec ap ep cs rid (rq\<lparr>rq_query := q\<rparr>) = run_spec ap ep cs rid (rq\<lparr>rq_query := q'\<rparr>)"
proof -
  have "m(''tenant'' := v) = m'(''tenant'' := v)" for v using assms(6) by (metis fun_upd_upd)
  then have s: "scope_query ap ep (rq\<lparr>rq_query := q\<rparr>) m = scope_query ap ep (rq\<lparr>rq_query := q'\<rparr>) m'"
    using assms(1,2) by (simp add: scope_query_def)
  have c: "compute_body ap ep (rq\<lparr>rq_query := q\<rparr>) bnd = compute_body ap ep (rq\<lparr>rq_query := q'\<rparr>) bnd" for bnd
    using assms(3) by (simp add: compute_body_def)
  have "serve_bound ap ep cs rid (rq\<lparr>rq_query := q\<rparr>) bnd = serve_bound ap ep cs rid (rq\<lparr>rq_query := q'\<rparr>) bnd" for bnd
    unfolding serve_bound_def c rq_query_irrelevant by (rule refl)
  then show ?thesis
    using assms(4,5) by (simp add: run_spec_def s split: sum.split)
qed

definition sample_app :: "((cache_key \<Rightarrow> cached_body option), (string \<Rightarrow> string option)) app" where
  \<comment> \<open>a database that answers with the role and the values it was asked under\<close>
  "sample_app =
     \<lparr>ap_stores = sample_stores, ap_ext = sample_ext, ap_admin_read_role = ''r'',
      ap_backends = (\<lambda>s t. Inr \<lparr>bk_kind = Postgres,
        bk_query = (\<lambda>q role. (0, Inr [[(''role'', JString role),
          (''v'', JString (concat (map (canon sample_ext) (bq_binds q))))]]))\<rparr>),
      ap_forward = None,
      ap_to_vec = (\<lambda>v. case v of
         JArray [JObject [(_, JString a), (_, JString b)]] \<Rightarrow> Inr (a @ ''/'' @ b) | _ \<Rightarrow> Inl ''unexpected''),
      ap_from_slice = (\<lambda>t. Inl ''eof'')\<rparr>"

definition sample_cache :: "((cache_key \<Rightarrow> cached_body option) cache_manager) \<times> (string \<Rightarrow> string option)" where
  "sample_cache = (new_manager (\<lambda>_. None) True (build_reverse [sample_spec]), \<lambda>_. None)"

definition sample_request :: "string \<Rightarrow> string \<Rightarrow> string option \<Rightarrow> request" where
  "sample_request sub role q =
     \<lparr>rq_path = [], rq_query = q, rq_uri_path = ''/t'',
      rq_identity = Some \<lparr>i_sub = sub, i_role = role, i_email = None, i_active = True, i_scopes = []\<rparr>,
      rq_headers = (\<lambda>_. None)\<rparr>"

theorem client_tenant_ignored_witness:
  "run_spec sample_app tenant_spec sample_cache [] (sample_request ''u1'' ''user'' (Some ''tenant=u2'')) =
   run_spec sample_app tenant_spec sample_cache [] (sample_request ''u1'' ''user'' None)"
proof -
  let ?rq = "sample_request ''u1'' ''user'' None"
  have e: "admin_read_elevation tenant_spec (ap_admin_read_role sample_app) (caller_role ?rq) = None" by code_simp
  have p: "parse_query (Some (''tenant='' @ ''u2'')) = Some ((\<lambda>_. None)(''tenant'' := Some ''u2''))"
  proof -
    have "pct_decode ''tenant'' = Some ''tenant''" "pct_decode ''u2'' = Some ''u2''" by code_simp+
    then show ?thesis by (simp add: parse_query_def)
  qed
  have "run_spec sample_app tenant_spec sample_cache [] (?rq\<lparr>rq_query := Some (''tenant='' @ ''u2'')\<rparr>) =
      run_spec sample_app tenant_spec sample_cache [] (?rq\<lparr>rq_query := None\<rparr>)"
    by (rule client_tenant_ignored [OF _ e _ p, where m' = "\<lambda>_. None"])
      (auto simp: tenant_spec_def sample_app_def parse_query_def)
  then show ?thesis by (simp add: sample_request_def)
qed

text \<open>C7: On a self-tenant endpoint the value bound for the tenant is the caller's own subject.  Whatever the
  client sends, a request of a caller that does not elevate is either refused or resolved with the
  \<open>tenant\<close> bind set to the non-empty subject of the authenticated identity, provided the endpoint
  declares \<open>tenant\<close> as an untransformed query parameter of type \<open>str\<close>.\<close>

theorem self_tenant_binds_caller:
  assumes "e_self_tenant ep" and "admin_read_elevation ep (ap_admin_read_role ap) (caller_role rq) = None"
    and "scope_query ap ep rq query = Inr scoped" and "resolve (ap_ext ap) ep path scoped = Inr b"
    and "distinct (map p_name (e_params ep))" and "p \<in> set (e_params ep)" and "p_name p = ''tenant''"
    and "p_kind p = QueryParam" and "p_ty p = ''str''" and "p_select p = []" and "p_transform p = TNone"
  shows "caller_sub rq \<noteq> [] \<and> b_value_map b ''tenant'' = Some (VText (caller_sub rq))"
proof -
  have sc: "caller_sub rq \<noteq> []" "scoped = query(''tenant'' := Some (caller_sub rq))"
    using assms(1-3) by (auto simp: scope_query_def split: if_splits)
  have raw: "raw_value (ap_ext ap) path scoped p = Some (caller_sub rq)"
    using sc(2) assms(7,8) by (simp add: raw_value_def)
  have ne: "\<not> is_enum p" using assms(9,10) by (simp add: is_enum_def)
  from assms(4) obtain st where st: "resolve_params (ap_ext ap) path scoped (e_params ep) empty_state = Inr st"
    by (auto simp: resolve_Inr)
  from resolve_params_each [OF st assms(6)] obtain v where v: "coerce (ap_ext ap) p (caller_sub rq) = Inr v"
    using raw ne by (auto simp: resolve_param_Inr)
  then have "v = VText (caller_sub rq)"
    using assms(9,11) by (auto simp: coerce_def Let_def split: option.splits if_splits)
  then have "param_out (ap_ext ap) path scoped p = Some (caller_sub rq, VText (caller_sub rq))"
    using raw ne v by (simp add: param_out_def)
  from resolve_value_map [OF assms(4-6) this] assms(7) sc(1) show ?thesis by simp
qed

theorem self_tenant_binds_caller_witness:
  "\<exists>b. resolve sample_ext tenant_spec (\<lambda>_. None) ((\<lambda>_. None)(''tenant'' := Some ''u1'')) = Inr b \<and>
     b_value_map b ''tenant'' = Some (VText ''u1'')"
proof -
  let ?rq = "sample_request ''u1'' ''user'' None" and ?q = "(\<lambda>_. None)(''tenant'' := Some ''u1'')"
  have e: "admin_read_elevation tenant_spec (ap_admin_read_role sample_app) (caller_role ?rq) = None" by code_simp
  have s: "scope_query sample_app tenant_spec ?rq ((\<lambda>_. None)(''tenant'' := Some ''u2'')) = Inr ?q"
  proof -
    have "e_self_tenant tenant_spec" "caller_sub ?rq = ''u1''" by code_simp+
    then show ?thesis by (simp add: scope_query_def e)
  qed
  have "map_sum id b_canon (resolve sample_ext tenant_spec (\<lambda>_. None) ?q) = Inr ''tenant=u1''" by code_simp
  then obtain b where b: "resolve sample_ext tenant_spec (\<lambda>_. None) ?q = Inr b" by (auto simp: map_sum_Inr)
  then have "resolve (ap_ext sample_app) tenant_spec (\<lambda>_. None) ?q = Inr b" by (simp add: sample_app_def)
  from self_tenant_binds_caller [OF _ e s this, where p = "text_param ''tenant''"] b
  show ?thesis by (auto simp: tenant_spec_def text_param_def caller_sub_def sample_request_def)
qed

lemma get_or_compute_error:
  "snd (get_or_compute s cm r key ttl use_l2 c) = Inl e \<Longrightarrow> fst (get_or_compute s cm r key ttl use_l2 c) = (cm, r)"
  by (auto simp: get_or_compute_def Let_def split: option.splits sum.splits)

lemma respond_no_error [simp]: "\<not> 400 \<le> resp_status (respond x cb ep h)"
  by (simp add: respond_def Let_def)

lemma serve_bound_error:
  assumes "serve_bound ap ep cs rid rq bnd = (cs', resp)" "400 \<le> resp_status resp"
  shows "cs' = cs"
proof (cases "e_cache ep")
  case True
  let ?g = "get_or_compute (ap_stores ap) (fst cs) (snd cs)
     \<lparr>k_endpoint = e_id ep, k_gen = generation (fst cs) (e_id ep),
      k_canon = params_canon (effective_read_role ap ep rq) bnd\<rparr>
     (ttl_duration (ap_ext ap) ep) True (compute_body ap ep rq bnd)"
  have sb: "cs' = fst ?g" "resp = (case snd ?g of Inr cb \<Rightarrow> respond (ap_ext ap) cb ep (rq_headers rq)
      | Inl e \<Rightarrow> into_response rid e)"
    using assms(1) True by (simp_all add: serve_bound_def Let_def split: prod.splits)
  have "\<exists>e. snd ?g = Inl e" using assms(2) by (cases "snd ?g") (simp_all add: sb(2))
  with sb(1) show ?thesis by (auto dest: get_or_compute_error)
next
  case False
  with assms(1) show ?thesis by (simp add: serve_bound_def Let_def)
qed

text \<open>Errors are never cached.  When a read is answered with an error status, both cache tiers are left
  exactly as they were.\<close>

theorem errors_not_cached:
  assumes "run_spec ap ep cs rid rq = Some (cs', resp)" and "400 \<le> resp_status resp"
  shows "cs' = cs"
  using assms(1)
  by (auto simp: run_spec_def serve_bound_error [OF _ assms(2)] split: option.splits sum.splits)

theorem errors_not_cached_witness:
  "\<exists>resp. run_spec sample_app tenant_spec sample_cache [] (sample_request [] ''user'' None) = Some (sample_cache, resp) \<and>
     resp_status resp = 403"
proof -
  let ?r = "run_spec sample_app tenant_spec sample_cache [] (sample_request [] ''user'' None)"
  have st: "map_option (\<lambda>(cs, resp). resp_status resp) ?r = Some 403" by code_simp
  then obtain cs resp where r: "?r = Some (cs, resp)" "resp_status resp = 403" by auto
  with errors_not_cached [OF r(1)] show ?thesis by simp
qed

section \<open>Elevated reads\<close>

text \<open>A body read across tenants is not shared.  Two requests to an endpoint have the same cache key text only
  when they read under the same role and have the same canonical parameters, as long as no parameter
  value contains the separator byte 1.\<close>

theorem elevated_key_separate:
  assumes "params_canon role b = params_canon role' b'"
    and "CHR 0x01 \<notin> set (b_canon b)" and "CHR 0x01 \<notin> set (b_canon b')"
  shows "role = role' \<and> b_canon b = b_canon b'"
proof (cases "role = [] \<or> role' = []")
  case True
  with assms show ?thesis
    by (auto simp: params_canon_def split: if_splits dest: arg_cong [where f = set] arg_cong [where f = set, OF sym])
next
  case False
  have "split_once (CHR 0x01) (params_canon r c) = Some (b_canon c, ''admin_read='' @ r)"
    if "r \<noteq> []" "CHR 0x01 \<notin> set (b_canon c)" for r c
    using that by (simp add: params_canon_def)
  from this [of role b] this [of role' b'] False assms show ?thesis by simp
qed

theorem elevated_key_separate_witness:
  "\<exists>b. resolve sample_ext sample_spec (\<lambda>_. None) [''a'' \<mapsto> ''x''] = Inr b \<and> params_canon ''r'' b \<noteq> params_canon [] b"
proof -
  have c: "map_sum id b_canon (resolve sample_ext sample_spec (\<lambda>_. None) [''a'' \<mapsto> ''x'']) = Inr ''a=x''" by code_simp
  then obtain b where b: "resolve sample_ext sample_spec (\<lambda>_. None) [''a'' \<mapsto> ''x''] = Inr b" "b_canon b = ''a=x''"
    by (auto simp: map_sum_Inr)
  with elevated_key_separate [of "''r''" b "[]" b] show ?thesis by auto
qed

text \<open>With that byte in a value the separation is lost: after an administrator's cross-tenant read, an ordinary
  user who appends the suffix of the elevated key to the parameter gets the administrator's body.\<close>

lemma forged_key_reads_elevated_body:
  "let ep = sample_spec\<lparr>e_admin_cross_tenant := True\<rparr>;
       admin = sample_request ''boss'' ''admin'' (Some ''a=x'');
       user = sample_request ''u1'' ''user'' (Some ''a=x%01admin_read=r'')
   in map_option (\<lambda>(cs, resp). map_option (\<lambda>(cs', resp'). (resp_body resp, resp_body resp')) (run_spec sample_app ep cs [] user))
        (run_spec sample_app ep sample_cache [] admin) = Some (Some (RawBody ''r/x'', RawBody ''r/x''))"
  by code_simp

end
