(* ===== verification/Config.thy ===== *)
theory Config
  imports Api_Error
begin

text \<open>
  Runtime configuration (\<open>config.rs\<close>): reading the \<open>LUMID_\<close> environment
  variables with their defaults and numeric casts, the list-valued settings
  (peers, LLM rosters, the OpenRouter model map) and the settings of every
  plane.

  The environment is an argument, a partial map from variable names to
  values.  The flat \<open>Settings\<close> struct is grouped by its comment sections into one
  record per plane.  Case conversion is the ASCII one.
\<close>

section \<open>Reading the environment\<close>

type_synonym environment = "string \<Rightarrow> string option"

definition env_var :: "environment \<Rightarrow> string \<Rightarrow> string option" where
  "env_var env name = env (''LUMID_'' @ name)"

definition env_str :: "environment \<Rightarrow> string \<Rightarrow> string \<Rightarrow> string" where
  "env_str env name def = (case env_var env name of Some v \<Rightarrow> v | None \<Rightarrow> def)"

definition parse_u64 :: "string \<Rightarrow> int option" where
  "parse_u64 s =
     (case s of
        [] \<Rightarrow> None
      | c # cs \<Rightarrow>
          let ds = (if c = CHR ''+'' then cs else s)
          in if digits_text ds \<and> int_of_digits ds < 2 ^ 64 then Some (int_of_digits ds) else None)"

definition env_u32 :: "environment \<Rightarrow> string \<Rightarrow> int \<Rightarrow> int" where
  "env_u32 env name def =
     (case env_var env name of
        Some v \<Rightarrow> (case parse_u32 v of Some n \<Rightarrow> n | None \<Rightarrow> def)
      | None \<Rightarrow> def)"

definition env_u64 :: "environment \<Rightarrow> string \<Rightarrow> int \<Rightarrow> int" where
  "env_u64 env name def =
     (case env_var env name of
        Some v \<Rightarrow> (case parse_u64 v of Some n \<Rightarrow> n | None \<Rightarrow> def)
      | None \<Rightarrow> def)"

definition as_u16 :: "int \<Rightarrow> int" where
  "as_u16 n = n mod 2 ^ 16"

definition truthy :: "string \<Rightarrow> bool" where
  "truthy v \<longleftrightarrow> to_lowercase v \<in> {''1'', ''true'', ''yes''}"

definition trim_end_slashes :: "string \<Rightarrow> string" where
  "trim_end_slashes s = rev (dropWhile (\<lambda>c. c = CHR ''/'') (rev s))"

definition comma_list :: "string \<Rightarrow> string list" where
  "comma_list s = filter (\<lambda>x. x \<noteq> []) (map trim (split_on (CHR '','') s))"

definition entries :: "string \<Rightarrow> (string \<times> string) list" where
  \<comment> \<open>the \<open>key=value\<close> entries of a list separated by semicolons\<close>
  "entries s = List.map_filter (\<lambda>e. split_once (CHR ''='') (trim e)) (split_on (CHR '';'') s)"

definition opt_setting :: "string option \<Rightarrow> string option" where
  "opt_setting v =
     (case v of Some s \<Rightarrow> if trim s \<noteq> [] then Some (trim s) else None | None \<Rightarrow> None)"

section \<open>Peers and LLM rosters\<close>

record peer =
  peer_id :: string
  peer_base_url :: string
  peer_token :: string

definition token_var :: "string \<Rightarrow> string" where
  "token_var pid =
     ''PEER_'' @ map (\<lambda>c. if is_ascii_alphanumeric c then c else CHR ''_'')
       (filter (\<lambda>c. \<not> is_continuation c) (to_uppercase pid)) @ ''_TOKEN''"

definition parse_peer :: "(string \<Rightarrow> string option) \<Rightarrow> string \<times> string \<Rightarrow> peer option" where
  "parse_peer read_env e =
     (let pid = trim (fst e); url = trim_end_slashes (trim (snd e))
      in if pid = [] \<or> url = [] then None
         else Some \<lparr>peer_id = pid, peer_base_url = url,
                    peer_token = (case read_env (token_var pid) of Some t \<Rightarrow> t | None \<Rightarrow> [])\<rparr>)"

definition parse_peers :: "string \<Rightarrow> (string \<Rightarrow> string option) \<Rightarrow> peer list" where
  "parse_peers raw read_env = List.map_filter (parse_peer read_env) (entries raw)"

definition parse_llm_backends :: "string \<Rightarrow> (string \<times> string list) list" where
  "parse_llm_backends s =
     filter (\<lambda>(m, urls). m \<noteq> [] \<and> urls \<noteq> [])
       (map (\<lambda>(m, us). (trim m, filter (\<lambda>u. u \<noteq> []) (map (\<lambda>u. trim_end_slashes (trim u)) (split_on (CHR '','') us))))
         (entries s))"

definition parse_model_map :: "string \<Rightarrow> (string, string) hash_map" where
  \<comment> \<open>collected into a map: the last entry of an id wins\<close>
  "parse_model_map s =
     fold (\<lambda>(l, r). hm_insert l r)
       (filter (\<lambda>(l, r). l \<noteq> [] \<and> r \<noteq> []) (map (\<lambda>(l, r). (trim l, trim r)) (entries s))) []"

section \<open>The settings\<close>

record db_settings =
  db_host :: string
  db_port :: int
  db_user :: string
  db_password :: string
  db_name :: string
  pool_max :: int
  statement_timeout_ms :: int
  ohlc_row_cap :: int
  bind_addr :: string

record ch_settings =
  ch_url :: string
  ch_user :: string
  ch_password :: string
  ch_database :: string

record auth_settings =
  lumid_url :: string
  lumid_enabled :: bool
  lumid_cache_ttl_s :: int
  lumid_timeout_s :: int
  api_keys_raw :: string
  rate_limit_anon :: string
  rate_limit_authed :: string
  max_concurrency_per_key :: int
  max_concurrency_per_ip :: int
  redis_url :: string
  quotes_max_symbols :: int

record blob_settings =
  blob_root :: string
  blob_max_bytes :: int
  ingest_max_bytes :: int
  blob_public_base_url :: string
  blob_backend :: string
  blob_s3_endpoint :: string
  blob_s3_bucket :: string
  blob_s3_region :: string
  blob_s3_access_key :: string
  blob_s3_secret_key :: string

record rt_settings =
  rt_heartbeat_sec :: int
  rt_ws_lifetime_syms :: int
  rt_sse_request_syms :: int
  rt_slowclient_queue :: int
  rt_tier_b_poll_sec :: int
  rt_news_poll_sec :: int
  rt_channel_kinds :: "string list"
  rt_synthetic :: bool
  rt_warm_symbols :: "string list"

record llm_settings =
  llm_backend_url :: string
  llm_default_model :: string
  llm_backends :: "(string \<times> string list) list"
  llm_backend_max_concurrency :: int
  llm_backend_queue_roof :: int
  llm_short_prompt_tokens :: int
  llm_hedge_after_s :: int
  llm_max_body_bytes :: int
  llm_openrouter_url :: string
  llm_openrouter_key :: string
  llm_openrouter_model_map :: "(string, string) hash_map"
  llm_api_key :: string

record retrieval_settings =
  user_schemas :: "string list"
  retrieval_card_ttl_s :: int
  retrieval_stmt_timeout_ms :: int
  retrieval_row_cap :: int
  retrieval_prefix :: string
  retrieval_sample_rows :: int
  retrieval_db_role :: string
  admin_read_role :: string

record sync_settings =
  sync_target_url :: string
  sync_target_token :: string
  sync_peer_id :: string
  sync_peer_labels :: "string list"
  sync_batch_rows :: int
  sync_max_attempts :: int
  sync_backoff_ms :: int

record mesh_settings =
  instance_id :: string
  app_id :: string
  peers :: "peer list"
  read_federate :: "string option"
  llm_federate :: "string option"
  shadow_cache_ttl_s :: int

record settings =
  s_db :: db_settings
  s_ch :: ch_settings
  s_auth :: auth_settings
  s_blob :: blob_settings
  s_rt :: rt_settings
  s_llm :: llm_settings
  s_retrieval :: retrieval_settings
  s_sync :: sync_settings
  s_mesh :: mesh_settings

definition db_from_env :: "environment \<Rightarrow> db_settings" where
  "db_from_env env =
     \<lparr>db_host = env_str env ''DB_HOST'' ''127.0.0.1'',
      db_port = as_u16 (env_u32 env ''DB_PORT'' 5433),
      db_user = env_str env ''DB_USER'' ''postgres'',
      db_password = env_str env ''DB_PASSWORD'' '''',
      db_name = env_str env ''DB_NAME'' ''postgres'',
      pool_max = env_u32 env ''POOL_MAX'' 20,
      statement_timeout_ms = env_u32 env ''STATEMENT_TIMEOUT_MS'' 30000,
      ohlc_row_cap = env_u32 env ''OHLC_ROW_CAP'' 200000,
      bind_addr = env_str env ''BIND_ADDR'' ''0.0.0.0:8088''\<rparr>"

definition ch_from_env :: "environment \<Rightarrow> ch_settings" where
  "ch_from_env env =
     \<lparr>ch_url = env_str env ''CLICKHOUSE_URL'' '''',
      ch_user = env_str env ''CLICKHOUSE_USER'' ''default'',
      ch_password = env_str env ''CLICKHOUSE_PASSWORD'' '''',
      ch_database = env_str env ''CLICKHOUSE_DB'' ''default''\<rparr>"

definition auth_from_env :: "environment \<Rightarrow> auth_settings" where
  "auth_from_env env =
     \<lparr>lumid_url = env_str env ''AUTH_URL'' ''https://lum.id'',
      lumid_enabled = truthy (env_str env ''AUTH_ENABLED'' ''true''),
      lumid_cache_ttl_s = env_u32 env ''AUTH_CACHE_TTL'' 300,
      lumid_timeout_s = env_u32 env ''AUTH_TIMEOUT_S'' 5,
      api_keys_raw = env_str env ''API_KEYS'' '''',
      rate_limit_anon = env_str env ''RATE_LIMIT_ANON'' ''60/minute'',
      rate_limit_authed = env_str env ''RATE_LIMIT_AUTHED'' ''600/minute'',
      max_concurrency_per_key = env_u32 env ''MAX_CONCURRENCY_PER_KEY'' 0,
      max_concurrency_per_ip = env_u32 env ''MAX_CONCURRENCY_PER_IP'' 0,
      redis_url = env_str env ''REDIS_URL'' '''',
      quotes_max_symbols = env_u32 env ''RT_SSE_REQUEST_SYMS'' 100\<rparr>"

definition blob_from_env :: "environment \<Rightarrow> blob_settings" where
  "blob_from_env env =
     \<lparr>blob_root = env_str env ''BLOB_ROOT'' ''/app/blobs'',
      blob_max_bytes = env_u64 env ''BLOB_MAX_BYTES'' (100 * 1024 * 1024),
      ingest_max_bytes = env_u64 env ''INGEST_MAX_BYTES'' (256 * 1024 * 1024),
      blob_public_base_url = env_str env ''BLOB_PUBLIC_BASE_URL'' '''',
      blob_backend = env_str env ''BLOB_BACKEND'' ''localfs'',
      blob_s3_endpoint = env_str env ''BLOB_S3_ENDPOINT'' '''',
      blob_s3_bucket = env_str env ''BLOB_S3_BUCKET'' '''',
      blob_s3_region = env_str env ''BLOB_S3_REGION'' ''us-east-1'',
      blob_s3_access_key = env_str env ''BLOB_S3_ACCESS_KEY'' '''',
      blob_s3_secret_key = env_str env ''BLOB_S3_SECRET_KEY'' ''''\<rparr>"

definition rt_from_env :: "environment \<Rightarrow> rt_settings" where
  "rt_from_env env =
     \<lparr>rt_heartbeat_sec = env_u32 env ''RT_HEARTBEAT_SEC'' 30,
      rt_ws_lifetime_syms = env_u32 env ''RT_WS_LIFETIME_SYMS'' 500,
      rt_sse_request_syms = env_u32 env ''RT_SSE_REQUEST_SYMS'' 100,
      rt_slowclient_queue = env_u32 env ''RT_SLOWCLIENT_QUEUE'' 100,
      rt_tier_b_poll_sec = env_u32 env ''RT_TIER_B_POLL_SEC'' 5,
      rt_news_poll_sec = env_u32 env ''RT_NEWS_POLL_SEC'' 60,
      rt_channel_kinds = comma_list (env_str env ''RT_CHANNEL_KINDS'' ''tick,news''),
      rt_synthetic = truthy (env_str env ''RT_SYNTHETIC'' ''''),
      rt_warm_symbols = map to_uppercase (comma_list (env_str env ''RT_WARM_SYMBOLS'' ''''))\<rparr>"

definition llm_from_env :: "environment \<Rightarrow> llm_settings" where
  "llm_from_env env =
     \<lparr>llm_backend_url = env_str env ''LLM_BACKEND_URL'' '''',
      llm_default_model = env_str env ''LLM_DEFAULT_MODEL'' '''',
      llm_backends = parse_llm_backends (env_str env ''LLM_BACKENDS'' ''''),
      llm_backend_max_concurrency = env_u32 env ''LLM_BACKEND_MAX_CONCURRENCY'' 16,
      llm_backend_queue_roof = env_u32 env ''LLM_BACKEND_QUEUE_ROOF'' 1,
      llm_short_prompt_tokens = env_u32 env ''LLM_SHORT_PROMPT_TOKENS'' 0,
      llm_hedge_after_s = env_u32 env ''LLM_HEDGE_AFTER_S'' 0,
      llm_max_body_bytes = env_u32 env ''LLM_MAX_BODY_BYTES'' (8 * 1024 * 1024),
      llm_openrouter_url = trim_end_slashes (env_str env ''LLM_OPENROUTER_URL'' ''''),
      llm_openrouter_key = env_str env ''LLM_OPENROUTER_KEY'' '''',
      llm_openrouter_model_map = parse_model_map (env_str env ''LLM_OPENROUTER_MODEL_MAP'' ''''),
      llm_api_key = env_str env ''LLM_API_KEY'' ''''\<rparr>"

definition retrieval_from_env :: "environment \<Rightarrow> retrieval_settings" where
  "retrieval_from_env env =
     \<lparr>user_schemas = comma_list (env_str env ''USER_SCHEMAS'' ''''),
      retrieval_card_ttl_s = env_u64 env ''RETRIEVAL_CARD_TTL_S'' 300,
      retrieval_stmt_timeout_ms = env_u32 env ''RETRIEVAL_STMT_TIMEOUT_MS'' 30000,
      retrieval_row_cap = env_u64 env ''RETRIEVAL_ROW_CAP'' 1000000,
      retrieval_prefix = env_str env ''RETRIEVAL_PREFIX'' ''retrievals'',
      retrieval_sample_rows = env_u32 env ''RETRIEVAL_SAMPLE_ROWS'' 5,
      retrieval_db_role = env_str env ''RETRIEVAL_DB_ROLE'' '''',
      admin_read_role = env_str env ''ADMIN_READ_ROLE'' ''''\<rparr>"

definition sync_from_env :: "environment \<Rightarrow> sync_settings" where
  "sync_from_env env =
     \<lparr>sync_target_url = trim_end_slashes (env_str env ''SYNC_TARGET_URL'' ''''),
      sync_target_token = env_str env ''SYNC_TARGET_TOKEN'' '''',
      sync_peer_id = env_str env ''SYNC_PEER_ID'' '''',
      sync_peer_labels = comma_list (env_str env ''SYNC_PEER_LABELS'' ''''),
      sync_batch_rows = env_u64 env ''SYNC_BATCH_ROWS'' 1000,
      sync_max_attempts = env_u32 env ''SYNC_MAX_ATTEMPTS'' 5,
      sync_backoff_ms = env_u64 env ''SYNC_BACKOFF_MS'' 500\<rparr>"

definition mesh_from_env :: "environment \<Rightarrow> mesh_settings" where
  "mesh_from_env env =
     \<lparr>instance_id = env_str env ''INSTANCE_ID'' ''local'',
      app_id = env_str env ''APP_ID'' ''findata'',
      peers = parse_peers (env_str env ''PEERS'' '''') (env_var env),
      read_federate = opt_setting (env_var env ''READ_FEDERATE''),
      llm_federate = opt_setting (env_var env ''LLM_FEDERATE''),
      shadow_cache_ttl_s = env_u64 env ''SHADOW_CACHE_TTL_S'' 30\<rparr>"

definition from_env :: "environment \<Rightarrow> settings" where
  "from_env env =
     \<lparr>s_db = db_from_env env, s_ch = ch_from_env env, s_auth = auth_from_env env, s_blob = blob_from_env env,
      s_rt = rt_from_env env, s_llm = llm_from_env env, s_retrieval = retrieval_from_env env,
      s_sync = sync_from_env env, s_mesh = mesh_from_env env\<rparr>"

section \<open>What the parsers guarantee\<close>

lemma trim_end_Cons: "\<not> is_whitespace c \<Longrightarrow> trim_end (c # cs) = c # trim_end cs"
  by (auto simp: trim_end_def dropWhile_append)

lemma trim_start_cases: "trim_start s = [] \<or> (\<exists>c cs. trim_start s = c # cs \<and> \<not> is_whitespace c)"
  by (cases "trim_start s") (auto simp: trim_start_def dropWhile_eq_Cons_conv)

lemma trim_end_idem [simp]: "trim_end (trim_end s) = trim_end s"
  by (simp add: trim_end_def)

lemma trim_trim [simp]: "trim (trim s) = trim s"
proof (cases "trim_start s = []")
  case True
  then have "trim s = []" by (simp add: trim_def trim_end_def)
  moreover have "trim [] = []" by (simp add: trim_def trim_end_def trim_start_def)
  ultimately show ?thesis by simp
next
  case False
  then obtain c cs where "trim_start s = c # cs" "\<not> is_whitespace c" using trim_start_cases by blast
  then have "trim s = c # trim_end cs" "trim_start (trim s) = trim s"
    by (simp_all add: trim_def trim_end_Cons trim_start_def)
  then show ?thesis by (metis trim_def trim_end_idem)
qed

lemma parse_model_map_keys:
  assumes "map_of (parse_model_map s) l = Some r"
  shows "l \<noteq> [] \<and> r \<noteq> [] \<and> trim l = l"
proof -
  have "e \<in> set (fold (\<lambda>(l, r). hm_insert l r) es m) \<Longrightarrow> e \<in> set es \<or> e \<in> set m"
    for e :: "string \<times> string" and es m
    by (induction es arbitrary: m) (auto dest: set_hm_insert)
  from this [OF map_of_SomeD [OF assms, unfolded parse_model_map_def]] show ?thesis by auto
qed

lemma llm_backends_wf:
  "(m, us) \<in> set (parse_llm_backends s) \<Longrightarrow> m \<noteq> [] \<and> trim m = m \<and> us \<noteq> [] \<and> [] \<notin> set us"
  by (auto simp: parse_llm_backends_def)

text \<open>A port number above the 16-bit range is reduced, not refused.\<close>

lemma port_wraps: "db_port (db_from_env ((\<lambda>_. None)(''LUMID_DB_PORT'' := Some ''70000''))) = 4464"
  by code_simp

end
