(* ===== verification/Llm_Pool.thy ===== *)
theory Llm_Pool
  imports Config "HOL-Library.Multiset"
begin

text \<open>
  The pool of LLM backends (\<open>llm_pool.rs\<close>): the per-backend state with its
  circuit breaker, its two load roofs and its throughput window, the interning
  of configured URLs into shared handles, the routing order, the health
  prober, and the scraper with its metrics parser.

  Handles are shared (\<open>Arc\<close>) between the models that list them: the pool keeps
  them in one store \<open>bp_all\<close> and refers to them by index.  Signed casts of the
  configured 32-bit limits are written out.  Times are nanoseconds.  The rates
  computed from the throughput window for display are not modelled.
\<close>

definition as_i32 :: "int \<Rightarrow> int" where
  "as_i32 n = (n + 2 ^ 31) mod 2 ^ 32 - 2 ^ 31"

definition CIRCUIT_OPEN_AFTER :: int where "CIRCUIT_OPEN_AFTER = 3"

definition THROUGHPUT_WINDOW :: int where "THROUGHPUT_WINDOW = 300 * 1000000000"

record throughput_sample =
  ts_at :: int
  ts_generation_tokens :: int
  ts_requests_success :: "int option"
  ts_inflight :: int

record backend_handle =
  h_url :: string
  h_inflight :: int
  h_healthy :: bool
  h_failures :: int
  h_max_concurrency :: int
  h_queue_depth :: int
  h_queue_roof :: int
  h_tier :: int
  h_short_tier :: "int option"
  h_short_roof :: int
  h_samples :: "throughput_sample list"

definition handle_new :: "string \<Rightarrow> int \<Rightarrow> int \<Rightarrow> int \<Rightarrow> backend_handle" where
  "handle_new url max_concurrency queue_roof tier =
     \<lparr>h_url = url, h_inflight = 0, h_healthy = True, h_failures = 0, h_max_concurrency = max_concurrency,
      h_queue_depth = -1, h_queue_roof = queue_roof, h_tier = tier, h_short_tier = None, h_short_roof = 0,
      h_samples = []\<rparr>"

subsection \<open>One backend\<close>

definition effective_tier :: "bool \<Rightarrow> backend_handle \<Rightarrow> int" where
  "effective_tier short h =
     (case h_short_tier h of
        Some t \<Rightarrow> if short \<and> h_inflight h < as_i32 (h_short_roof h) then t else h_tier h
      | None \<Rightarrow> h_tier h)"

fun evict_old :: "int \<Rightarrow> throughput_sample list \<Rightarrow> throughput_sample list" where
  "evict_old now (s # t # r) = (if THROUGHPUT_WINDOW < now - ts_at s then evict_old now (t # r) else s # t # r)"
| "evict_old now r = r"

definition push_throughput_sample :: "int \<Rightarrow> int \<Rightarrow> int option \<Rightarrow> backend_handle \<Rightarrow> backend_handle" where
  "push_throughput_sample now tokens requests h =
     h\<lparr>h_samples := evict_old now (h_samples h @
        [\<lparr>ts_at = now, ts_generation_tokens = tokens, ts_requests_success = requests, ts_inflight = h_inflight h\<rparr>])\<rparr>"

definition peak_inflight_in_window :: "backend_handle \<Rightarrow> int option" where
  "peak_inflight_in_window h =
     (if h_samples h = [] then None else Some (fold max (map ts_inflight (tl (h_samples h))) (ts_inflight (hd (h_samples h)))))"

definition set_queue_depth :: "int \<Rightarrow> backend_handle \<Rightarrow> backend_handle" where
  "set_queue_depth n h = h\<lparr>h_queue_depth := n\<rparr>"

definition at_queue_roof :: "backend_handle \<Rightarrow> bool" where
  "at_queue_roof h \<longleftrightarrow>
     h_queue_roof h \<noteq> 0 \<and> 0 \<le> h_queue_depth h \<and> as_i32 (h_queue_roof h) \<le> h_queue_depth h"

definition at_roof :: "backend_handle \<Rightarrow> bool" where
  "at_roof h \<longleftrightarrow>
     at_queue_roof h \<or> h_max_concurrency h \<noteq> 0 \<and> as_i32 (h_max_concurrency h) \<le> h_inflight h"

definition acquire_slot :: "backend_handle \<Rightarrow> backend_handle" where
  "acquire_slot h = h\<lparr>h_inflight := as_i32 (h_inflight h + 1)\<rparr>"

definition drop_slot :: "backend_handle \<Rightarrow> backend_handle" where
  "drop_slot h = h\<lparr>h_inflight := as_i32 (h_inflight h - 1)\<rparr>"

definition on_connect_ok :: "backend_handle \<Rightarrow> backend_handle" where
  "on_connect_ok h = h\<lparr>h_failures := 0, h_healthy := True\<rparr>"

definition on_connect_err :: "backend_handle \<Rightarrow> backend_handle" where
  "on_connect_err h =
     (let n = (h_failures h + 1) mod 2 ^ 32
      in h\<lparr>h_failures := n, h_healthy := (if CIRCUIT_OPEN_AFTER \<le> n then False else h_healthy h)\<rparr>)"

subsection \<open>Configuration suffixes\<close>

definition suffix_entry :: "string \<Rightarrow> string \<Rightarrow> string option" where
  \<comment> \<open>the trimmed value when the piece is \<open>key = value\<close> for this key\<close>
  "suffix_entry key kv =
     (case split_once (CHR ''='') kv of
        Some (k, v) \<Rightarrow> if trim k = key then Some (trim v) else None
      | None \<Rightarrow> None)"

definition parse_suffix :: "string \<Rightarrow> string \<times> int \<times> int option" where
  "parse_suffix url =
     (case split_once (CHR ''#'') url of
        Some (base, suffix) \<Rightarrow>
          (let (tier, maxc) =
             fold (\<lambda>kv (tier, maxc).
                 case suffix_entry ''tier'' kv of
                   Some v \<Rightarrow> ((case parse_u32 v of Some n \<Rightarrow> n | None \<Rightarrow> 0), maxc)
                 | None \<Rightarrow>
                     (case suffix_entry ''max_concurrency'' kv of
                        Some v \<Rightarrow> (tier, parse_u32 v)
                      | None \<Rightarrow> (tier, maxc)))
               (split_on (CHR ''&'') suffix) (0, None)
           in (base, tier, maxc))
      | None \<Rightarrow> (url, 0, None))"

definition parse_short_suffix :: "string \<Rightarrow> int option \<times> int" where
  "parse_short_suffix url =
     (case split_once (CHR ''#'') url of
        None \<Rightarrow> (None, 0)
      | Some (_, suffix) \<Rightarrow>
          (case fold (\<lambda>kv (t, r).
                 case suffix_entry ''short_tier'' kv of
                   Some v \<Rightarrow> (parse_u32 v, r)
                 | None \<Rightarrow>
                     (case suffix_entry ''short_roof'' kv of Some v \<Rightarrow> (t, parse_u32 v) | None \<Rightarrow> (t, r)))
               (split_on (CHR ''&'') suffix) (None, None) of
             (Some t, Some r) \<Rightarrow> if 0 < r then (Some t, r) else (None, 0)
           | _ \<Rightarrow> (None, 0)))"

subsection \<open>The pool\<close>

record backend_pool =
  bp_by_model :: "(string, nat list) hash_map"
  bp_primary :: "nat option"
  bp_all :: "backend_handle list"
  bp_openrouter_url :: string

record intern_state =
  is_all :: "backend_handle list"
  is_seen :: "string \<Rightarrow> nat option"

definition intern :: "int \<Rightarrow> int \<Rightarrow> string \<Rightarrow> intern_state \<Rightarrow> intern_state \<times> nat" where
  "intern default_max queue_roof url st =
     (case parse_suffix url of
        (base, tier, maxc) \<Rightarrow>
          (let key = trim_end_slashes base
           in case is_seen st key of
                Some i \<Rightarrow> (st, i)
              | None \<Rightarrow>
                  (let h = handle_new key (case maxc of Some m \<Rightarrow> m | None \<Rightarrow> default_max) queue_roof tier;
                       h = h\<lparr>h_short_tier := fst (parse_short_suffix url), h_short_roof := snd (parse_short_suffix url)\<rparr>;
                       i = length (is_all st)
                   in (\<lparr>is_all = is_all st @ [h], is_seen = (is_seen st)(key := Some i)\<rparr>, i))))"

fun intern_all :: "int \<Rightarrow> int \<Rightarrow> string list \<Rightarrow> intern_state \<Rightarrow> intern_state \<times> nat list" where
  "intern_all d q [] st = (st, [])"
| "intern_all d q (u # us) st =
     (case intern d q u st of (st1, i) \<Rightarrow> (case intern_all d q us st1 of (st2, is') \<Rightarrow> (st2, i # is')))"

fun intern_models ::
  "int \<Rightarrow> int \<Rightarrow> (string \<times> string list) list \<Rightarrow> intern_state \<Rightarrow> (string, nat list) hash_map \<Rightarrow>
     intern_state \<times> (string, nat list) hash_map" where
  "intern_models d q [] st bm = (st, bm)"
| "intern_models d q ((model, urls) # ms) st bm =
     (case intern_all d q urls st of
        (st1, hs) \<Rightarrow> intern_models d q ms st1 (if hs \<noteq> [] then hm_insert model hs bm else bm))"

definition intern_backends :: "string \<Rightarrow> (string \<times> string list) list \<Rightarrow> int \<Rightarrow> int \<Rightarrow> string \<Rightarrow> backend_pool" where
  \<comment> \<open>the roster first, then the primary: the first entry of a URL wins\<close>
  "intern_backends primary_url backends default_max queue_roof openrouter_url =
     (case intern_models default_max queue_roof backends \<lparr>is_all = [], is_seen = (\<lambda>_. None)\<rparr> [] of
        (st, bm) \<Rightarrow>
          if primary_url = [] then
            \<lparr>bp_by_model = bm, bp_primary = None, bp_all = is_all st, bp_openrouter_url = openrouter_url\<rparr>
          else
            (case intern default_max queue_roof primary_url st of
               (st', i) \<Rightarrow>
                 \<lparr>bp_by_model = bm, bp_primary = Some i, bp_all = is_all st', bp_openrouter_url = openrouter_url\<rparr>))"

definition from_settings :: "llm_settings \<Rightarrow> backend_pool" where
  "from_settings s =
     intern_backends (llm_backend_url s) (llm_backends s) (llm_backend_max_concurrency s)
       (llm_backend_queue_roof s) (llm_openrouter_url s)"

definition candidates :: "backend_pool \<Rightarrow> string option \<Rightarrow> nat list option" where
  "candidates bp model =
     (case (case model of Some m \<Rightarrow> map_of (bp_by_model bp) m | None \<Rightarrow> None) of
        Some hs \<Rightarrow> Some hs
      | None \<Rightarrow>
          if model \<noteq> None \<and> bp_by_model bp \<noteq> [] then None
          else (case bp_primary bp of Some i \<Rightarrow> Some [i] | None \<Rightarrow> None))"

definition route_key :: "bool \<Rightarrow> backend_handle \<Rightarrow> bool \<times> bool \<times> int \<times> int" where
  "route_key short h = (\<not> h_healthy h, at_roof h, effective_tier short h, h_inflight h)"

definition backends_for_class :: "backend_pool \<Rightarrow> string option \<Rightarrow> bool \<Rightarrow> nat list" where
  "backends_for_class bp model short =
     (case candidates bp model of
        None \<Rightarrow> []
      | Some hs \<Rightarrow> sort_key (\<lambda>i. route_key short (bp_all bp ! i)) hs)"

definition backends_for :: "backend_pool \<Rightarrow> string option \<Rightarrow> nat list" where
  "backends_for bp model = backends_for_class bp model False"

definition on_handle :: "nat \<Rightarrow> (backend_handle \<Rightarrow> backend_handle) \<Rightarrow> backend_pool \<Rightarrow> backend_pool" where
  "on_handle i f bp = bp\<lparr>bp_all := (bp_all bp)[i := f (bp_all bp ! i)]\<rparr>"

subsection \<open>Background tasks\<close>

definition probe_one :: "nat option \<Rightarrow> backend_handle \<Rightarrow> backend_handle" where
  \<comment> \<open>the status of the answer to the health probe, if there is an answer\<close>
  "probe_one answer h =
     (case answer of Some status \<Rightarrow> if status < 500 then on_connect_ok h else on_connect_err h | None \<Rightarrow> on_connect_err h)"

definition probe_tick :: "(string \<Rightarrow> nat option) \<Rightarrow> backend_pool \<Rightarrow> backend_pool" where
  "probe_tick health bp =
     bp\<lparr>bp_all := map (\<lambda>h. if \<not> h_healthy h then probe_one (health (h_url h)) h else h) (bp_all bp)\<rparr>"

definition last_word :: "string \<Rightarrow> string" where
  "last_word line = last (split_on (CHR '' '') line)"

definition lines :: "string \<Rightarrow> string list" where
  \<comment> \<open>the callers trim every line, so a trailing empty line and a carriage return make no difference\<close>
  "lines body = split_on (CHR 0x0A) body"

definition waiting_line :: "string \<Rightarrow> (f64 \<times> bool) \<times> (f64 \<times> bool) \<Rightarrow> (f64 \<times> bool) \<times> (f64 \<times> bool)" where
  "waiting_line line0 acc =
     (case acc of
        ((capacity, capacity_seen), (aggregate, aggregate_seen)) \<Rightarrow>
          (let line = trim line0
           in if starts_with line ''#'' \<or> \<not> starts_with line ''vllm:num_requests_waiting'' then acc
              else
                (case parse_f64 (last_word line) of
                   None \<Rightarrow> acc
                 | Some v \<Rightarrow>
                     if starts_with line ''vllm:num_requests_waiting_by_reason'' then
                       (if contains line (''reason='' @ [CHR 0x22] @ ''capacity'' @ [CHR 0x22])
                        then ((f64_add capacity v, True), (aggregate, aggregate_seen)) else acc)
                     else ((capacity, capacity_seen), (f64_add aggregate v, True)))))"

definition parse_num_requests_waiting :: "string \<Rightarrow> int option" where
  "parse_num_requests_waiting body =
     (case fold waiting_line (lines body) ((f64_zero, False), (f64_zero, False)) of
        ((capacity, capacity_seen), (aggregate, aggregate_seen)) \<Rightarrow>
          if capacity_seen then Some (f64_round_to (- (2 ^ 31)) (2 ^ 31 - 1) capacity)
          else if aggregate_seen then Some (f64_round_to (- (2 ^ 31)) (2 ^ 31 - 1) aggregate)
          else None)"

definition counter_line :: "string \<Rightarrow> (f64 \<times> bool) \<times> (f64 \<times> bool) \<Rightarrow> (f64 \<times> bool) \<times> (f64 \<times> bool)" where
  "counter_line line0 acc =
     (case acc of
        ((gen, gen_seen), (req, req_seen)) \<Rightarrow>
          (let line = trim line0
           in if line = [] \<or> starts_with line ''#'' then acc
              else
                (case parse_f64 (last_word line) of
                   None \<Rightarrow> acc
                 | Some v \<Rightarrow>
                     if starts_with line ''vllm:generation_tokens_total'' \<or>
                        starts_with line ''tensorfold:generation_tokens_total'' \<or>
                        starts_with line ''llamacpp:tokens_predicted_total''
                     then ((f64_add gen v, True), (req, req_seen))
                     else if starts_with line ''vllm:request_success_total''
                     then ((gen, gen_seen), (f64_add req v, True))
                     else acc)))"

definition parse_throughput_counters :: "string \<Rightarrow> (int \<times> int option) option" where
  "parse_throughput_counters body =
     (case fold counter_line (lines body) ((f64_zero, False), (f64_zero, False)) of
        ((gen, gen_seen), (req, req_seen)) \<Rightarrow>
          if \<not> gen_seen then None
          else Some (f64_round_to 0 (2 ^ 64 - 1) gen,
                     if req_seen then Some (f64_round_to 0 (2 ^ 64 - 1) req) else None))"

definition scrape_one :: "int \<Rightarrow> (string \<Rightarrow> string option) \<Rightarrow> backend_handle \<Rightarrow> backend_handle" where
  "scrape_one now metrics h =
     (if \<not> h_healthy h then set_queue_depth (-1) h
      else
        (let body = metrics (h_url h);
             h1 = set_queue_depth
                    (case body of
                       Some b \<Rightarrow> (case parse_num_requests_waiting b of Some n \<Rightarrow> n | None \<Rightarrow> -1)
                     | None \<Rightarrow> -1) h
         in case (case body of Some b \<Rightarrow> parse_throughput_counters b | None \<Rightarrow> None) of
              Some (tokens, requests) \<Rightarrow> push_throughput_sample now tokens requests h1
            | None \<Rightarrow> h1))"

definition scrape_tick :: "int \<Rightarrow> (string \<Rightarrow> string option) \<Rightarrow> backend_pool \<Rightarrow> backend_pool" where
  "scrape_tick now metrics bp = bp\<lparr>bp_all := map (scrape_one now metrics) (bp_all bp)\<rparr>"

section \<open>The routing order\<close>

lemma as_i32_small: "- (2 ^ 31) \<le> n \<Longrightarrow> n < 2 ^ 31 \<Longrightarrow> as_i32 n = n"
  by (simp add: as_i32_def)

lemma backends_for_class_perm:
  "candidates bp model = Some hs \<Longrightarrow>
     mset (backends_for_class bp model short) = mset hs \<and>
     sorted (map (\<lambda>i. route_key short (bp_all bp ! i)) (backends_for_class bp model short))"
  by (simp add: backends_for_class_def)

definition available :: "backend_handle \<Rightarrow> bool" where
  "available h \<longleftrightarrow> h_healthy h \<and> \<not> at_roof h"

lemma route_key_available_le:
  assumes "route_key short h \<le> route_key short g" "available g"
  shows "available h \<and> (effective_tier short h, h_inflight h) \<le> (effective_tier short g, h_inflight g)"
  using assms by (auto simp: route_key_def available_def less_eq_prod_def less_prod_def)

text \<open>The best backend is tried first.  The backends tried for a model are exactly the configured ones; when one of
  them is healthy and below its roofs, so is the first one tried, and no other available backend has
  a lower tier for the request, or the same tier and fewer requests in flight.\<close>

theorem best_backend_first:
  assumes "candidates bp model = Some hs" and "g \<in> set hs" and "available (bp_all bp ! g)"
  shows "\<exists>i rest. backends_for_class bp model short = i # rest \<and> mset (i # rest) = mset hs \<and>
    available (bp_all bp ! i) \<and>
    (effective_tier short (bp_all bp ! i), h_inflight (bp_all bp ! i)) \<le>
      (effective_tier short (bp_all bp ! g), h_inflight (bp_all bp ! g))"
proof -
  note p = backends_for_class_perm [OF assms(1), of short]
  then have mem: "g \<in> set (backends_for_class bp model short)" using assms(2) by (metis set_mset_mset)
  then obtain i rest where ir: "backends_for_class bp model short = i # rest"
    by (cases "backends_for_class bp model short") auto
  have "route_key short (bp_all bp ! i) \<le> route_key short (bp_all bp ! g)"
    using p mem by (auto simp: ir)
  from route_key_available_le [OF this assms(3)] ir p show ?thesis by auto
qed

definition sample_pool :: backend_pool where
  "sample_pool = intern_backends ''http://b''
     [(''m'', [''http://a/#tier=1&max_concurrency=4'', ''http://b#tier=0''])] 8 0 ''http://or''"

theorem best_backend_first_witness:
  "\<exists>rest. backends_for_class sample_pool (Some ''m'') False = 1 # rest"
proof -
  have c: "candidates sample_pool (Some ''m'') = Some [0, 1]" by code_simp
  have a: "available (bp_all sample_pool ! 1)" "available (bp_all sample_pool ! 0)" by code_simp+
  have t: "effective_tier False (bp_all sample_pool ! 1) = 0" "effective_tier False (bp_all sample_pool ! 0) = 1"
    by code_simp+
  obtain i rest where i: "backends_for_class sample_pool (Some ''m'') False = i # rest" "mset (i # rest) = mset [0, 1]"
    "(effective_tier False (bp_all sample_pool ! i), h_inflight (bp_all sample_pool ! i)) \<le>
      (effective_tier False (bp_all sample_pool ! 1), h_inflight (bp_all sample_pool ! 1))"
    using best_backend_first [OF c _ a(1), where short = False] by auto
  have "i \<in> set [0, 1]" using i(2) by (metis list.set_intros(1) set_mset_mset)
  then have "i = 0 \<or> i = 1" by simp
  with i(3) t have "i = 1" by (auto simp: less_eq_prod_def)
  with i(1) show ?thesis by blast
qed

section \<open>The circuit breaker\<close>

fun apply_outcome :: "bool \<Rightarrow> backend_handle \<Rightarrow> backend_handle" where
  "apply_outcome True h = on_connect_ok h"
| "apply_outcome False h = on_connect_err h"

definition trailing_errors :: "bool list \<Rightarrow> nat" where
  "trailing_errors os = length (takeWhile Not (rev os))"

lemma trailing_errors_snoc [simp]:
  "trailing_errors [] = 0" "trailing_errors (os @ [True]) = 0" "trailing_errors (os @ [False]) = Suc (trailing_errors os)"
  by (simp_all add: trailing_errors_def)

lemma trailing_errors_le: "trailing_errors os \<le> length os"
  by (metis length_rev length_takeWhile_le trailing_errors_def)

text \<open>C35: The circuit breaker is exact.  After any sequence of connection outcomes on a fresh backend, the failure
  counter is the number of errors since the last success, and the backend is out of rotation
  exactly when these are three or more.\<close>

theorem circuit_breaker_exact:
  assumes "length os < 2 ^ 32"
  shows "let h = fold apply_outcome os (handle_new url mc qr tier)
    in h_failures h = int (trailing_errors os) \<and> (h_healthy h \<longleftrightarrow> trailing_errors os < 3)"
  using assms
proof (induction os rule: rev_induct)
  case Nil
  then show ?case by (simp add: handle_new_def)
next
  case (snoc outcome os)
  let ?h = "fold apply_outcome os (handle_new url mc qr tier)"
  have ih: "h_failures ?h = int (trailing_errors os)" "h_healthy ?h \<longleftrightarrow> trailing_errors os < 3"
    using snoc by (simp_all add: Let_def)
  have "trailing_errors os < 2 ^ 32 - 1" using snoc.prems trailing_errors_le [of os] by simp
  then have "(int (trailing_errors os) + 1) mod 2 ^ 32 = int (trailing_errors os) + 1" by simp
  with ih show ?case
    by (cases outcome) (auto simp: on_connect_ok_def on_connect_err_def CIRCUIT_OPEN_AFTER_def Let_def)
qed

theorem circuit_breaker_exact_witness:
  "\<not> h_healthy (fold apply_outcome [True, False, False, False] (handle_new ''u'' 8 0 0)) \<and>
   h_failures (fold apply_outcome [True, False, False, False] (handle_new ''u'' 8 0 0)) = 3"
  using circuit_breaker_exact [of "[True, False, False, False]" "''u''" 8 0 0]
  by (simp add: Let_def trailing_errors_def)

section \<open>Limits\<close>

lemma at_roof_below_2_31:
  "0 \<le> h_max_concurrency h \<Longrightarrow> h_max_concurrency h < 2 ^ 31 \<Longrightarrow> h_queue_roof h = 0 \<Longrightarrow>
     at_roof h \<longleftrightarrow> h_max_concurrency h \<noteq> 0 \<and> h_max_concurrency h \<le> h_inflight h"
  by (simp add: at_roof_def at_queue_roof_def as_i32_small)

text \<open>A concurrency limit of \<open>2 ^ 31\<close> or more is cast to a negative number: an idle backend counts as full.\<close>

lemma huge_limit_is_full:
  "2 ^ 31 \<le> h_max_concurrency h \<Longrightarrow> h_max_concurrency h < 2 ^ 32 \<Longrightarrow> 0 \<le> h_inflight h \<Longrightarrow> at_roof h"
proof -
  assume a: "2 ^ 31 \<le> h_max_concurrency h" "h_max_concurrency h < 2 ^ 32" "0 \<le> h_inflight h"
  have "(h_max_concurrency h + 2 ^ 31) mod 2 ^ 32 = h_max_concurrency h - 2 ^ 31"
  proof -
    have "h_max_concurrency h + 2 ^ 31 = (h_max_concurrency h - 2 ^ 31) + 2 ^ 32" by simp
    then have "(h_max_concurrency h + 2 ^ 31) mod 2 ^ 32 = (h_max_concurrency h - 2 ^ 31) mod 2 ^ 32"
      by (simp only: mod_add_self2)
    with a show ?thesis by simp
  qed
  with a show ?thesis by (auto simp: at_roof_def as_i32_def)
qed

section \<open>Interning\<close>

definition wf_intern :: "intern_state \<Rightarrow> bool" where
  "wf_intern st \<longleftrightarrow>
     distinct (map h_url (is_all st)) \<and>
     (\<forall>k i. is_seen st k = Some i \<longleftrightarrow> i < length (is_all st) \<and> h_url (is_all st ! i) = k) \<and>
     (\<forall>h\<in>set (is_all st). CHR ''#'' \<notin> set (h_url h))"

lemma set_trim_end_slashes: "set (trim_end_slashes s) \<subseteq> set s"
  using set_dropWhileD by (fastforce simp: trim_end_slashes_def)

lemma parse_suffix_base: "parse_suffix url = (base, tier, maxc) \<Longrightarrow> CHR ''#'' \<notin> set base"
  by (auto simp: parse_suffix_def Let_def dest: split_once_Some simp: split_once_None split: option.splits prod.splits)

lemma wf_intern_seen_new:
  assumes "wf_intern st" "is_seen st k = None"
  shows "k \<notin> set (map h_url (is_all st))"
proof
  assume "k \<in> set (map h_url (is_all st))"
  then obtain i where "i < length (is_all st)" "h_url (is_all st ! i) = k" by (auto simp: in_set_conv_nth)
  with assms show False unfolding wf_intern_def by (metis option.distinct(1))
qed

lemma wf_intern_append:
  assumes wf: "wf_intern st" and new: "is_seen st (h_url h) = None" and clean: "CHR ''#'' \<notin> set (h_url h)"
  shows "wf_intern \<lparr>is_all = is_all st @ [h], is_seen = (is_seen st)(h_url h := Some (length (is_all st)))\<rparr>"
proof -
  have notin: "h_url h \<notin> set (map h_url (is_all st))" by (rule wf_intern_seen_new [OF wf new])
  have seen: "((is_seen st)(h_url h := Some (length (is_all st)))) k = Some i \<longleftrightarrow>
      i < length (is_all st @ [h]) \<and> h_url ((is_all st @ [h]) ! i) = k" for k i
  proof (cases "i < length (is_all st)")
    case True
    then have "h_url (is_all st ! i) \<noteq> h_url h" using notin by (metis length_map nth_map nth_mem)
    with True wf show ?thesis by (auto simp: wf_intern_def nth_append)
  next
    case False
    with wf show ?thesis by (auto simp: wf_intern_def nth_append less_Suc_eq)
  qed
  show ?thesis using wf notin clean seen by (simp add: wf_intern_def)
qed

lemma intern_wf:
  assumes "intern d q url st = (st', i)" "wf_intern st"
  shows "wf_intern st' \<and> i < length (is_all st') \<and> (\<exists>hs. is_all st' = is_all st @ hs) \<and>
    h_url (is_all st' ! i) = trim_end_slashes (fst (parse_suffix url))"
proof -
  obtain base tier maxc where p: "parse_suffix url = (base, tier, maxc)" by (cases "parse_suffix url") auto
  let ?k = "trim_end_slashes base"
  show ?thesis
  proof (cases "is_seen st ?k")
    case (Some j)
    with assms p show ?thesis by (auto simp: intern_def wf_intern_def)
  next
    case None
    let ?h = "(handle_new ?k (case maxc of Some m \<Rightarrow> m | None \<Rightarrow> d) q tier)
      \<lparr>h_short_tier := fst (parse_short_suffix url), h_short_roof := snd (parse_short_suffix url)\<rparr>"
    have u: "h_url ?h = ?k" by (simp add: handle_new_def)
    have st': "st' = \<lparr>is_all = is_all st @ [?h], is_seen = (is_seen st)(?k := Some (length (is_all st)))\<rparr>"
      "i = length (is_all st)"
      using assms(1) p None by (auto simp: intern_def Let_def)
    have "CHR ''#'' \<notin> set ?k" using parse_suffix_base [OF p] set_trim_end_slashes by blast
    with wf_intern_append [OF assms(2), of ?h] None u st' p show ?thesis by (simp add: nth_append)
  qed
qed

lemma intern_all_wf:
  "intern_all d q us st = (st', is') \<Longrightarrow> wf_intern st \<Longrightarrow>
     wf_intern st' \<and> (\<forall>i\<in>set is'. i < length (is_all st')) \<and> (\<exists>hs. is_all st' = is_all st @ hs)"
proof (induction us arbitrary: st st' is')
  case (Cons u us)
  obtain st1 i where 1: "intern d q u st = (st1, i)" by fastforce
  obtain st2 js where 2: "intern_all d q us st1 = (st2, js)" by fastforce
  note w1 = intern_wf [OF 1 Cons.prems(2)]
  with Cons.IH [OF 2] have w2: "wf_intern st2 \<and> (\<forall>i\<in>set js. i < length (is_all st2)) \<and>
      (\<exists>hs. is_all st2 = is_all st1 @ hs)" by blast
  have eq: "st' = st2" "is' = i # js" using Cons.prems(1) 1 2 by auto
  from w1 w2 show ?case unfolding eq by (auto simp: trans_less_add1)
qed auto

definition wf_models :: "(string, nat list) hash_map \<Rightarrow> nat \<Rightarrow> bool" where
  "wf_models bm n \<longleftrightarrow> (\<forall>(m, hs)\<in>set bm. hs \<noteq> [] \<and> (\<forall>i\<in>set hs. i < n))"

lemma wf_models_mono: "wf_models bm n \<Longrightarrow> n \<le> n' \<Longrightarrow> wf_models bm n'"
  by (fastforce simp: wf_models_def)

lemma wf_models_insert:
  "wf_models bm n \<Longrightarrow> hs \<noteq> [] \<Longrightarrow> (\<forall>i\<in>set hs. i < n) \<Longrightarrow> wf_models (hm_insert m hs bm) n"
  by (auto simp: wf_models_def hm_insert_def)

lemma intern_models_wf:
  "intern_models d q ms st bm = (st', bm') \<Longrightarrow> wf_intern st \<Longrightarrow> wf_models bm (length (is_all st)) \<Longrightarrow>
     wf_intern st' \<and> wf_models bm' (length (is_all st'))"
proof (induction ms arbitrary: st bm)
  case (Cons mu ms)
  obtain m us where mu: "mu = (m, us)" by fastforce
  obtain st1 hs where 1: "intern_all d q us st = (st1, hs)" by fastforce
  note w = intern_all_wf [OF 1 Cons.prems(2)]
  then have bm: "wf_models bm (length (is_all st1))" using Cons.prems(3) wf_models_mono by fastforce
  then have "wf_models (if hs \<noteq> [] then hm_insert m hs bm else bm) (length (is_all st1))"
    using w by (simp add: wf_models_insert)
  with Cons w 1 mu show ?case by simp
qed simp


text \<open>A primary URL that is already in the roster adds no handle: the roster's tier and limits stay.\<close>

lemma roster_wins_example:
  "map (\<lambda>h. (h_url h, h_tier h, h_max_concurrency h)) (bp_all sample_pool) =
     [(''http://a'', 1, 4), (''http://b'', 0, 8)] \<and> bp_primary sample_pool = Some 1"
  by code_simp

lemma scrape_unhealthy_never_queue_roof: "\<not> h_healthy h \<Longrightarrow> \<not> at_queue_roof (scrape_one now metrics h)"
  by (simp add: scrape_one_def set_queue_depth_def at_queue_roof_def)

end
