(* ===== verification/Llm_Route.thy ===== *)
theory Llm_Route
  imports Llm_Pool Auth_Gate
begin

text \<open>
  The LLM reverse proxy (\<open>handlers/llm.rs\<close>) up to its streaming relay: the
  adjustments of the request body, the choice between the federation peer, the
  local pool and OpenRouter, the retry loops over local backends, the
  dispatchers and the route handlers.

  The HTTP client is an argument: \<open>net n rq\<close> is what the \<open>n\<close>-th outbound request
  of the handler gets, either no response at all or a status, headers and a
  body that may fail to be read.  A handler runs on a world that holds the
  backend pool and the log of outbound requests, each tagged with its target.
  The functions of \<open>serde_json\<close> and of the client's text decoding are collected
  in \<open>llm_ext\<close>.  Log lines are left out.
\<close>

section \<open>Requests, answers, worlds\<close>

record http_request =
  hr_method :: string
  hr_url :: string
  hr_headers :: "(string \<times> string) list"
  hr_json :: "json option"
  hr_raw :: "string option"

datatype http_outcome =
    NoAnswer bool  \<comment> \<open>whether it was a timeout\<close>
  | Answered nat "(string \<times> string) list" "string option"

type_synonym network = "nat \<Rightarrow> http_request \<Rightarrow> http_outcome"

datatype target = ToLocal nat | ToRouter | ToPeer | ToCatalog

record llm_world =
  lw_pool :: backend_pool
  lw_calls :: "(target \<times> http_request) list"

record llm_ext =
  lx_from_slice :: "string \<Rightarrow> json option"
  lx_to_string :: "json \<Rightarrow> string"
  lx_to_vec :: "json \<Rightarrow> string option"
  lx_text :: "(string \<times> string) list \<Rightarrow> string \<Rightarrow> string"

definition send :: "network \<Rightarrow> target \<Rightarrow> http_request \<Rightarrow> llm_world \<Rightarrow> http_outcome \<times> llm_world" where
  "send net t rq w = (net (length (lw_calls w)) rq, w\<lparr>lw_calls := lw_calls w @ [(t, rq)]\<rparr>)"

definition with_handle :: "nat \<Rightarrow> (backend_handle \<Rightarrow> backend_handle) \<Rightarrow> llm_world \<Rightarrow> llm_world" where
  "with_handle i f w = w\<lparr>lw_pool := on_handle i f (lw_pool w)\<rparr>"

section \<open>The request body\<close>

definition json_get :: "string \<Rightarrow> json \<Rightarrow> json option" where
  "json_get k v = (case v of JObject kvs \<Rightarrow> map_of kvs k | _ \<Rightarrow> None)"

definition json_put :: "string \<Rightarrow> json \<Rightarrow> json \<Rightarrow> json" where
  "json_put k x v = (case v of JObject kvs \<Rightarrow> JObject (hm_insert k x kvs) | _ \<Rightarrow> v)"

definition as_str :: "json option \<Rightarrow> string option" where
  "as_str v = (case v of Some (JString s) \<Rightarrow> Some s | _ \<Rightarrow> None)"

definition model_of :: "json \<Rightarrow> string option" where
  "model_of body =
     (case as_str (json_get ''model'' body) of
        Some s \<Rightarrow> if trim s \<noteq> [] then Some (trim s) else None
      | None \<Rightarrow> None)"

definition apply_default_model :: "llm_settings \<Rightarrow> json \<Rightarrow> json" where
  "apply_default_model s body =
     (let needs_default =
            (case json_get ''model'' body of
               None \<Rightarrow> True | Some JNull \<Rightarrow> True | Some (JString m) \<Rightarrow> m = [] | Some _ \<Rightarrow> False)
      in if needs_default \<and> llm_default_model s \<noteq> [] then json_put ''model'' (JString (llm_default_model s)) body
         else body)"

definition thinking_disabled :: "json \<Rightarrow> bool" where
  "thinking_disabled body =
     (case json_get ''thinking'' body of
        Some t \<Rightarrow> (case as_str (json_get ''type'' t) of Some s \<Rightarrow> eq_ignore_case s ''disabled'' | None \<Rightarrow> False)
      | None \<Rightarrow> False)"

definition apply_thinking_control :: "json \<Rightarrow> json" where
  "apply_thinking_control body =
     (if \<not> thinking_disabled body then body
      else
        (let ctk = (case json_get ''chat_template_kwargs'' body of Some c \<Rightarrow> c | None \<Rightarrow> JObject []);
             ctk' = (if json_get ''thinking'' ctk = None then json_put ''thinking'' (JBool False) ctk else ctk)
         in json_put ''chat_template_kwargs'' ctk' body))"

definition wants_stream :: "json \<Rightarrow> bool" where
  "wants_stream body \<longleftrightarrow> json_get ''stream'' body = Some (JBool True)"

definition rewrite_model_for_openrouter :: "llm_settings \<Rightarrow> json \<Rightarrow> json" where
  "rewrite_model_for_openrouter s body =
     (case model_of body of
        None \<Rightarrow> body
      | Some local \<Rightarrow>
          (case map_of (llm_openrouter_model_map s) local of
             None \<Rightarrow> body
           | Some or_id \<Rightarrow> json_put ''model'' (JString or_id) body))"

definition require_object :: "json \<Rightarrow> json api_result" where
  "require_object body =
     (case body of JObject kvs \<Rightarrow> Inr body | _ \<Rightarrow> Inl (BadRequest ''request body must be a JSON object''))"

section \<open>Outbound authentication\<close>

definition bearer :: "string \<Rightarrow> (string \<times> string) list" where
  "bearer key = (if key = [] then [] else [(''Authorization'', ''Bearer '' @ key)])"

definition add_auth :: "llm_settings \<Rightarrow> (string \<times> string) list" where
  "add_auth s = bearer (llm_api_key s)"

definition openrouter_key :: "llm_settings \<Rightarrow> string" where
  "openrouter_key s = (if llm_openrouter_key s \<noteq> [] then llm_openrouter_key s else llm_api_key s)"

definition add_openrouter_auth :: "llm_settings \<Rightarrow> (string \<times> string) list" where
  "add_openrouter_auth s = bearer (openrouter_key s)"

definition origin_of :: "identity option \<Rightarrow> string \<times> string" where
  "origin_of ident = (case ident of Some i \<Rightarrow> (i_sub i, i_role i) | None \<Rightarrow> ([], []))"

definition apply_peer_auth :: "settings \<Rightarrow> peer \<Rightarrow> string \<times> string \<Rightarrow> (string \<times> string) list" where
  "apply_peer_auth st p origin =
     bearer (peer_token p) @
     [(''x-lumid-origin-sub'', fst origin), (''x-lumid-origin-role'', snd origin), (''x-lumid-app'', app_id (s_mesh st))]"

definition find_peer :: "peer list \<Rightarrow> string \<Rightarrow> peer option" where
  \<comment> \<open>the registry is a map by id: the last peer of an id wins\<close>
  "find_peer ps pid = map_of (rev (map (\<lambda>p. (peer_id p, p)) ps)) pid"

definition federation_peer :: "settings \<Rightarrow> peer option api_result" where
  "federation_peer st =
     (case llm_federate (s_mesh st) of
        None \<Rightarrow> Inr None
      | Some pid \<Rightarrow>
          (case find_peer (peers (s_mesh st)) pid of
             Some p \<Rightarrow> Inr (Some p)
           | None \<Rightarrow> Inl (Unavailable (''LUMID_LLM_FEDERATE='' @ pid @ '' names no configured peer (check LUMID_PEERS)''))))"

section \<open>Responses\<close>

definition json_response :: "nat \<Rightarrow> json \<Rightarrow> response" where
  "json_response status v = \<lparr>resp_status = status, resp_headers = [], resp_body = JsonBody v\<rparr>"

definition detail_response :: "nat \<Rightarrow> string \<Rightarrow> response" where
  "detail_response status d = json_response status (detail (JString d))"

definition sse_response :: "string \<Rightarrow> response" where
  "sse_response body =
     \<lparr>resp_status = 200, resp_headers = [(''content-type'', ''text/event-stream''), (''cache-control'', ''no-cache'')],
      resp_body = RawBody body\<rparr>"

fun take_chars :: "nat \<Rightarrow> string \<Rightarrow> string" where
  "take_chars 0 s = []"
| "take_chars (Suc n) [] = []"
| "take_chars (Suc n) (c # cs) = c # takeWhile is_continuation cs @ take_chars n (dropWhile is_continuation cs)"

definition relay_json :: "llm_ext \<Rightarrow> string \<Rightarrow> nat \<Rightarrow> string \<Rightarrow> response" where
  "relay_json x label status bytes =
     (case lx_from_slice x bytes of
        Some payload \<Rightarrow> json_response status payload
      | None \<Rightarrow> json_response status
          (JObject [(''error'', JString label), (''raw'', JString (take_chars 1024 (utf8_lossy bytes)))]))"

definition error_frame :: "llm_ext \<Rightarrow> (string \<times> json) list \<Rightarrow> string" where
  "error_frame x kvs = ''data: '' @ lx_to_string x (JObject kvs) @ [CHR 0x0A, CHR 0x0A]"

definition status_frame :: "llm_ext \<Rightarrow> bool \<Rightarrow> nat \<Rightarrow> (string \<times> string) list \<Rightarrow> string option \<Rightarrow> string" where
  \<comment> \<open>the error frame for an upstream status, its text cut to 1024 characters or not\<close>
  "status_frame x trunc status hs body =
     (let t = (case body of Some b \<Rightarrow> lx_text x hs b | None \<Rightarrow> [])
      in error_frame x [(''error'', JString (if trunc then take_chars 1024 t else t)),
                        (''status'', JNumber (NInt (int status)))])"

section \<open>The federation peer\<close>

definition proxy_json_peer ::
  "llm_ext \<Rightarrow> network \<Rightarrow> settings \<Rightarrow> peer \<Rightarrow> string \<Rightarrow> string \<Rightarrow> json option \<Rightarrow> string \<times> string \<Rightarrow> llm_world \<Rightarrow>
     response \<times> llm_world" where
  "proxy_json_peer x net st p meth path body origin w =
     (case send net ToPeer
             \<lparr>hr_method = meth, hr_url = trim_end_slashes (peer_base_url p) @ path,
              hr_headers = apply_peer_auth st p origin, hr_json = body, hr_raw = None\<rparr> w of
        (NoAnswer timeout, w1) \<Rightarrow>
          (if timeout then (detail_response 504 ''upstream LLM timed out'', w1)
           else (detail_response 502 ''upstream LLM unreachable'', w1))
      | (Answered status hs bytes, w1) \<Rightarrow>
          (case bytes of
             None \<Rightarrow> (detail_response 502 ''upstream LLM unreachable'', w1)
           | Some b \<Rightarrow> (relay_json x ''non-json upstream response'' status b, w1)))"

section \<open>Resolving a model\<close>

definition llm_caller_role :: "identity option \<Rightarrow> string" where
  "llm_caller_role ident = (case ident of Some i \<Rightarrow> i_role i | None \<Rightarrow> ''local'')"

definition openrouter_serves :: "(string, string) hash_map \<Rightarrow> string \<Rightarrow> string \<Rightarrow> bool" where
  "openrouter_serves m url model \<longleftrightarrow> url \<noteq> [] \<and> map_of m model \<noteq> None"

definition can_overflow_to_openrouter :: "(string, string) hash_map \<Rightarrow> string \<Rightarrow> string option \<Rightarrow> bool" where
  "can_overflow_to_openrouter m url model =
     (case model of Some k \<Rightarrow> openrouter_serves m url k | None \<Rightarrow> False)"

definition role_may_use_metered_openrouter_model :: "string \<Rightarrow> bool" where
  "role_may_use_metered_openrouter_model role \<longleftrightarrow> role \<in> {''admin'', ''super_admin'', ''local''}"

definition is_short_prompt :: "llm_ext \<Rightarrow> int \<Rightarrow> json \<Rightarrow> bool" where
  "is_short_prompt x threshold body \<longleftrightarrow>
     threshold \<noteq> 0 \<and>
     (case lx_to_vec x body of Some b \<Rightarrow> int (length b) | None \<Rightarrow> 2 ^ 64 - 1) div 4 < threshold"

definition em_dash :: string where
  "em_dash = [CHR 0xE2, CHR 0x80, CHR 0x94]"

definition is_claude :: "string option \<Rightarrow> bool" where
  "is_claude model = (case model of Some m \<Rightarrow> starts_with (to_lowercase m) ''claude-'' | None \<Rightarrow> False)"

definition llm_resolve ::
  "settings \<Rightarrow> backend_pool \<Rightarrow> string option \<Rightarrow> string \<Rightarrow> bool \<Rightarrow> nat list option api_result" where
  "llm_resolve st bp model role short =
     (if is_claude model then
        Inl (Unavailable (''Claude models are served by the Anthropic pool via claude-proxy, not here '' @ em_dash @
               '' refusing (never OpenRouter)''))
      else
        (let backends = backends_for_class bp model short;
             m = llm_openrouter_model_map (s_llm st); url = bp_openrouter_url bp
         in if backends \<noteq> [] then
              (let all_at_roof = 0 < llm_backend_max_concurrency (s_llm st) \<and>
                                 list_all (\<lambda>i. at_roof (bp_all bp ! i)) backends;
                   all_down = list_all (\<lambda>i. \<not> h_healthy (bp_all bp ! i)) backends
               in if (all_at_roof \<or> all_down) \<and> can_overflow_to_openrouter m url model then Inr None
                  else Inr (Some backends))
            else
              (case model of
                 Some k \<Rightarrow>
                   if openrouter_serves m url k then
                     (if role_may_use_metered_openrouter_model role then Inr None
                      else Inl (Forbidden (''model '' @ debug_str k @
                             '' requires admin access on this platform (metered, no local backend)'')))
                   else Inl (Unavailable (''unknown model '' @ debug_str k @ '' '' @ em_dash @
                          '' not in LUMID_LLM_BACKENDS nor LUMID_LLM_OPENROUTER_MODEL_MAP (unrecognised ids are never forwarded to OpenRouter)''))
               | None \<Rightarrow> Inl (Unavailable ''LLM backend not configured (LUMID_LLM_BACKEND_URL is empty)''))))"

section \<open>OpenRouter\<close>

definition router_request :: "settings \<Rightarrow> backend_pool \<Rightarrow> string \<Rightarrow> string \<Rightarrow> json option \<Rightarrow> http_request" where
  "router_request st bp meth path body =
     \<lparr>hr_method = meth, hr_url = bp_openrouter_url bp @ path, hr_headers = add_openrouter_auth (s_llm st),
      hr_json = body, hr_raw = None\<rparr>"

definition proxy_json_openrouter ::
  "llm_ext \<Rightarrow> network \<Rightarrow> settings \<Rightarrow> string \<Rightarrow> string \<Rightarrow> json option \<Rightarrow> llm_world \<Rightarrow> response \<times> llm_world" where
  "proxy_json_openrouter x net st meth path body w =
     (case send net ToRouter (router_request st (lw_pool w) meth path body) w of
        (NoAnswer timeout, w1) \<Rightarrow> (detail_response 502 ''openrouter unreachable'', w1)
      | (Answered status hs None, w1) \<Rightarrow> (detail_response 502 ''openrouter body error'', w1)
      | (Answered status hs (Some b), w1) \<Rightarrow> (relay_json x ''non-json'' status b, w1))"

section \<open>The retry loops over local backends\<close>

definition local_request :: "settings \<Rightarrow> llm_world \<Rightarrow> nat \<Rightarrow> string \<Rightarrow> string \<Rightarrow> json option \<Rightarrow> http_request" where
  "local_request st w i meth path body =
     \<lparr>hr_method = meth, hr_url = h_url (bp_all (lw_pool w) ! i) @ path, hr_headers = add_auth (s_llm st),
      hr_json = body, hr_raw = None\<rparr>"

fun proxy_json_loop ::
  "llm_ext \<Rightarrow> network \<Rightarrow> settings \<Rightarrow> string \<Rightarrow> string \<Rightarrow> json option \<Rightarrow> nat list \<Rightarrow> response option \<Rightarrow> llm_world \<Rightarrow>
     (response + response option) \<times> llm_world" where
  \<comment> \<open>\<open>Inl\<close> is an early return, \<open>Inr\<close> the last error once every backend failed\<close>
  "proxy_json_loop x net st meth path body [] last_err w = (Inr last_err, w)"
| "proxy_json_loop x net st meth path body (i # is) last_err w =
     (case send net (ToLocal i) (local_request st w i meth path body) (with_handle i acquire_slot w) of
        (NoAnswer timeout, w1) \<Rightarrow>
          proxy_json_loop x net st meth path body is (Some (detail_response 502 ''upstream LLM unreachable''))
            (with_handle i drop_slot (with_handle i on_connect_err w1))
      | (Answered status hs bytes, w1) \<Rightarrow>
          (if status = 503 then
             proxy_json_loop x net st meth path body is (Some (detail_response 503 ''upstream LLM overloaded''))
               (with_handle i drop_slot (with_handle i on_connect_err w1))
           else
             (Inl (case bytes of
                     None \<Rightarrow> detail_response 502 ''upstream LLM body truncated''
                   | Some b \<Rightarrow> relay_json x ''non-json upstream response'' status b),
              with_handle i drop_slot (with_handle i on_connect_ok w1))))"

definition proxy_json ::
  "llm_ext \<Rightarrow> network \<Rightarrow> settings \<Rightarrow> nat list \<Rightarrow> string \<Rightarrow> string \<Rightarrow> json option \<Rightarrow> llm_world \<Rightarrow>
     response \<times> llm_world" where
  "proxy_json x net st backends meth path body w =
     (case proxy_json_loop x net st meth path body backends None w of
        (Inl r, w1) \<Rightarrow> (r, w1)
      | (Inr last_err, w1) \<Rightarrow>
          (let fallback = (case last_err of Some r \<Rightarrow> r | None \<Rightarrow> detail_response 502 ''all LLM backends unavailable'')
           in case body of
                None \<Rightarrow> (fallback, w1)
              | Some b \<Rightarrow>
                  (case model_of b of
                     Some m \<Rightarrow>
                       if openrouter_serves (llm_openrouter_model_map (s_llm st)) (bp_openrouter_url (lw_pool w1)) m
                       then proxy_json_openrouter x net st meth path (Some (rewrite_model_for_openrouter (s_llm st) b)) w1
                       else (fallback, w1)
                   | None \<Rightarrow> (fallback, w1))))"

definition header_value :: "string \<Rightarrow> (string \<times> string) list \<Rightarrow> string option" where
  "header_value name hs = map_of hs name"

fun proxy_bytes_loop ::
  "network \<Rightarrow> (llm_world \<Rightarrow> nat \<Rightarrow> http_request) \<Rightarrow> string \<Rightarrow> string \<Rightarrow> string \<Rightarrow> nat list \<Rightarrow> response option \<Rightarrow> llm_world \<Rightarrow>
     (response + response option) \<times> llm_world" where
  \<comment> \<open>the loop of \<open>proxy_bytes\<close> and \<open>proxy_multipart\<close>, which differ in the request,
    in the default content type and in the error texts\<close>
  "proxy_bytes_loop net mk ctype unreachable trunc [] last_err w = (Inr last_err, w)"
| "proxy_bytes_loop net mk ctype unreachable trunc (i # is) last_err w =
     (case send net (ToLocal i) (mk w i) (with_handle i acquire_slot w) of
        (NoAnswer timeout, w1) \<Rightarrow>
          proxy_bytes_loop net mk ctype unreachable trunc is (Some (detail_response 502 unreachable))
            (with_handle i drop_slot (with_handle i on_connect_err w1))
      | (Answered status hs bytes, w1) \<Rightarrow>
          (Inl (case bytes of
                  None \<Rightarrow> detail_response 502 trunc
                | Some b \<Rightarrow>
                    \<lparr>resp_status = status,
                     resp_headers = [(''content-type'', case header_value ''content-type'' hs of Some c \<Rightarrow> c | None \<Rightarrow> ctype)],
                     resp_body = RawBody b\<rparr>),
           with_handle i drop_slot (with_handle i on_connect_ok w1)))"

definition finish :: "string \<Rightarrow> (response + response option) \<times> llm_world \<Rightarrow> response \<times> llm_world" where
  "finish none res =
     (case res of
        (Inl r, w) \<Rightarrow> (r, w)
      | (Inr (Some r), w) \<Rightarrow> (r, w)
      | (Inr None, w) \<Rightarrow> (detail_response 502 none, w))"

definition proxy_bytes ::
  "network \<Rightarrow> settings \<Rightarrow> nat list \<Rightarrow> string \<Rightarrow> json \<Rightarrow> llm_world \<Rightarrow> response \<times> llm_world" where
  "proxy_bytes net st backends path body w =
     finish ''no media backend answered''
       (proxy_bytes_loop net (\<lambda>w i. local_request st w i ''POST'' path (Some body)) ''application/octet-stream''
          ''upstream media backend unreachable'' ''upstream media body truncated'' backends None w)"

definition proxy_multipart ::
  "network \<Rightarrow> settings \<Rightarrow> nat list \<Rightarrow> string \<Rightarrow> string \<Rightarrow> string \<Rightarrow> llm_world \<Rightarrow> response \<times> llm_world" where
  "proxy_multipart net st backends path body ctype w =
     finish ''no transcription backend answered''
       (proxy_bytes_loop net
          (\<lambda>w i. \<lparr>hr_method = ''POST'', hr_url = h_url (bp_all (lw_pool w) ! i) @ path,
                  hr_headers = (''content-type'', ctype) # add_auth (s_llm st), hr_json = None, hr_raw = Some body\<rparr>)
          ''application/json'' ''upstream transcription backend unreachable''
          ''upstream transcription body truncated'' backends None w)"

section \<open>Dispatch\<close>

definition dispatch_json ::
  "llm_ext \<Rightarrow> network \<Rightarrow> string \<Rightarrow> settings \<Rightarrow> identity option \<Rightarrow> string \<Rightarrow> string \<Rightarrow> json \<Rightarrow> llm_world \<Rightarrow>
     response \<times> llm_world" where
  "dispatch_json x net rid st ident meth path body w =
     (case federation_peer st of
        Inl e \<Rightarrow> (into_response rid e, w)
      | Inr (Some p) \<Rightarrow> proxy_json_peer x net st p meth path (Some body) (origin_of ident) w
      | Inr None \<Rightarrow>
          (case llm_resolve st (lw_pool w) (model_of body) (llm_caller_role ident)
                  (is_short_prompt x (llm_short_prompt_tokens (s_llm st)) body) of
             Inl e \<Rightarrow> (into_response rid e, w)
           | Inr None \<Rightarrow>
               proxy_json_openrouter x net st meth path (Some (rewrite_model_for_openrouter (s_llm st) body)) w
           | Inr (Some backends) \<Rightarrow> proxy_json x net st backends meth path (Some body) w))"

definition no_forward :: response where
  "no_forward = detail_response 503 ''no local backend for this model; binary endpoints are never forwarded upstream''"

definition dispatch_bytes ::
  "network \<Rightarrow> string \<Rightarrow> settings \<Rightarrow> identity option \<Rightarrow> string \<Rightarrow> json \<Rightarrow> llm_world \<Rightarrow> response \<times> llm_world" where
  "dispatch_bytes net rid st ident path body w =
     (case llm_resolve st (lw_pool w) (model_of body) (llm_caller_role ident) False of
        Inl e \<Rightarrow> (into_response rid e, w)
      | Inr None \<Rightarrow> (no_forward, w)
      | Inr (Some backends) \<Rightarrow> proxy_bytes net st backends path body w)"

section \<open>Transcriptions\<close>

definition multipart_model :: "string \<Rightarrow> string option" where
  "multipart_model body =
     (let needle = ''name='' @ [CHR 0x22] @ ''model'' @ [CHR 0x22]; crlf = [CHR 0x0D, CHR 0x0A]
      in case find_sub body needle of
           None \<Rightarrow> None
         | Some pos \<Rightarrow>
             (let rest = drop (pos + length needle) body
              in case find_sub rest (crlf @ crlf) of
                   None \<Rightarrow> None
                 | Some start \<Rightarrow>
                     (let tail = drop (start + 4) rest
                      in case find_sub tail crlf of
                           None \<Rightarrow> None
                         | Some len \<Rightarrow>
                             (let v = take len tail
                              in if utf8_valid v \<and> trim v \<noteq> [] then Some (trim v) else None))))"

definition audio_transcriptions ::
  "network \<Rightarrow> string \<Rightarrow> settings \<Rightarrow> identity option \<Rightarrow> header_map \<Rightarrow> string \<Rightarrow> llm_world \<Rightarrow> response \<times> llm_world" where
  "audio_transcriptions net rid st ident headers body w =
     (let ctype = (case headers ''content-type'' of Some c \<Rightarrow> c | None \<Rightarrow> [])
      in if \<not> starts_with ctype ''multipart/form-data'' then
           (into_response rid (BadRequest
              ''/v1/audio/transcriptions expects multipart/form-data with `file` and `model`''), w)
         else
           (case multipart_model body of
              None \<Rightarrow>
                (into_response rid (BadRequest
                   ''multipart body must carry a `model` field naming a configured backend''), w)
            | Some model \<Rightarrow>
                (case llm_resolve st (lw_pool w) (Some model) (llm_caller_role ident) False of
                   Inl e \<Rightarrow> (into_response rid e, w)
                 | Inr None \<Rightarrow> (no_forward, w)
                 | Inr (Some backends) \<Rightarrow>
                     proxy_multipart net st backends ''/v1/audio/transcriptions'' body ctype w)))"

section \<open>The model catalog\<close>

definition push_new :: "string \<Rightarrow> string list \<Rightarrow> string list" where
  "push_new b bs = (if b \<in> set bs then bs else bs @ [b])"

definition catalog_bases :: "settings \<Rightarrow> backend_pool \<Rightarrow> string list" where
  "catalog_bases st bp =
     (let primary = trim_end_slashes (llm_backend_url (s_llm st));
          bases = fold (\<lambda>h. push_new (h_url h)) (bp_all bp) (if primary \<noteq> [] then [primary] else [])
      in if bp_openrouter_url bp \<noteq> [] then push_new (trim_end_slashes (bp_openrouter_url bp)) bases else bases)"

fun fetch_legs :: "llm_ext \<Rightarrow> network \<Rightarrow> settings \<Rightarrow> string list \<Rightarrow> llm_world \<Rightarrow> json option list \<times> llm_world" where
  \<comment> \<open>one request per base; a leg that fails, times out or is no JSON contributes nothing\<close>
  "fetch_legs x net st [] w = ([], w)"
| "fetch_legs x net st (b # bs) w =
     (case send net ToCatalog
             \<lparr>hr_method = ''GET'', hr_url = b @ ''/v1/models'', hr_headers = add_auth (s_llm st), hr_json = None, hr_raw = None\<rparr> w of
        (res, w1) \<Rightarrow>
          (let leg = (case res of Answered status hs (Some body) \<Rightarrow> lx_from_slice x body | _ \<Rightarrow> None)
           in case fetch_legs x net st bs w1 of (legs, w2) \<Rightarrow> (leg # legs, w2)))"

definition as_i64 :: "json option \<Rightarrow> int option" where
  "as_i64 v =
     (case v of Some (JNumber (NInt n)) \<Rightarrow> if - (2 ^ 63) \<le> n \<and> n < 2 ^ 63 then Some n else None | _ \<Rightarrow> None)"

definition with_max_model_len :: "json \<Rightarrow> json" where
  "with_max_model_len m =
     (if json_get ''max_model_len'' m = None \<or> json_get ''max_model_len'' m = Some JNull then
        (case as_i64 (case json_get ''meta'' m of Some t \<Rightarrow> json_get ''n_ctx'' t | None \<Rightarrow> None) of
           Some n \<Rightarrow> json_put ''max_model_len'' (JNumber (NInt n)) m
         | None \<Rightarrow> m)
      else m)"

definition catalog_entry ::
  "(string, string) hash_map \<Rightarrow> bool \<Rightarrow> json \<Rightarrow> json list \<times> string list \<Rightarrow> json list \<times> string list" where
  "catalog_entry or_reverse is_or m acc =
     (let raw_id = (case as_str (json_get ''id'' m) of Some s \<Rightarrow> s | None \<Rightarrow> []);
          name = (if is_or then map_of or_reverse raw_id else Some raw_id)
      in case name of
           None \<Rightarrow> acc
         | Some n \<Rightarrow>
             if n \<in> set (snd acc) then acc
             else (fst acc @ [with_max_model_len (if is_or then json_put ''id'' (JString n) m else m)], snd acc @ [n]))"

definition catalog_leg ::
  "(string, string) hash_map \<Rightarrow> string \<Rightarrow> string \<times> json option \<Rightarrow> json list \<times> string list \<Rightarrow> json list \<times> string list" where
  "catalog_leg or_reverse or_base leg acc =
     (case snd leg of
        None \<Rightarrow> acc
      | Some v \<Rightarrow>
          (case json_get ''data'' v of
             Some (JArray ms) \<Rightarrow> fold (catalog_entry or_reverse (or_base \<noteq> [] \<and> fst leg = or_base)) ms acc
           | _ \<Rightarrow> acc))"

definition list_models ::
  "llm_ext \<Rightarrow> network \<Rightarrow> string \<Rightarrow> settings \<Rightarrow> identity option \<Rightarrow> llm_world \<Rightarrow> response \<times> llm_world" where
  "list_models x net rid st ident w =
     (case federation_peer st of
        Inl e \<Rightarrow> (into_response rid e, w)
      | Inr (Some p) \<Rightarrow> proxy_json_peer x net st p ''GET'' ''/v1/models'' None (origin_of ident) w
      | Inr None \<Rightarrow>
          (let bases = catalog_bases st (lw_pool w)
           in if bases = [] then (into_response rid (Unavailable ''LLM backend not configured''), w)
              else if length bases = 1 then
                proxy_json x net st (backends_for (lw_pool w) None) ''GET'' ''/v1/models'' None w
              else
                (case fetch_legs x net st bases w of
                   (legs, w1) \<Rightarrow>
                     (let or_reverse = rev (map (\<lambda>(l, r). (r, l)) (llm_openrouter_model_map (s_llm st)));
                          acc = fold (catalog_leg or_reverse (trim_end_slashes (bp_openrouter_url (lw_pool w))))
                                  (zip bases legs) ([], [])
                      in (json_response 200 (JObject [(''object'', JString ''list''), (''data'', JArray (fst acc))]), w1)))))"

section \<open>No slot is leaked\<close>

definition slots :: "llm_world \<Rightarrow> int list" where
  "slots w = map h_inflight (bp_all (lw_pool w))"

definition wf_slots :: "llm_world \<Rightarrow> bool" where
  \<comment> \<open>the counters are 32-bit values\<close>
  "wf_slots w \<longleftrightarrow> (\<forall>h \<in> set (bp_all (lw_pool w)). as_i32 (h_inflight h) = h_inflight h)"

lemma as_i32_absorb: "as_i32 (as_i32 n + m) = as_i32 (n + m)" "as_i32 (as_i32 n - m) = as_i32 (n - m)"
  by (simp_all add: as_i32_def mod_simps algebra_simps)

lemma slots_send [simp]: "slots (snd (send net t rq w)) = slots w"
  by (simp add: slots_def send_def)

lemma bracket_balanced:
  assumes f: "\<And>h. h_inflight (f h) = h_inflight h" and wf: "wf_slots w"
  shows "slots (with_handle i drop_slot (with_handle i f (snd (send net t rq (with_handle i acquire_slot w))))) = slots w"
proof (cases "i < length (bp_all (lw_pool w))")
  case True
  then have "as_i32 (h_inflight (bp_all (lw_pool w) ! i)) = h_inflight (bp_all (lw_pool w) ! i)"
    using wf by (auto simp: wf_slots_def)
  then show ?thesis using f True
    by (auto simp: slots_def with_handle_def on_handle_def send_def acquire_slot_def drop_slot_def as_i32_absorb map_update
          intro!: nth_equalityI simp: nth_list_update)
next
  case False
  then show ?thesis by (simp add: slots_def with_handle_def on_handle_def send_def list_update_beyond)
qed

lemma wf_slots_cong: "slots w = slots w' \<Longrightarrow> wf_slots w = wf_slots w'"
proof -
  have "wf_slots w \<longleftrightarrow> list_all (\<lambda>n. as_i32 n = n) (slots w)" for w
    by (simp add: wf_slots_def slots_def list_all_iff)
  then show "slots w = slots w' \<Longrightarrow> wf_slots w = wf_slots w'" by simp
qed

lemma inflight_connect [simp]:
  "h_inflight (on_connect_ok h) = h_inflight h" "h_inflight (on_connect_err h) = h_inflight h"
  by (simp_all add: on_connect_ok_def on_connect_err_def Let_def)

lemma slots_proxy_json_loop:
  "wf_slots w \<Longrightarrow> slots (snd (proxy_json_loop x net st meth path body is e w)) = slots w"
proof (induction "is" arbitrary: e w)
  case (Cons i "is")
  let ?rq = "local_request st w i meth path body"
  let ?s = "send net (ToLocal i) ?rq (with_handle i acquire_slot w)"
  have ok: "slots (with_handle i drop_slot (with_handle i on_connect_ok (snd ?s))) = slots w"
    and err: "slots (with_handle i drop_slot (with_handle i on_connect_err (snd ?s))) = slots w"
    using Cons.prems by (rule bracket_balanced [OF inflight_connect(1)], rule bracket_balanced [OF inflight_connect(2)])
  have "wf_slots (with_handle i drop_slot (with_handle i on_connect_err (snd ?s)))"
    using Cons.prems wf_slots_cong [OF err] by simp
  from Cons.IH [OF this] err ok show ?case
    by (cases ?s; cases "fst ?s") auto
qed simp

section \<open>What leaves the service\<close>

definition extends :: "(target \<times> http_request \<Rightarrow> bool) \<Rightarrow> llm_world \<Rightarrow> llm_world \<Rightarrow> bool" where
  \<comment> \<open>the new outbound requests satisfy a predicate and the OpenRouter address is kept\<close>
  "extends P w w' \<longleftrightarrow>
     (\<exists>cs. lw_calls w' = lw_calls w @ cs \<and> list_all P cs) \<and>
     bp_openrouter_url (lw_pool w') = bp_openrouter_url (lw_pool w)"

lemma extends_refl [simp]: "extends P w w"
  by (simp add: extends_def)

lemma extends_trans: "extends P w w1 \<Longrightarrow> extends P w1 w2 \<Longrightarrow> extends P w w2"
  by (auto simp: extends_def)

lemma extends_with_handle [simp]: "extends P w (with_handle i f w') \<longleftrightarrow> extends P w w'"
  by (simp add: extends_def with_handle_def on_handle_def)

lemma extends_send: "P (t, rq) \<Longrightarrow> extends P w (snd (send net t rq w))"
  by (simp add: extends_def send_def)

lemma extends_send_eq: "send net t rq w = (res, w') \<Longrightarrow> P (t, rq) \<Longrightarrow> extends P w w'"
  using extends_send [of P t rq w net] by simp

lemma with_handle_calls [simp]:
  "lw_calls (with_handle i f w) = lw_calls w"
  "bp_openrouter_url (lw_pool (with_handle i f w)) = bp_openrouter_url (lw_pool w)"
  by (simp_all add: with_handle_def on_handle_def)

lemma extends_send_handle:
  "P (t, rq) \<Longrightarrow> extends P w (snd (send net t rq (with_handle i f w)))"
  by (simp add: extends_def send_def)

lemma extends_proxy_json_loop:
  assumes "\<And>i rq. P (ToLocal i, rq)"
  shows "extends P w (snd (proxy_json_loop x net st meth path body is e w))"
proof (induction "is" arbitrary: e w)
  case (Cons i "is")
  let ?s = "send net (ToLocal i) (local_request st w i meth path body) (with_handle i acquire_slot w)"
  have s: "extends P w (snd ?s)" using assms by (rule extends_send_handle)
  then show ?case
    using extends_trans [OF _ Cons.IH, of w "with_handle i drop_slot (with_handle i on_connect_err (snd ?s))"]
    by (cases ?s; cases "fst ?s") auto
qed simp

lemma extends_proxy_bytes_loop:
  assumes "\<And>i rq. P (ToLocal i, rq)"
  shows "extends P w (snd (proxy_bytes_loop net mk ct ur tr is e w))"
proof (induction "is" arbitrary: e w)
  case (Cons i "is")
  let ?s = "send net (ToLocal i) (mk w i) (with_handle i acquire_slot w)"
  have s: "extends P w (snd ?s)" using assms by (rule extends_send_handle)
  then show ?case
    using extends_trans [OF _ Cons.IH, of w "with_handle i drop_slot (with_handle i on_connect_err (snd ?s))"]
    by (cases ?s; cases "fst ?s") auto
qed simp

lemma extends_proxy_json_openrouter:
  "P (ToRouter, router_request st (lw_pool w) meth path body) \<Longrightarrow>
     extends P w (snd (proxy_json_openrouter x net st meth path body w))"
  by (auto simp: proxy_json_openrouter_def intro: extends_send_eq split: prod.splits http_outcome.splits option.splits)

lemma router_request_cong:
  "extends P w w' \<Longrightarrow> router_request st (lw_pool w') meth path body = router_request st (lw_pool w) meth path body"
  by (simp add: extends_def router_request_def)

definition metered :: "settings \<Rightarrow> json \<Rightarrow> bool" where
  "metered st body \<longleftrightarrow> (\<exists>m. model_of body = Some m \<and> map_of (llm_openrouter_model_map (s_llm st)) m \<noteq> None)"

section \<open>Who may be metered\<close>

definition allowlisted :: "settings \<Rightarrow> identity option \<Rightarrow> backend_pool \<Rightarrow> json \<Rightarrow> json option \<Rightarrow> bool" where
  \<comment> \<open>the body names a model of the map that is no Claude model, what is sent is the body under the
    mapped id, and without a local backend the caller is privileged\<close>
  "allowlisted st ident bp body sent \<longleftrightarrow>
     (case model_of body of
        None \<Rightarrow> False
      | Some m \<Rightarrow>
          (case map_of (llm_openrouter_model_map (s_llm st)) m of
             None \<Rightarrow> False
           | Some or_id \<Rightarrow>
               \<not> is_claude (Some m) \<and> sent = Some (json_put ''model'' (JString or_id) body) \<and>
               (backends_for bp (Some m) \<noteq> [] \<or> role_may_use_metered_openrouter_model (llm_caller_role ident))))"

fun may_leave :: "settings \<Rightarrow> identity option \<Rightarrow> backend_pool \<Rightarrow> json \<Rightarrow> target \<times> http_request \<Rightarrow> bool" where
  "may_leave st ident bp body (ToRouter, rq) \<longleftrightarrow>
     bp_openrouter_url bp \<noteq> [] \<and> allowlisted st ident bp body (hr_json rq)"
| "may_leave st ident bp body (_, rq) \<longleftrightarrow> True"

lemma sort_key_Nil [simp]: "sort_key f xs = [] \<longleftrightarrow> xs = []"
  by (metis length_0_conv length_sort)

lemma backends_empty_class: "backends_for_class bp m s = [] \<longleftrightarrow> backends_for bp m = []"
  by (simp add: backends_for_class_def backends_for_def split: option.splits)

lemma resolve_None:
  assumes "llm_resolve st bp model role short = Inr None"
  shows "\<exists>m. model = Some m \<and> \<not> is_claude model \<and> openrouter_serves (llm_openrouter_model_map (s_llm st)) (bp_openrouter_url bp) m \<and>
    (backends_for bp model \<noteq> [] \<or> role_may_use_metered_openrouter_model role)"
  using assms backends_empty_class [of bp model short]
  by (auto simp: llm_resolve_def Let_def can_overflow_to_openrouter_def split: if_splits option.splits)

lemma resolve_Some:
  assumes "llm_resolve st bp model role short = Inr (Some bs)"
  shows "\<not> is_claude model \<and> bs = backends_for_class bp model short \<and> backends_for bp model \<noteq> []"
  using assms backends_empty_class [of bp model short]
  by (auto simp: llm_resolve_def Let_def split: if_splits option.splits)

lemma allowlistedI:
  assumes "model_of body = Some m" "map_of (llm_openrouter_model_map (s_llm st)) m \<noteq> None" "\<not> is_claude (Some m)"
    "backends_for bp (Some m) \<noteq> [] \<or> role_may_use_metered_openrouter_model (llm_caller_role ident)"
  shows "allowlisted st ident bp body (Some (rewrite_model_for_openrouter (s_llm st) body))"
  using assms by (auto simp: allowlisted_def rewrite_model_for_openrouter_def)

lemma router_request_json [simp]: "hr_json (router_request st bp meth path body) = body"
  by (simp add: router_request_def)

lemma peer_extends:
  "P (ToPeer, \<lparr>hr_method = meth, hr_url = trim_end_slashes (peer_base_url p) @ path,
        hr_headers = apply_peer_auth st p origin, hr_json = body, hr_raw = None\<rparr>) \<Longrightarrow>
     extends P w (snd (proxy_json_peer x net st p meth path body origin w))"
  by (auto simp: proxy_json_peer_def intro: extends_send_eq split: prod.splits http_outcome.splits option.splits)

lemma metered_url: "openrouter_serves m url k \<Longrightarrow> url \<noteq> [] \<and> map_of m k \<noteq> None"
  by (simp add: openrouter_serves_def)

lemma extends_proxy_json_served:
  assumes P: "\<And>i rq. P (ToLocal i, rq)"
    and R: "metered st b \<Longrightarrow> bp_openrouter_url (lw_pool w) \<noteq> [] \<Longrightarrow>
      P (ToRouter, router_request st (lw_pool w) meth path (Some (rewrite_model_for_openrouter (s_llm st) b)))"
  shows "extends P w (snd (proxy_json x net st is meth path (Some b) w))"
proof -
  obtain r w1 where l: "proxy_json_loop x net st meth path (Some b) is None w = (r, w1)"
    by (cases "proxy_json_loop x net st meth path (Some b) is None w")
  have e: "extends P w w1" using extends_proxy_json_loop [of P w x net st meth path "Some b" "is" None] P l by simp
  then have u: "bp_openrouter_url (lw_pool w1) = bp_openrouter_url (lw_pool w)" by (simp add: extends_def)
  have "extends P w (snd (proxy_json_openrouter x net st meth path (Some (rewrite_model_for_openrouter (s_llm st) b)) w1))"
    if "metered st b" "bp_openrouter_url (lw_pool w) \<noteq> []"
    by (rule extends_trans [OF e extends_proxy_json_openrouter]) (simp add: router_request_cong [OF e] R that)
  with e u show ?thesis
    by (auto simp: proxy_json_def l Let_def metered_def openrouter_serves_def split: sum.splits option.splits)
qed

lemma dispatch_json_leaves:
  "extends (may_leave st ident (lw_pool w) body) w (snd (dispatch_json x net rid st ident meth path body w))"
proof -
  let ?P = "may_leave st ident (lw_pool w) body"
  let ?r = "llm_resolve st (lw_pool w) (model_of body) (llm_caller_role ident)
              (is_short_prompt x (llm_short_prompt_tokens (s_llm st)) body)"
  have 1: "extends ?P w (snd (proxy_json_openrouter x net st meth path (Some (rewrite_model_for_openrouter (s_llm st) body)) w))"
    if "?r = Inr None"
    using resolve_None [OF that] by (intro extends_proxy_json_openrouter) (auto intro: allowlistedI dest: metered_url)
  have 2: "extends ?P w (snd (proxy_json x net st bs meth path (Some body) w))" if "?r = Inr (Some bs)" for bs
    using resolve_Some [OF that] by (intro extends_proxy_json_served) (auto simp: metered_def intro: allowlistedI)
  show ?thesis
    by (auto simp: dispatch_json_def 1 2 intro!: peer_extends split: sum.splits option.splits)
qed

end
