(* ===== verification/Federation.thy ===== *)
theory Federation
  imports Read_Exec Llm_Route
begin

text \<open>
  The federation plane (\<open>federation/mod.rs\<close>): the registry of peers, the forwarding
  of a request to a peer's identical endpoint, and the shadow middleware, which
  answers every read of an instance without data from its peer through a cache
  with a time to live.

  The HTTP client (\<open>exch\<close>), the acceptance of a header value (\<open>ok\<close>) and the cache
  library (\<open>fwd_store\<close>) are arguments.  The middleware is split where it waits for
  the peer, so that requests interleave: \<open>shadow_begin\<close> runs up to the request that is
  sent, \<open>shadow_end\<close> from the peer's reply to the answer.
\<close>

section \<open>The peer registry and the hop\<close>

record federation =
  fed_peers :: "(string, peer) hash_map"
  fed_instance_id :: string
  fed_app_id :: string

definition federation_new :: "peer list \<Rightarrow> string \<Rightarrow> string \<Rightarrow> federation" where
  "federation_new ps iid app =
     \<lparr>fed_peers = fold (\<lambda>p. hm_insert (peer_id p) p) ps [], fed_instance_id = iid, fed_app_id = app\<rparr>"

definition fed_peer :: "federation \<Rightarrow> string \<Rightarrow> peer option" where
  "fed_peer fed pid = map_of (fed_peers fed) pid"

definition has_peers :: "federation \<Rightarrow> bool" where
  "has_peers fed \<longleftrightarrow> fed_peers fed \<noteq> []"

fun chars_of :: "string \<Rightarrow> string list" where
  \<comment> \<open>the characters of a text, each as its bytes\<close>
  "chars_of [] = []"
| "chars_of (c # cs) =
     (if code c < 128 then [c] # chars_of cs
      else (c # takeWhile is_continuation cs) # chars_of (dropWhile is_continuation cs))"

definition is_control :: "string \<Rightarrow> bool" where
  \<comment> \<open>the control characters: \<open>U+0000..U+001F\<close> and \<open>U+007F..U+009F\<close>\<close>
  "is_control ch \<longleftrightarrow>
     (case ch of
        [c] \<Rightarrow> code c < 32 \<or> code c = 127
      | [c, d] \<Rightarrow> code c = 0xC2 \<and> 0x80 \<le> code d \<and> code d \<le> 0x9F
      | _ \<Rightarrow> False)"

definition sanitize_header :: "(string \<Rightarrow> bool) \<Rightarrow> string \<Rightarrow> string" where
  "sanitize_header ok s =
     (let cleaned = concat (take 1024 (filter (\<lambda>ch. \<not> is_control ch) (chars_of s)))
      in if ok cleaned then cleaned else [])"

record out_request =
  oq_method :: string
  oq_url :: string
  oq_headers :: "(string \<times> string) list"
  oq_body :: string

datatype peer_reply = NoReply | Reply nat "(string \<times> string) list" "string option"

record parts =
  pt_status :: nat
  pt_headers :: "(string \<times> string) list"
  pt_body :: string

definition bad_gateway :: response where
  "bad_gateway = json_response 502 (detail (JString ''federation peer unreachable''))"

definition response_from_parts :: "parts \<Rightarrow> response" where
  "response_from_parts pt =
     \<lparr>resp_status = pt_status pt, resp_headers = pt_headers pt, resp_body = RawBody (pt_body pt)\<rparr>"

definition forward_request ::
  "federation \<Rightarrow> (string \<Rightarrow> bool) \<Rightarrow> peer \<Rightarrow> string \<Rightarrow> string \<Rightarrow> string option \<Rightarrow> string \<Rightarrow> origin_identity \<Rightarrow> out_request" where
  "forward_request fed ok p meth path query body origin =
     \<lparr>oq_method = meth,
      oq_url = peer_base_url p @ path @
        (case query of Some q \<Rightarrow> if q \<noteq> [] then ''?'' @ q else [] | None \<Rightarrow> []),
      oq_headers =
        (if peer_token p \<noteq> [] then [(''authorization'', ''Bearer '' @ peer_token p)] else []) @
        [(''x-lumid-origin-sub'', sanitize_header ok (o_sub origin)),
         (''x-lumid-origin-role'', sanitize_header ok (o_role origin)),
         (''x-lumid-app'', sanitize_header ok (fed_app_id fed)),
         (''x-lumid-via'', sanitize_header ok (fed_instance_id fed))] @
        (if body \<noteq> [] then [(''content-type'', ''application/json'')] else []),
      oq_body = body\<rparr>"

definition relayed :: "(string \<times> string) list \<Rightarrow> (string \<times> string) list" where
  \<comment> \<open>the first value of each relayed header\<close>
  "relayed hs =
     List.map_filter (\<lambda>n. map_option (\<lambda>v. (n, v)) (map_of hs n)) [''content-type'', ''etag'', ''cache-control'']"

definition parts_of_reply :: "peer_reply \<Rightarrow> response + parts" where
  "parts_of_reply r =
     (case r of
        NoReply \<Rightarrow> Inl bad_gateway
      | Reply status hs None \<Rightarrow> Inl bad_gateway
      | Reply status hs (Some b) \<Rightarrow> Inr \<lparr>pt_status = status, pt_headers = relayed hs, pt_body = b\<rparr>)"

definition forward_parts ::
  "federation \<Rightarrow> (string \<Rightarrow> bool) \<Rightarrow> (out_request \<Rightarrow> peer_reply) \<Rightarrow> peer \<Rightarrow> string \<Rightarrow> string \<Rightarrow> string option \<Rightarrow> string \<Rightarrow>
     origin_identity \<Rightarrow> response + parts" where
  "forward_parts fed ok exch p meth path query body origin =
     parts_of_reply (exch (forward_request fed ok p meth path query body origin))"

definition forward ::
  "federation \<Rightarrow> (string \<Rightarrow> bool) \<Rightarrow> (out_request \<Rightarrow> peer_reply) \<Rightarrow> peer \<Rightarrow> string \<Rightarrow> string \<Rightarrow> string option \<Rightarrow> string \<Rightarrow>
     origin_identity \<Rightarrow> response" where
  "forward fed ok exch p meth path query body origin =
     (case forward_parts fed ok exch p meth path query body origin of
        Inr pt \<Rightarrow> response_from_parts pt
      | Inl resp \<Rightarrow> resp)"

section \<open>What stays local\<close>

definition LOCAL_ONLY_EXACT :: "string list" where
  "LOCAL_ONLY_EXACT = [''/health'', ''/metrics'', ''/openapi.json'']"

definition LOCAL_ONLY_PREFIX :: "string list" where
  "LOCAL_ONLY_PREFIX = [''/health/'', ''/v1/'', ''/me/blobs'', ''/blobs/tenants/'']"

definition is_local_only :: "string \<Rightarrow> bool" where
  "is_local_only path \<longleftrightarrow>
     path \<in> set LOCAL_ONLY_EXACT \<or> path = ''/v1'' \<or> list_ex (starts_with path) LOCAL_ONLY_PREFIX"

definition trim_slashes :: "string \<Rightarrow> string" where
  "trim_slashes s = trim_end_slashes (dropWhile (\<lambda>c. c = CHR ''/'') s)"

definition is_local_retrieval_blob :: "string \<Rightarrow> string \<Rightarrow> bool" where
  "is_local_retrieval_blob path rp \<longleftrightarrow>
     (let pfx = trim_slashes rp in pfx \<noteq> [] \<and> starts_with path (''/blobs/'' @ pfx @ ''/''))"

section \<open>The shadow cache\<close>

record 'c fwd_store =
  fs_get :: "'c \<Rightarrow> int \<Rightarrow> string \<Rightarrow> parts option"
  fs_put :: "'c \<Rightarrow> int \<Rightarrow> string \<Rightarrow> parts \<Rightarrow> 'c"

definition shadow_key :: "string \<Rightarrow> string \<Rightarrow> string option \<Rightarrow> string" where
  "shadow_key meth path query =
     (case query of
        Some q \<Rightarrow> if q \<noteq> [] then meth @ '' '' @ path @ ''?'' @ q else meth @ '' '' @ path
      | None \<Rightarrow> meth @ '' '' @ path)"

section \<open>The shadow middleware\<close>

record shadow_request =
  sr_method :: string
  sr_path :: string
  sr_query :: "string option"
  sr_identity :: "identity option"

definition shadow_peer :: "settings \<Rightarrow> federation \<Rightarrow> shadow_request \<Rightarrow> peer option" where
  \<comment> \<open>the peer that answers a request; \<open>None\<close> for a request served locally\<close>
  "shadow_peer st fed rq =
     (case read_federate (s_mesh st) of
        None \<Rightarrow> None
      | Some pid \<Rightarrow>
          (case fed_peer fed pid of
             None \<Rightarrow> None
           | Some p \<Rightarrow>
               if sr_method rq \<noteq> ''GET'' \<and> sr_method rq \<noteq> ''HEAD'' then None
               else if is_local_only (sr_path rq) \<or>
                       is_local_retrieval_blob (sr_path rq) (retrieval_prefix (s_retrieval st)) then None
               else Some p))"

definition shadow_origin :: "shadow_request \<Rightarrow> origin_identity" where
  "shadow_origin rq =
     (case sr_identity rq of
        Some i \<Rightarrow> \<lparr>o_sub = i_sub i, o_role = i_role i\<rparr>
      | None \<Rightarrow> \<lparr>o_sub = [], o_role = []\<rparr>)"

definition key_of_request :: "shadow_request \<Rightarrow> string" where
  "key_of_request rq = shadow_key (sr_method rq) (sr_path rq) (sr_query rq)"

datatype shadow_begun = RunLocally | Answer response | Forwarded out_request

definition shadow_begin ::
  "'c fwd_store \<Rightarrow> (string \<Rightarrow> bool) \<Rightarrow> settings \<Rightarrow> federation \<Rightarrow> int \<Rightarrow> shadow_request \<Rightarrow> 'c \<Rightarrow> shadow_begun" where
  "shadow_begin s ok st fed now rq c =
     (case shadow_peer st fed rq of
        None \<Rightarrow> RunLocally
      | Some p \<Rightarrow>
          (case (if sr_method rq = ''GET'' then fs_get s c now (key_of_request rq) else None) of
             Some hit \<Rightarrow> Answer (response_from_parts hit)
           | None \<Rightarrow>
               Forwarded (forward_request fed ok p (sr_method rq) (sr_path rq) (sr_query rq) [] (shadow_origin rq))))"

definition shadow_end ::
  "'c fwd_store \<Rightarrow> int \<Rightarrow> shadow_request \<Rightarrow> peer_reply \<Rightarrow> 'c \<Rightarrow> response \<times> 'c" where
  "shadow_end s now rq r c =
     (case parts_of_reply r of
        Inl resp \<Rightarrow> (resp, c)
      | Inr pt \<Rightarrow>
          (response_from_parts pt,
           if sr_method rq = ''GET'' \<and> pt_status pt = 200 then fs_put s c now (key_of_request rq) pt else c))"

definition shadow_forward ::
  "'c fwd_store \<Rightarrow> (string \<Rightarrow> bool) \<Rightarrow> (out_request \<Rightarrow> peer_reply) \<Rightarrow> settings \<Rightarrow> federation \<Rightarrow> int \<Rightarrow> int \<Rightarrow> response \<Rightarrow>
     shadow_request \<Rightarrow> 'c \<Rightarrow> response \<times> 'c" where
  \<comment> \<open>one request alone; \<open>local\<close> is the answer of the local route\<close>
  "shadow_forward s ok exch st fed now later local rq c =
     (case shadow_begin s ok st fed now rq c of
        RunLocally \<Rightarrow> (local, c)
      | Answer resp \<Rightarrow> (resp, c)
      | Forwarded q \<Rightarrow> shadow_end s later rq (exch q) c)"

section \<open>Interleaved requests\<close>

record peer_answer =
  pa_time :: int
  pa_path :: string
  pa_query :: "string option"
  pa_parts :: parts

record 'c shadow_world =
  sw_now :: int
  sw_cache :: 'c
  sw_waiting :: "shadow_request list"
  sw_answers :: "peer_answer list"
  sw_served :: "(int \<times> shadow_request \<times> response) list"
  sw_relayed :: "(shadow_request \<times> peer_reply \<times> response) list"

definition log_answer :: "int \<Rightarrow> shadow_request \<Rightarrow> peer_reply \<Rightarrow> peer_answer list" where
  "log_answer now rq r =
     (case parts_of_reply r of
        Inr pt \<Rightarrow>
          if sr_method rq = ''GET'' \<and> pt_status pt = 200
          then [\<lparr>pa_time = now, pa_path = sr_path rq, pa_query = sr_query rq, pa_parts = pt\<rparr>] else []
      | Inl _ \<Rightarrow> [])"

inductive shadow_step ::
  "'c fwd_store \<Rightarrow> (string \<Rightarrow> bool) \<Rightarrow> settings \<Rightarrow> federation \<Rightarrow> 'c shadow_world \<Rightarrow> 'c shadow_world \<Rightarrow> bool"
  for s ok st fed where
  pass: "sw_now w \<le> t \<Longrightarrow> shadow_step s ok st fed w (w\<lparr>sw_now := t\<rparr>)"
| hit: "CHR ''?'' \<notin> set (sr_path rq) \<Longrightarrow>
        shadow_begin s ok st fed (sw_now w) rq (sw_cache w) = Answer resp \<Longrightarrow>
        shadow_step s ok st fed w (w\<lparr>sw_served := (sw_now w, rq, resp) # sw_served w\<rparr>)"
| miss: "CHR ''?'' \<notin> set (sr_path rq) \<Longrightarrow>
         shadow_begin s ok st fed (sw_now w) rq (sw_cache w) = Forwarded q \<Longrightarrow>
         shadow_step s ok st fed w (w\<lparr>sw_waiting := rq # sw_waiting w\<rparr>)"
| reply: "rq \<in> set (sw_waiting w) \<Longrightarrow> shadow_end s (sw_now w) rq r (sw_cache w) = (resp, c') \<Longrightarrow>
          shadow_step s ok st fed w
            (w\<lparr>sw_cache := c', sw_waiting := remove1 rq (sw_waiting w),
               sw_answers := log_answer (sw_now w) rq r @ sw_answers w,
               sw_relayed := (rq, r, resp) # sw_relayed w\<rparr>)"

definition honest_fwd_store :: "int \<Rightarrow> 'c fwd_store \<Rightarrow> 'c \<Rightarrow> bool" where
  \<comment> \<open>a cache with a time to live: it starts empty, returns only what was put under the key less than
    the time to live ago, and may drop anything at any time\<close>
  "honest_fwd_store ttl s c0 \<longleftrightarrow>
     (\<forall>t k. fs_get s c0 t k = None) \<and>
     (\<forall>c t k v t' k' x. t \<le> t' \<longrightarrow> fs_get s (fs_put s c t k v) t' k' = Some x \<longrightarrow>
        (k' = k \<and> x = v \<and> t' - t < ttl) \<or> fs_get s c t' k' = Some x)"

definition start_shadow :: "'c \<Rightarrow> 'c shadow_world" where
  "start_shadow c0 =
     \<lparr>sw_now = 0, sw_cache = c0, sw_waiting = [], sw_answers = [], sw_served = [], sw_relayed = []\<rparr>"

definition query_text :: "string option \<Rightarrow> string" where
  \<comment> \<open>an empty query is no query\<close>
  "query_text q = (case q of Some t \<Rightarrow> t | None \<Rightarrow> [])"

definition recent_answer :: "int \<Rightarrow> peer_answer list \<Rightarrow> int \<Rightarrow> shadow_request \<Rightarrow> parts \<Rightarrow> bool" where
  "recent_answer ttl ans t rq pt \<longleftrightarrow>
     (\<exists>a \<in> set ans.
        pa_path a = sr_path rq \<and> query_text (pa_query a) = query_text (sr_query rq) \<and> pa_parts a = pt \<and>
        pa_time a \<le> t \<and> t - pa_time a < ttl)"


section \<open>What a shadow serves\<close>

lemma shadow_key_split:
  "shadow_key m p q = m @ '' '' @ p @ (if query_text q = [] then [] else CHR ''?'' # query_text q)"
  by (auto simp: shadow_key_def query_text_def split: option.splits)

lemma shadow_key_inject:
  assumes "CHR ''?'' \<notin> set p" "CHR ''?'' \<notin> set p'" "shadow_key m p q = shadow_key m p' q'"
  shows "p = p' \<and> query_text q = query_text q'"
proof -
  have path: "takeWhile (\<lambda>c. c \<noteq> CHR ''?'') (x @ (if t = [] then [] else CHR ''?'' # t)) = x"
    and rest: "dropWhile (\<lambda>c. c \<noteq> CHR ''?'') (x @ (if t = [] then [] else CHR ''?'' # t)) =
      (if t = [] then [] else CHR ''?'' # t)"
    if "CHR ''?'' \<notin> set x" for x t :: string
    using that by (auto simp: takeWhile_append dropWhile_append)
  have eq: "p @ (if query_text q = [] then [] else CHR ''?'' # query_text q) =
      p' @ (if query_text q' = [] then [] else CHR ''?'' # query_text q')"
    using assms(3) by (simp add: shadow_key_split)
  have "p = p'" using path [OF assms(1)] path [OF assms(2)] eq by metis
  moreover from this eq have "query_text q = query_text q'" by (auto split: if_splits)
  ultimately show ?thesis by simp
qed

lemma begin_Answer:
  "shadow_begin s ok st fed t rq c = Answer resp \<Longrightarrow>
     \<exists>pt. sr_method rq = ''GET'' \<and> fs_get s c t (key_of_request rq) = Some pt \<and> resp = response_from_parts pt \<and>
          shadow_peer st fed rq \<noteq> None"
  by (auto simp: shadow_begin_def split: option.splits if_splits)

lemma begin_Forwarded: "shadow_begin s ok st fed t rq c = Forwarded q \<Longrightarrow> shadow_peer st fed rq \<noteq> None"
  by (auto simp: shadow_begin_def split: option.splits if_splits)

lemma log_answer_iff:
  "a \<in> set (log_answer t rq r) \<longleftrightarrow>
     (\<exists>pt. parts_of_reply r = Inr pt \<and> sr_method rq = ''GET'' \<and> pt_status pt = 200 \<and>
           a = \<lparr>pa_time = t, pa_path = sr_path rq, pa_query = sr_query rq, pa_parts = pt\<rparr>)"
  by (auto simp: log_answer_def split: sum.splits)

definition relayed_as :: "peer_reply \<Rightarrow> response" where
  "relayed_as r = (case parts_of_reply r of Inl resp \<Rightarrow> resp | Inr pt \<Rightarrow> response_from_parts pt)"

definition held_until :: "int \<Rightarrow> peer_answer list \<Rightarrow> int \<Rightarrow> string \<Rightarrow> parts \<Rightarrow> bool" where
  "held_until ttl ans t k x \<longleftrightarrow>
     (\<exists>a \<in> set ans. shadow_key ''GET'' (pa_path a) (pa_query a) = k \<and> pa_parts a = x \<and>
        pa_time a \<le> t \<and> t - pa_time a < ttl)"

definition shadow_inv :: "int \<Rightarrow> 'c fwd_store \<Rightarrow> settings \<Rightarrow> federation \<Rightarrow> 'c shadow_world \<Rightarrow> bool" where
  "shadow_inv ttl s st fed w \<longleftrightarrow>
     (\<forall>t k x. sw_now w \<le> t \<longrightarrow> fs_get s (sw_cache w) t k = Some x \<longrightarrow> held_until ttl (sw_answers w) t k x) \<and>
     (\<forall>a \<in> set (sw_answers w). CHR ''?'' \<notin> set (pa_path a)) \<and>
     (\<forall>rq \<in> set (sw_waiting w). CHR ''?'' \<notin> set (sr_path rq) \<and> shadow_peer st fed rq \<noteq> None) \<and>
     (\<forall>(t, rq, resp) \<in> set (sw_served w).
        shadow_peer st fed rq \<noteq> None \<and> (\<exists>pt. resp = response_from_parts pt \<and> recent_answer ttl (sw_answers w) t rq pt)) \<and>
     (\<forall>(rq, r, resp) \<in> set (sw_relayed w). shadow_peer st fed rq \<noteq> None \<and> resp = relayed_as r)"

lemma recent_answer_append: "recent_answer ttl ans t rq pt \<Longrightarrow> recent_answer ttl (new @ ans) t rq pt"
  unfolding recent_answer_def by auto

lemma held_until_append: "held_until ttl ans t k x \<Longrightarrow> held_until ttl (new @ ans) t k x"
  unfolding held_until_def by auto

lemma held_is_recent:
  assumes "held_until ttl ans t (key_of_request rq) pt" "sr_method rq = ''GET''" "CHR ''?'' \<notin> set (sr_path rq)"
    "\<forall>a \<in> set ans. CHR ''?'' \<notin> set (pa_path a)"
  shows "recent_answer ttl ans t rq pt"
proof -
  from assms(1) obtain a where a: "a \<in> set ans" "shadow_key ''GET'' (pa_path a) (pa_query a) = key_of_request rq"
      "pa_parts a = pt" "pa_time a \<le> t" "t - pa_time a < ttl" by (auto simp: held_until_def)
  from a(2) assms(2) have "shadow_key ''GET'' (pa_path a) (pa_query a) = shadow_key ''GET'' (sr_path rq) (sr_query rq)"
    by (simp add: key_of_request_def)
  with shadow_key_inject a assms(3,4) show ?thesis unfolding recent_answer_def by blast
qed

lemma end_held:
  assumes "honest_fwd_store ttl s c0" "shadow_end s now rq r c = (resp, c')" "now \<le> t" "fs_get s c' t k = Some x"
  shows "fs_get s c t k = Some x \<or> held_until ttl (log_answer now rq r) t k x"
proof (cases "c' = c")
  case True
  with assms(4) show ?thesis by simp
next
  case False
  with assms(2) obtain pt where pt: "parts_of_reply r = Inr pt" "sr_method rq = ''GET''" "pt_status pt = 200"
      "c' = fs_put s c now (key_of_request rq) pt"
    by (auto simp: shadow_end_def split: sum.splits if_splits)
  from assms(1,3) assms(4) [unfolded pt(4)]
  consider "k = key_of_request rq" "x = pt" "t - now < ttl" | "fs_get s c t k = Some x"
    unfolding honest_fwd_store_def by blast
  then show ?thesis
    using pt(1-3) assms(3) by cases (auto simp: held_until_def log_answer_def key_of_request_def)
qed

lemma shadow_inv_step:
  assumes honest: "honest_fwd_store ttl s c0"
    and "shadow_step s ok st fed w w'" and inv: "shadow_inv ttl s st fed w"
  shows "shadow_inv ttl s st fed w'"
  using assms(2)
proof cases
  case (pass t)
  with inv show ?thesis by (auto simp: shadow_inv_def)
next
  case (hit rq resp)
  from begin_Answer [OF hit(3)] obtain pt where pt: "sr_method rq = ''GET''" "fs_get s (sw_cache w) (sw_now w) (key_of_request rq) = Some pt"
      "resp = response_from_parts pt" "shadow_peer st fed rq \<noteq> None" by blast
  have "recent_answer ttl (sw_answers w) (sw_now w) rq pt"
    using inv pt(2) by (intro held_is_recent [OF _ pt(1) hit(2)]) (auto simp: shadow_inv_def)
  with inv hit(1) pt(3,4) show ?thesis by (auto simp: shadow_inv_def)
next
  case (miss rq q)
  with inv begin_Forwarded [OF miss(3)] show ?thesis by (auto simp: shadow_inv_def)
next
  case (reply rq r resp c')
  have rq: "CHR ''?'' \<notin> set (sr_path rq)" "shadow_peer st fed rq \<noteq> None"
    using inv reply(2) by (auto simp: shadow_inv_def)
  have resp: "resp = relayed_as r"
    using reply(3) by (auto simp: shadow_end_def relayed_as_def split: sum.splits)
  have held: "held_until ttl (sw_answers w') t k x" if t: "sw_now w \<le> t" and g: "fs_get s c' t k = Some x" for t k x
  proof -
    from end_held [OF honest reply(3) t g] inv t
    consider "held_until ttl (sw_answers w) t k x" | "held_until ttl (log_answer (sw_now w) rq r) t k x"
      by (auto simp: shadow_inv_def)
    then show ?thesis by cases (auto simp: reply(1) held_until_def)
  qed
  have answers: "CHR ''?'' \<notin> set (pa_path a)" if "a \<in> set (log_answer (sw_now w) rq r)" for a
    using that rq(1) by (auto simp: log_answer_iff)
  have served: "recent_answer ttl (sw_answers w') t q pt" if "recent_answer ttl (sw_answers w) t q pt" for t q pt
    using that by (simp add: reply(1) recent_answer_append)
  have waiting: "set (sw_waiting w') \<subseteq> set (sw_waiting w)"
    by (simp add: reply(1) set_remove1_subset)
  show ?thesis
    unfolding shadow_inv_def
  proof (intro conjI)
    show "\<forall>t k x. sw_now w' \<le> t \<longrightarrow> fs_get s (sw_cache w') t k = Some x \<longrightarrow> held_until ttl (sw_answers w') t k x"
      using held by (simp add: reply(1))
    show "\<forall>a \<in> set (sw_answers w'). CHR ''?'' \<notin> set (pa_path a)"
      using inv answers by (auto simp: reply(1) shadow_inv_def)
    show "\<forall>rq \<in> set (sw_waiting w'). CHR ''?'' \<notin> set (sr_path rq) \<and> shadow_peer st fed rq \<noteq> None"
      using inv waiting unfolding shadow_inv_def by blast
    have old: "\<forall>(t, rq, resp) \<in> set (sw_served w'). shadow_peer st fed rq \<noteq> None \<and>
        (\<exists>pt. resp = response_from_parts pt \<and> recent_answer ttl (sw_answers w) t rq pt)"
      using inv by (simp add: shadow_inv_def reply(1))
    show "\<forall>(t, rq, resp) \<in> set (sw_served w'). shadow_peer st fed rq \<noteq> None \<and>
        (\<exists>pt. resp = response_from_parts pt \<and> recent_answer ttl (sw_answers w') t rq pt)"
    proof clarsimp
      fix t q x assume "(t, q, x) \<in> set (sw_served w')"
      with old obtain pt y where "x = response_from_parts pt" "recent_answer ttl (sw_answers w) t q pt"
          "shadow_peer st fed q = Some y" by auto
      with served show "(\<exists>y. shadow_peer st fed q = Some y) \<and>
          (\<exists>pt. x = response_from_parts pt \<and> recent_answer ttl (sw_answers w') t q pt)" by blast
    qed
    show "\<forall>(rq, r, resp) \<in> set (sw_relayed w'). shadow_peer st fed rq \<noteq> None \<and> resp = relayed_as r"
      using inv rq(2) resp by (auto simp: reply(1) shadow_inv_def)
  qed
qed

lemma shadow_inv_reachable:
  assumes "honest_fwd_store ttl s c0" "(shadow_step s ok st fed)\<^sup>*\<^sup>* (start_shadow c0) w"
  shows "shadow_inv ttl s st fed w"
  using assms(2)
proof induction
  case base
  from assms(1) show ?case by (auto simp: shadow_inv_def start_shadow_def honest_fwd_store_def)
next
  case (step w w')
  with shadow_inv_step [OF assms(1)] show ?case by blast
qed

text \<open>C14: What a shadow answers.  In every interleaving, a request the shadow does not run locally is a \<open>GET\<close> or \<open>HEAD\<close>
  and is answered with the peer's reply to that very request (a 502 when the peer is unreachable), or from the
  cache with a reply the peer gave to the same path and query less than the time to live ago.\<close>

theorem shadow_answers_come_from_peer:
  assumes "honest_fwd_store ttl s c0" "(shadow_step s ok st fed)\<^sup>*\<^sup>* (start_shadow c0) w"
  shows "(\<forall>(rq, r, resp) \<in> set (sw_relayed w). shadow_peer st fed rq \<noteq> None \<and> resp = relayed_as r) \<and>
    (\<forall>(t, rq, resp) \<in> set (sw_served w).
       shadow_peer st fed rq \<noteq> None \<and>
       (\<exists>a \<in> set (sw_answers w). pa_path a = sr_path rq \<and> query_text (pa_query a) = query_text (sr_query rq) \<and>
          pa_time a \<le> t \<and> t < pa_time a + ttl \<and> resp = response_from_parts (pa_parts a)))"
  using shadow_inv_reachable [OF assms] by (fastforce simp: shadow_inv_def recent_answer_def)


definition sample_fwd_store :: "(string \<times> int \<times> parts) list fwd_store" where
  \<comment> \<open>entries that live 30 seconds\<close>
  "sample_fwd_store =
     \<lparr>fs_get = (\<lambda>c t k. map_option (snd \<circ> snd) (find (\<lambda>(k', t0, v). k' = k \<and> t - t0 < 30) c)),
      fs_put = (\<lambda>c t k v. (k, t, v) # c)\<rparr>"

lemma sample_fwd_store_honest: "honest_fwd_store 30 sample_fwd_store []"
  by (auto simp: honest_fwd_store_def sample_fwd_store_def split: if_splits)

definition sample_shadow_settings :: settings where
  "sample_shadow_settings = from_env (\<lambda>n. if n = ''LUMID_READ_FEDERATE'' then Some ''hq'' else None)"

definition sample_federation :: federation where
  "sample_federation =
     federation_new [\<lparr>peer_id = ''hq'', peer_base_url = ''http://hq'', peer_token = ''k1''\<rparr>] ''edge'' ''app''"

definition read_by :: "string \<Rightarrow> shadow_request" where
  "read_by sub =
     \<lparr>sr_method = ''GET'', sr_path = ''/dividends/A'', sr_query = None,
      sr_identity = Some \<lparr>i_sub = sub, i_role = ''user'', i_email = None, i_active = True, i_scopes = []\<rparr>\<rparr>"

definition sample_parts :: parts where
  "sample_parts = \<lparr>pt_status = 200, pt_headers = [], pt_body = ''[]''\<rparr>"

lemma sample_shadow_peer: "shadow_peer sample_shadow_settings sample_federation (read_by u) =
    Some \<lparr>peer_id = ''hq'', peer_base_url = ''http://hq'', peer_token = ''k1''\<rparr>"
proof -
  have "read_federate (s_mesh sample_shadow_settings) = Some ''hq''" by code_simp
  moreover have "\<not> is_local_only ''/dividends/A''" by code_simp
  moreover have "\<not> is_local_retrieval_blob ''/dividends/A'' (retrieval_prefix (s_retrieval sample_shadow_settings))"
    by code_simp
  ultimately show ?thesis
    by (simp add: shadow_peer_def sample_federation_def federation_new_def fed_peer_def hm_insert_def read_by_def)
qed

lemma alice_then_bob:
  \<comment> \<open>alice's read is forwarded and stored; bob's, five seconds later, is answered from the store\<close>
  "\<exists>w. (shadow_step sample_fwd_store ok sample_shadow_settings sample_federation)\<^sup>*\<^sup>* (start_shadow []) w \<and>
     (5, read_by ''bob'', response_from_parts sample_parts) \<in> set (sw_served w)"
proof -
  let ?step = "shadow_step sample_fwd_store ok sample_shadow_settings sample_federation"
  let ?a = "read_by ''alice''" and ?b = "read_by ''bob''"
  let ?r = "Reply 200 [] (Some ''[]'')"
  have key: "key_of_request (read_by u) = ''GET /dividends/A''" for u
    by (simp add: key_of_request_def shadow_key_def read_by_def)
  have q: "CHR ''?'' \<notin> set (sr_path (read_by u))" for u by (simp add: read_by_def)
  have m: "sr_method (read_by u) = ''GET''" for u by (simp add: read_by_def)
  have pt: "parts_of_reply ?r = Inr sample_parts"
    by (simp add: parts_of_reply_def sample_parts_def relayed_def List.map_filter_def)
  define w0 :: "(string \<times> int \<times> parts) list shadow_world" where "w0 = start_shadow []"
  define w1 where "w1 = w0\<lparr>sw_waiting := ?a # sw_waiting w0\<rparr>"
  define w2 where "w2 = w1\<lparr>sw_cache := [(''GET /dividends/A'', 0, sample_parts)], sw_waiting := remove1 ?a (sw_waiting w1),
      sw_answers := log_answer (sw_now w1) ?a ?r @ sw_answers w1,
      sw_relayed := (?a, ?r, response_from_parts sample_parts) # sw_relayed w1\<rparr>"
  define w3 where "w3 = w2\<lparr>sw_now := 5\<rparr>"
  define w4 where "w4 = w3\<lparr>sw_served := (sw_now w3, ?b, response_from_parts sample_parts) # sw_served w3\<rparr>"
  have "\<exists>x. shadow_begin sample_fwd_store ok sample_shadow_settings sample_federation (sw_now w0) ?a (sw_cache w0) = Forwarded x"
    by (simp add: shadow_begin_def sample_shadow_peer sample_fwd_store_def w0_def start_shadow_def)
  then have s1: "?step w0 w1" unfolding w1_def using q by (auto intro: shadow_step.miss)
  have "shadow_end sample_fwd_store (sw_now w1) ?a ?r (sw_cache w1) =
      (response_from_parts sample_parts, [(''GET /dividends/A'', 0, sample_parts)])"
    by (simp add: shadow_end_def pt m key sample_fwd_store_def w1_def w0_def start_shadow_def) (simp add: sample_parts_def)
  then have s2: "?step w1 w2" unfolding w2_def by (intro shadow_step.reply) (auto simp: w1_def)
  have s3: "?step w2 w3" unfolding w3_def by (rule shadow_step.pass) (simp add: w2_def w1_def w0_def start_shadow_def)
  have "shadow_begin sample_fwd_store ok sample_shadow_settings sample_federation (sw_now w3) ?b (sw_cache w3) =
      Answer (response_from_parts sample_parts)"
    by (simp add: shadow_begin_def sample_shadow_peer m key sample_fwd_store_def w3_def w2_def)
  then have s4: "?step w3 w4" unfolding w4_def using q by (intro shadow_step.hit)
  from s1 s2 s3 s4 have "?step\<^sup>*\<^sup>* (start_shadow []) w4"
    unfolding w0_def [symmetric] by (meson converse_rtranclp_into_rtranclp rtranclp.rtrancl_refl)
  moreover have "(5, ?b, response_from_parts sample_parts) \<in> set (sw_served w4)" by (simp add: w4_def w3_def)
  ultimately show ?thesis by blast
qed

theorem shadow_answers_come_from_peer_witness:
  "\<exists>w. \<exists>a \<in> set (sw_answers w).
     (shadow_step sample_fwd_store (\<lambda>_. True) sample_shadow_settings sample_federation)\<^sup>*\<^sup>* (start_shadow []) w \<and>
     pa_path a = ''/dividends/A'' \<and> pa_time a \<le> 5 \<and> 5 < pa_time a + 30 \<and>
     (5, read_by ''bob'', response_from_parts (pa_parts a)) \<in> set (sw_served w)"
proof -
  obtain w where w: "(shadow_step sample_fwd_store (\<lambda>_. True) sample_shadow_settings sample_federation)\<^sup>*\<^sup>* (start_shadow []) w"
      "(5, read_by ''bob'', response_from_parts sample_parts) \<in> set (sw_served w)"
    using alice_then_bob by blast
  from shadow_answers_come_from_peer [OF sample_fwd_store_honest w(1)] w(2)
  obtain a where "a \<in> set (sw_answers w)" "pa_path a = sr_path (read_by ''bob'')" "pa_time a \<le> 5" "5 < pa_time a + 30"
      "response_from_parts sample_parts = response_from_parts (pa_parts a)" by fastforce
  with w show ?thesis by (intro exI [of _ w] bexI [of _ a]) (simp_all add: read_by_def)
qed

section \<open>The hop\<close>

text \<open>The caller's own credentials never reach the peer: the only authorization is the peer's token.\<close>

lemma hop_carries_only_the_peer_token:
  "(''authorization'', v) \<in> set (oq_headers (forward_request fed ok p meth path query body origin)) \<longleftrightarrow>
     peer_token p \<noteq> [] \<and> v = ''Bearer '' @ peer_token p"
  by (auto simp: forward_request_def)

lemma chars_of_bytes:
  "ch \<in> set (chars_of s) \<Longrightarrow> c \<in> set ch \<Longrightarrow> ch = [c] \<or> 128 \<le> code c"
proof (induction s rule: chars_of.induct)
  case (2 d cs)
  show ?case
  proof (cases "code d < 128")
    case True
    with 2 show ?thesis by auto
  next
    case False
    with 2 show ?thesis by (auto simp: is_continuation_def dest!: set_takeWhileD)
  qed
qed simp

lemma no_header_injection:
  "c \<in> set (sanitize_header ok s) \<Longrightarrow> 32 \<le> code c \<and> code c \<noteq> 127"
proof -
  assume "c \<in> set (sanitize_header ok s)"
  then obtain ch where ch: "ch \<in> set (filter (\<lambda>ch. \<not> is_control ch) (chars_of s))" "c \<in> set ch"
    by (auto simp: sanitize_header_def Let_def split: if_splits dest: in_set_takeD)
  then have "ch = [c] \<or> 128 \<le> code c" using chars_of_bytes [of ch s c] by simp
  with ch(1) show ?thesis by (auto simp: is_control_def)
qed

text \<open>
  What the peer sees of the caller: nothing.  A peer that knows the shadow's token as a local key gives every
  forwarded read the same local identity, whoever the caller is; a read that is scoped to its caller, or that an
  administrator may widen, is then answered for that identity.
\<close>

lemma peer_sees_one_identity:
  assumes "peer_token p \<noteq> []" "trim (peer_token p) = peer_token p" "as_local_keys pst (peer_token p) = Some label"
  shows "resolve_identity pst (map_of (oq_headers (forward_request fed ok p meth path query [] origin))) =
    (pst, Inr (Some (local_identity label)))"
proof -
  have "eq_ignore_case ''Bearer'' ''bearer''" by code_simp
  with assms show ?thesis
    by (simp add: resolve_identity_def extract_token_def api_key_def bearer_token_def forward_request_def non_empty_def)
qed

lemma every_shadow_caller_is_elevated:
  assumes "e_admin_cross_tenant ep" "trim (ap_admin_read_role ap) \<noteq> []" "rq_identity rq = Some (local_identity label)"
  shows "effective_read_role ap ep rq = trim (ap_admin_read_role ap)"
  using assms by (simp add: effective_read_role_def admin_read_elevation_def caller_role_def local_identity_def Let_def)

lemma writes_stay_local:
  "sr_method rq \<noteq> ''GET'' \<Longrightarrow> sr_method rq \<noteq> ''HEAD'' \<Longrightarrow>
     shadow_forward s ok exch st fed now later local rq c = (local, c)"
  by (auto simp: shadow_forward_def shadow_begin_def shadow_peer_def split: option.splits)

lemma unset_prefix_keeps_blobs_remote: "\<not> is_local_retrieval_blob path (replicate n (CHR ''/''))"
  by (simp add: is_local_retrieval_blob_def trim_slashes_def trim_end_slashes_def Let_def dropWhile_replicate)

end
