(* ===== verification/Llm_Stream.thy ===== *)
theory Llm_Stream
  imports Llm_Route
begin

text \<open>
  The streaming half of the LLM proxy (\<open>handlers/llm.rs\<close>): the stream set-up with
  its retry loop and hedge plan, the relay task that races the local backend
  against OpenRouter, and the route handlers that choose between the JSON and
  the streaming path.

  A stream set-up answers either a whole response or starts a relay task.  The
  relay is a state machine: an event is one thing that happens to the task or to
  one of its channels (a local chunk, the end of the local stream, a chunk or
  the end of the hedge, a chunk received from the hedge, the hedge timer, a
  keep-alive tick, the client going away), and a run is a list of events in any
  order.  The client's channel is unbounded, so a send fails only once the
  client is gone.
\<close>

section \<open>Frames\<close>

definition KEEPALIVE_FRAME :: string where
  "KEEPALIVE_FRAME = '': keep-alive'' @ [CHR 0x0A, CHR 0x0A]"

datatype stream_side = LocalSide | HedgeSide

fun strip_all :: "string \<Rightarrow> string \<Rightarrow> string" where
  \<comment> \<open>\<open>trim_start_matches\<close> of a non-empty pattern: the length bounds the repetitions\<close>
  "strip_all p s =
     (case strip_prefix p s of
        Some r \<Rightarrow> if length r < length s then strip_all p r else s
      | None \<Rightarrow> s)"

declare strip_all.simps [simp del]

definition is_data_line :: "string \<Rightarrow> bool" where
  "is_data_line l \<longleftrightarrow> starts_with l ''data:'' \<and> trim (strip_all ''data:'' l) \<noteq> []"

definition chunk_has_data_frame :: "string \<Rightarrow> bool" where
  "chunk_has_data_frame b \<longleftrightarrow> \<not> utf8_valid b \<or> list_ex is_data_line (lines b)"

definition model_is_mapped :: "llm_settings \<Rightarrow> json \<Rightarrow> bool" where
  "model_is_mapped s body =
     (case as_str (json_get ''model'' body) of
        Some m \<Rightarrow> map_of (llm_openrouter_model_map s) m \<noteq> None
      | None \<Rightarrow> False)"

section \<open>The relay task\<close>

datatype relay_event =
    LocalChunk string
  | LocalEnd
  | HedgeChunk string  \<comment> \<open>the hedge task puts a chunk on its channel\<close>
  | HedgeEnd  \<comment> \<open>the hedge task ends and drops its sender\<close>
  | HedgeRecv  \<comment> \<open>the relay takes the next chunk off the hedge channel\<close>
  | HedgeTimer
  | KeepaliveTick
  | ClientGone

datatype origin = FromLocal | FromHedge | Keepalive

datatype phase = Racing | Draining | Finished

record relay =
  rl_phase :: phase
  rl_winner :: "stream_side option"
  rl_plan :: bool
  rl_hedge_started :: bool
  rl_queue :: "string list"
  rl_sender_open :: bool
  rl_client_open :: bool
  rl_sent :: "(origin \<times> string) list"

definition relay_init :: "bool \<Rightarrow> relay" where
  "relay_init plan =
     \<lparr>rl_phase = Racing, rl_winner = None, rl_plan = plan, rl_hedge_started = False, rl_queue = [],
      rl_sender_open = True, rl_client_open = True, rl_sent = []\<rparr>"

definition deliver :: "origin \<Rightarrow> string \<Rightarrow> relay \<Rightarrow> relay" where
  \<comment> \<open>\<open>tx.send\<close>, leaving the loop when it fails\<close>
  "deliver src b r =
     (if rl_client_open r then r\<lparr>rl_sent := rl_sent r @ [(src, b)]\<rparr> else r\<lparr>rl_phase := Finished\<rparr>)"

definition decide :: "stream_side \<Rightarrow> string \<Rightarrow> relay \<Rightarrow> relay" where
  "decide side b r =
     (if rl_winner r = None \<and> chunk_has_data_frame b then r\<lparr>rl_winner := Some side\<rparr> else r)"

definition on_local_chunk :: "string \<Rightarrow> relay \<Rightarrow> relay" where
  "on_local_chunk b r =
     (let r1 = decide LocalSide b r
      in if rl_winner r1 \<noteq> Some HedgeSide then deliver FromLocal b r1 else r1)"

definition on_local_end :: "relay \<Rightarrow> relay" where
  "on_local_end r =
     (if rl_winner r = Some LocalSide \<or> \<not> rl_hedge_started r then r\<lparr>rl_phase := Finished\<rparr>
      else if \<not> rl_sender_open r \<and> rl_queue r = [] then r\<lparr>rl_phase := Finished\<rparr>
      else r\<lparr>rl_phase := Draining\<rparr>)"

definition on_hedge_recv :: "relay \<Rightarrow> relay" where
  "on_hedge_recv r =
     (case rl_queue r of
        [] \<Rightarrow> r
      | b # q \<Rightarrow>
          (let r1 = decide HedgeSide b (r\<lparr>rl_queue := q\<rparr>)
           in if rl_winner r1 = Some HedgeSide then deliver FromHedge b r1 else r1))"

definition on_drain_recv :: "relay \<Rightarrow> relay" where
  "on_drain_recv r =
     (case rl_queue r of
        [] \<Rightarrow> if rl_sender_open r then r else r\<lparr>rl_phase := Finished\<rparr>
      | b # q \<Rightarrow> deliver FromHedge b (r\<lparr>rl_queue := q\<rparr>))"

definition on_keepalive :: "relay \<Rightarrow> relay" where
  "on_keepalive r =
     (if \<not> rl_client_open r then r\<lparr>rl_phase := Finished\<rparr>
      else if rl_winner r = None then deliver Keepalive KEEPALIVE_FRAME r
      else r)"

fun relay_step :: "relay_event \<Rightarrow> relay \<Rightarrow> relay" where
  "relay_step (LocalChunk b) r = (if rl_phase r = Racing then on_local_chunk b r else r)"
| "relay_step LocalEnd r = (if rl_phase r = Racing then on_local_end r else r)"
| "relay_step (HedgeChunk b) r =
     (if rl_hedge_started r \<and> rl_sender_open r \<and> rl_phase r \<noteq> Finished then r\<lparr>rl_queue := rl_queue r @ [b]\<rparr> else r)"
| "relay_step HedgeEnd r = (if rl_hedge_started r then r\<lparr>rl_sender_open := False\<rparr> else r)"
| "relay_step HedgeRecv r =
     (if rl_phase r = Racing \<and> rl_hedge_started r then on_hedge_recv r
      else if rl_phase r = Draining then on_drain_recv r
      else r)"
| "relay_step HedgeTimer r =
     (if rl_phase r = Racing \<and> \<not> rl_hedge_started r \<and> rl_winner r = None \<and> rl_plan r
      then r\<lparr>rl_hedge_started := True\<rparr> else r)"
| "relay_step KeepaliveTick r = (if rl_phase r = Racing then on_keepalive r else r)"
| "relay_step ClientGone r = r\<lparr>rl_client_open := False\<rparr>"

definition relay_run :: "relay_event list \<Rightarrow> relay \<Rightarrow> relay" where
  "relay_run es r = fold relay_step es r"

section \<open>Setting up a stream\<close>

datatype stream_reply =
    Whole response
  | LocalRelay nat "http_request option"  \<comment> \<open>the backend, its slot still held, and the hedge plan\<close>
  | PlainRelay target  \<comment> \<open>a relay with keep-alives and nothing else\<close>

definition hedge_plan :: "settings \<Rightarrow> backend_pool \<Rightarrow> string \<Rightarrow> json \<Rightarrow> http_request option" where
  "hedge_plan st bp path body =
     (if 0 < llm_hedge_after_s (s_llm st) \<and> bp_openrouter_url bp \<noteq> [] \<and> model_is_mapped (s_llm st) body
      then Some \<lparr>hr_method = ''POST'', hr_url = bp_openrouter_url bp @ path,
                 hr_headers = [(''Authorization'', ''Bearer '' @ openrouter_key (s_llm st))],
                 hr_json = Some (rewrite_model_for_openrouter (s_llm st) body), hr_raw = None\<rparr>
      else None)"

definition proxy_stream_openrouter ::
  "llm_ext \<Rightarrow> network \<Rightarrow> settings \<Rightarrow> string \<Rightarrow> json \<Rightarrow> llm_world \<Rightarrow> stream_reply \<times> llm_world" where
  "proxy_stream_openrouter x net st path body w =
     (case send net ToRouter (router_request st (lw_pool w) ''POST'' path (Some body)) w of
        (Answered status hs b, w1) \<Rightarrow>
          (if status < 400 then (PlainRelay ToRouter, w1)
           else (Whole (sse_response (status_frame x False status hs b)), w1))
      | (NoAnswer timeout, w1) \<Rightarrow>
          (Whole (sse_response (error_frame x [(''error'', JString ''openrouter unreachable'')])), w1))"

fun proxy_stream_loop ::
  "llm_ext \<Rightarrow> network \<Rightarrow> settings \<Rightarrow> string \<Rightarrow> json \<Rightarrow> nat list \<Rightarrow> llm_world \<Rightarrow> stream_reply option \<times> llm_world" where
  "proxy_stream_loop x net st path body [] w = (None, w)"
| "proxy_stream_loop x net st path body (i # is) w =
     (case send net (ToLocal i) (local_request st w i ''POST'' path (Some body)) (with_handle i acquire_slot w) of
        (NoAnswer timeout, w1) \<Rightarrow>
          proxy_stream_loop x net st path body is (with_handle i drop_slot (with_handle i on_connect_err w1))
      | (Answered status hs b, w1) \<Rightarrow>
          (if status = 503 then
             proxy_stream_loop x net st path body is (with_handle i drop_slot (with_handle i on_connect_err w1))
           else if 400 \<le> status then
             (Some (Whole (sse_response (status_frame x True status hs b))),
              with_handle i drop_slot (with_handle i on_connect_ok w1))
           else (Some (LocalRelay i (hedge_plan st (lw_pool w1) path body)), with_handle i on_connect_ok w1)))"

definition proxy_stream ::
  "llm_ext \<Rightarrow> network \<Rightarrow> settings \<Rightarrow> nat list \<Rightarrow> string \<Rightarrow> json \<Rightarrow> llm_world \<Rightarrow> stream_reply \<times> llm_world" where
  "proxy_stream x net st backends path body w =
     (case proxy_stream_loop x net st path body backends w of
        (Some r, w1) \<Rightarrow> (r, w1)
      | (None, w1) \<Rightarrow>
          (if openrouter_serves (llm_openrouter_model_map (s_llm st)) (bp_openrouter_url (lw_pool w1))
                (case model_of body of Some m \<Rightarrow> m | None \<Rightarrow> [])
           then proxy_stream_openrouter x net st path (rewrite_model_for_openrouter (s_llm st) body) w1
           else (Whole (sse_response (error_frame x [(''error'', JString ''all LLM backends unavailable'')])), w1)))"

definition proxy_stream_peer ::
  "llm_ext \<Rightarrow> network \<Rightarrow> settings \<Rightarrow> peer \<Rightarrow> string \<Rightarrow> json \<Rightarrow> string \<times> string \<Rightarrow> llm_world \<Rightarrow> stream_reply \<times> llm_world" where
  "proxy_stream_peer x net st p path body origin w =
     (case send net ToPeer
             \<lparr>hr_method = ''POST'', hr_url = trim_end_slashes (peer_base_url p) @ path,
              hr_headers = apply_peer_auth st p origin, hr_json = Some body, hr_raw = None\<rparr> w of
        (NoAnswer timeout, w1) \<Rightarrow>
          (Whole (sse_response (error_frame x [(''error'', JString ''upstream unreachable'')])), w1)
      | (Answered status hs b, w1) \<Rightarrow>
          (if 400 \<le> status then (Whole (sse_response (status_frame x True status hs b)), w1)
           else (PlainRelay ToPeer, w1)))"

definition dispatch_stream ::
  "llm_ext \<Rightarrow> network \<Rightarrow> string \<Rightarrow> settings \<Rightarrow> identity option \<Rightarrow> string \<Rightarrow> json \<Rightarrow> llm_world \<Rightarrow>
     stream_reply \<times> llm_world" where
  "dispatch_stream x net rid st ident path body w =
     (case federation_peer st of
        Inl e \<Rightarrow> (Whole (into_response rid e), w)
      | Inr (Some p) \<Rightarrow> proxy_stream_peer x net st p path body (origin_of ident) w
      | Inr None \<Rightarrow>
          (case llm_resolve st (lw_pool w) (model_of body) (llm_caller_role ident)
                  (is_short_prompt x (llm_short_prompt_tokens (s_llm st)) body) of
             Inl e \<Rightarrow> (Whole (into_response rid e), w)
           | Inr None \<Rightarrow> proxy_stream_openrouter x net st path (rewrite_model_for_openrouter (s_llm st) body) w
           | Inr (Some backends) \<Rightarrow> proxy_stream x net st backends path body w))"

section \<open>The route handlers\<close>

definition json_route ::
  "llm_ext \<Rightarrow> network \<Rightarrow> string \<Rightarrow> settings \<Rightarrow> identity option \<Rightarrow> string \<Rightarrow> (json \<Rightarrow> json) \<Rightarrow> json \<Rightarrow> llm_world \<Rightarrow>
     stream_reply \<times> llm_world" where
  "json_route x net rid st ident path adjust body w =
     (case require_object body of
        Inl e \<Rightarrow> (Whole (into_response rid e), w)
      | Inr b \<Rightarrow> map_prod Whole id (dispatch_json x net rid st ident ''POST'' path (adjust b) w))"

definition stream_route ::
  "llm_ext \<Rightarrow> network \<Rightarrow> string \<Rightarrow> settings \<Rightarrow> identity option \<Rightarrow> string \<Rightarrow> (json \<Rightarrow> json) \<Rightarrow> json \<Rightarrow> llm_world \<Rightarrow>
     stream_reply \<times> llm_world" where
  "stream_route x net rid st ident path adjust body w =
     (case require_object body of
        Inl e \<Rightarrow> (Whole (into_response rid e), w)
      | Inr b \<Rightarrow>
          (if wants_stream (adjust b) then dispatch_stream x net rid st ident path (adjust b) w
           else map_prod Whole id (dispatch_json x net rid st ident ''POST'' path (adjust b) w)))"

definition chat_completions where
  "chat_completions x net rid st ident =
     stream_route x net rid st ident ''/v1/chat/completions'' (apply_default_model (s_llm st))"

definition completions where
  "completions x net rid st ident =
     stream_route x net rid st ident ''/v1/completions'' (apply_default_model (s_llm st))"

definition embeddings where
  "embeddings x net rid st ident =
     json_route x net rid st ident ''/v1/embeddings'' (apply_default_model (s_llm st))"

definition images_generations where
  "images_generations x net rid st ident =
     json_route x net rid st ident ''/v1/images/generations'' (apply_default_model (s_llm st))"

definition audio_speech ::
  "network \<Rightarrow> string \<Rightarrow> settings \<Rightarrow> identity option \<Rightarrow> json \<Rightarrow> llm_world \<Rightarrow> response \<times> llm_world" where
  "audio_speech net rid st ident body w =
     (case require_object body of
        Inl e \<Rightarrow> (into_response rid e, w)
      | Inr b \<Rightarrow> dispatch_bytes net rid st ident ''/v1/audio/speech'' (apply_default_model (s_llm st) b) w)"

definition messages where
  "messages x net rid st ident =
     stream_route x net rid st ident ''/v1/messages''
       (\<lambda>b. apply_thinking_control (apply_default_model (s_llm st) b))"

definition count_tokens where
  "count_tokens x net rid st ident =
     json_route x net rid st ident ''/v1/messages/count_tokens'' (apply_default_model (s_llm st))"

section \<open>The hedge race\<close>

fun is_data :: "origin \<times> string \<Rightarrow> bool" where
  "is_data (src, b) \<longleftrightarrow> src \<noteq> Keepalive \<and> chunk_has_data_frame b"

definition answer_of :: "(origin \<times> string) list \<Rightarrow> (origin \<times> string) list" where
  \<comment> \<open>what the client receives from the first chunk with a data frame on\<close>
  "answer_of cs = dropWhile (\<lambda>c. \<not> is_data c) cs"

lemma answer_of_snoc [simp]:
  "answer_of [] = []"
  "answer_of (cs @ [c]) = (if answer_of cs = [] then (if is_data c then [c] else []) else answer_of cs @ [c])"
  by (auto simp: answer_of_def dropWhile_append dropWhile_eq_Nil_conv)

definition all_from :: "origin \<Rightarrow> (origin \<times> string) list \<Rightarrow> bool" where
  "all_from src cs \<longleftrightarrow> list_all (\<lambda>c. fst c = src) cs"

lemma all_from_simps [simp]:
  "all_from src []" "all_from src [c] \<longleftrightarrow> fst c = src" "all_from src (xs @ ys) \<longleftrightarrow> all_from src xs \<and> all_from src ys"
  by (simp_all add: all_from_def)

definition relay_inv :: "relay \<Rightarrow> bool" where
  "relay_inv r \<longleftrightarrow>
     (case rl_winner r of
        Some LocalSide \<Rightarrow> rl_phase r \<noteq> Draining \<and> all_from FromLocal (answer_of (rl_sent r))
      | Some HedgeSide \<Rightarrow> all_from FromHedge (answer_of (rl_sent r))
      | None \<Rightarrow> all_from FromHedge (answer_of (rl_sent r)) \<and> (rl_phase r = Racing \<longrightarrow> answer_of (rl_sent r) = []))"

lemmas relay_defs = on_local_chunk_def on_local_end_def on_hedge_recv_def on_drain_recv_def on_keepalive_def
  decide_def deliver_def

lemma relay_inv_step: "relay_inv r \<Longrightarrow> relay_inv (relay_step e r)"
  by (cases e) (auto simp: relay_inv_def relay_defs Let_def split: option.splits stream_side.splits list.splits if_splits)

lemma relay_run_snoc [simp]:
  "relay_run [] r = r" "relay_run (es @ [e]) r = relay_step e (relay_run es r)"
  by (simp_all add: relay_run_def)

lemma relay_inv_run: "relay_inv (relay_run es (relay_init plan))"
proof (induction es rule: rev_induct)
  case Nil
  show ?case by (simp add: relay_inv_def relay_init_def)
qed (simp add: relay_inv_step)


text \<open>The local chunks the relay is given before the local stream ends.\<close>

fun local_chunks :: "relay_event list \<Rightarrow> string list" where
  "local_chunks [] = []"
| "local_chunks (LocalChunk b # es) = b # local_chunks es"
| "local_chunks (LocalEnd # es) = []"
| "local_chunks (e # es) = local_chunks es"

definition delivered :: "origin \<Rightarrow> relay \<Rightarrow> string list" where
  "delivered src r = map snd (filter (\<lambda>c. fst c = src) (rl_sent r))"

fun hedge_has_data :: "relay_event \<Rightarrow> bool" where
  "hedge_has_data (HedgeChunk b) \<longleftrightarrow> chunk_has_data_frame b"
| "hedge_has_data e \<longleftrightarrow> False"

definition hedge_silent :: "relay \<Rightarrow> bool" where
  "hedge_silent r \<longleftrightarrow> rl_client_open r \<and> rl_winner r \<noteq> Some HedgeSide \<and> list_all (\<lambda>b. \<not> chunk_has_data_frame b) (rl_queue r)"

lemma hedge_silent_step:
  "hedge_silent r \<Longrightarrow> \<not> hedge_has_data e \<Longrightarrow> e \<noteq> ClientGone \<Longrightarrow> hedge_silent (relay_step e r)"
  by (cases e) (auto simp: hedge_silent_def relay_defs Let_def split: list.splits)

lemma local_delivered_step:
  assumes "hedge_silent r" "\<not> hedge_has_data e" "e \<noteq> ClientGone"
  shows "delivered FromLocal (relay_step e r) =
      delivered FromLocal r @ (case e of LocalChunk b \<Rightarrow> if rl_phase r = Racing then [b] else [] | _ \<Rightarrow> [])"
    "rl_phase (relay_step e r) = Racing \<longleftrightarrow> rl_phase r = Racing \<and> e \<noteq> LocalEnd"
  using assms by (cases e; auto simp: hedge_silent_def delivered_def relay_defs Let_def split: list.splits)+

lemma local_delivered_run:
  "hedge_silent r \<Longrightarrow> list_all (\<lambda>e. \<not> hedge_has_data e \<and> e \<noteq> ClientGone) es \<Longrightarrow>
     delivered FromLocal (relay_run es r) = delivered FromLocal r @ (if rl_phase r = Racing then local_chunks es else [])"
proof (induction es arbitrary: r)
  case (Cons e es)
  then have "delivered FromLocal (relay_run es (relay_step e r)) =
      delivered FromLocal (relay_step e r) @ (if rl_phase (relay_step e r) = Racing then local_chunks es else [])"
    using hedge_silent_step by simp
  with Cons.prems local_delivered_step [of r e] show ?case
    by (cases e) (simp_all add: relay_run_def)
qed (simp add: relay_run_def)

text \<open>A hedge never costs the local answer.  While the client stays and OpenRouter produces no data frame (because it
  is unreachable, refuses or is slow), every chunk of the local backend reaches the client, in order
  and unchanged, whether or not a hedge was started.\<close>

theorem hedge_never_loses_local_answer:
  assumes "list_all (\<lambda>e. \<not> hedge_has_data e \<and> e \<noteq> ClientGone) es"
  shows "delivered FromLocal (relay_run es (relay_init plan)) = local_chunks es"
  using local_delivered_run [OF _ assms, of "relay_init plan"]
  by (simp add: hedge_silent_def relay_init_def delivered_def)

theorem hedge_never_loses_local_answer_witness:
  "delivered FromLocal (relay_run [KeepaliveTick, HedgeTimer, HedgeChunk '': wait'', HedgeRecv, LocalChunk ''data: a'',
      HedgeEnd, LocalChunk ''data: b'', LocalEnd] (relay_init True)) = [''data: a'', ''data: b'']"
proof -
  have "\<not> chunk_has_data_frame '': wait''" by code_simp
  then show ?thesis
    by (subst hedge_never_loses_local_answer) simp_all
qed

text \<open>A relay whose client left ends at the next tick and frees its slot.\<close>

lemma client_gone_ends_race:
  "rl_phase r = Racing \<Longrightarrow> rl_phase (relay_run [ClientGone, KeepaliveTick] r) = Finished"
  by (simp add: relay_run_def on_keepalive_def)

text \<open>The draining phase has no tick: with a silent hedge it holds the slot although the client left.\<close>

lemma drain_ignores_disconnect:
  "rl_phase (relay_run ([HedgeTimer, LocalEnd, ClientGone] @ replicate n KeepaliveTick) (relay_init True)) = Draining"
proof -
  have "fold relay_step (replicate n KeepaliveTick) r = r" if "rl_phase r = Draining" for r
    using that by (induction n) auto
  then show ?thesis by (simp add: relay_run_def relay_init_def on_local_end_def)
qed

text \<open>The start of the hedge's first data frame is lost when the frame comes in two chunks.\<close>

lemma split_hedge_frame_is_cut:
  "rl_sent (relay_run [HedgeTimer, HedgeChunk ''da'', HedgeChunk (''ta: x'' @ [CHR 0x0A] @ ''data: y''), HedgeRecv, HedgeRecv]
     (relay_init True)) = [(FromHedge, ''ta: x'' @ [CHR 0x0A] @ ''data: y'')]"
  by code_simp

section \<open>Metered requests\<close>

fun planned :: "stream_reply \<Rightarrow> (target \<times> http_request) list" where
  \<comment> \<open>the request the relay task may still send\<close>
  "planned (LocalRelay i (Some rq)) = [(ToRouter, rq)]"
| "planned r = []"

lemma extends_proxy_stream_openrouter:
  "P (ToRouter, router_request st (lw_pool w) ''POST'' path (Some body)) \<Longrightarrow>
     extends P w (snd (proxy_stream_openrouter x net st path body w)) \<and> planned (fst (proxy_stream_openrouter x net st path body w)) = []"
  by (auto simp: proxy_stream_openrouter_def intro: extends_send_eq split: prod.splits http_outcome.splits)

lemma extends_proxy_stream_peer:
  "(\<And>rq. P (ToPeer, rq)) \<Longrightarrow>
     extends P w (snd (proxy_stream_peer x net st p path body origin w)) \<and> planned (fst (proxy_stream_peer x net st p path body origin w)) = []"
  by (auto simp: proxy_stream_peer_def intro: extends_send_eq split: prod.splits http_outcome.splits)

definition plan_ok :: "settings \<Rightarrow> string \<Rightarrow> json \<Rightarrow> (target \<times> http_request \<Rightarrow> bool) \<Rightarrow> bool" where
  "plan_ok st url body P \<longleftrightarrow>
     (\<forall>rq. hr_json rq = Some (rewrite_model_for_openrouter (s_llm st) body) \<and> url \<noteq> [] \<and> model_is_mapped (s_llm st) body \<longrightarrow>
        P (ToRouter, rq))"

lemma planned_hedge:
  "plan_ok st (bp_openrouter_url bp) body P \<Longrightarrow> list_all P (planned (LocalRelay i (hedge_plan st bp path body)))"
  by (auto simp: hedge_plan_def plan_ok_def)

lemma extends_proxy_stream_loop:
  assumes P: "\<And>i rq. P (ToLocal i, rq)"
  shows "plan_ok st (bp_openrouter_url (lw_pool w)) body P \<Longrightarrow>
    extends P w (snd (proxy_stream_loop x net st path body is w)) \<and>
    (case fst (proxy_stream_loop x net st path body is w) of Some r \<Rightarrow> list_all P (planned r) | None \<Rightarrow> True)"
proof (induction "is" arbitrary: w)
  case (Cons i "is")
  let ?s = "send net (ToLocal i) (local_request st w i ''POST'' path (Some body)) (with_handle i acquire_slot w)"
  let ?w1 = "with_handle i drop_slot (with_handle i on_connect_err (snd ?s))"
  have s: "extends P w (snd ?s)" using P by (rule extends_send_handle)
  then have w1: "extends P w ?w1" and u: "bp_openrouter_url (lw_pool (snd ?s)) = bp_openrouter_url (lw_pool w)"
    by (simp_all add: extends_def)
  with Cons have ih: "extends P w (snd (proxy_stream_loop x net st path body is ?w1))"
     "case fst (proxy_stream_loop x net st path body is ?w1) of Some r \<Rightarrow> list_all P (planned r) | None \<Rightarrow> True"
    using extends_trans [OF w1] by simp_all
  have h: "list_all P (planned (LocalRelay i (hedge_plan st (lw_pool (snd ?s)) path body)))"
    using Cons.prems by (intro planned_hedge) (simp add: u)
  from ih h s show ?case
    by (cases ?s; cases "fst ?s") auto
qed simp

lemma mapped_is_metered:
  assumes "llm_openrouter_model_map (s_llm st) = parse_model_map spec"
  shows "model_is_mapped (s_llm st) body \<Longrightarrow> metered st body"
    "openrouter_serves (llm_openrouter_model_map (s_llm st)) url (case model_of body of Some m \<Rightarrow> m | None \<Rightarrow> []) \<Longrightarrow> metered st body"
  using parse_model_map_keys [of spec]
  by (auto simp: model_is_mapped_def metered_def openrouter_serves_def model_of_def assms split: option.splits)

lemma extends_proxy_stream:
  assumes P: "\<And>i rq. P (ToLocal i, rq)" and m: "llm_openrouter_model_map (s_llm st) = parse_model_map spec"
    and R: "\<And>rq. metered st b \<Longrightarrow> bp_openrouter_url (lw_pool w) \<noteq> [] \<Longrightarrow>
      hr_json rq = Some (rewrite_model_for_openrouter (s_llm st) b) \<Longrightarrow> P (ToRouter, rq)"
  shows "extends P w (snd (proxy_stream x net st is path b w)) \<and> list_all P (planned (fst (proxy_stream x net st is path b w)))"
proof -
  obtain r w1 where l: "proxy_stream_loop x net st path b is w = (r, w1)"
    by (cases "proxy_stream_loop x net st path b is w")
  have "plan_ok st (bp_openrouter_url (lw_pool w)) b P"
    using R mapped_is_metered [OF m] by (simp add: plan_ok_def)
  from extends_proxy_stream_loop [OF P this, of x net path "is"] l
  have e: "extends P w w1" and p: "case r of Some r \<Rightarrow> list_all P (planned r) | None \<Rightarrow> True" by simp_all
  from e have u: "bp_openrouter_url (lw_pool w1) = bp_openrouter_url (lw_pool w)" by (simp add: extends_def)
  let ?o = "proxy_stream_openrouter x net st path (rewrite_model_for_openrouter (s_llm st) b) w1"
  have "extends P w (snd ?o) \<and> planned (fst ?o) = []" if "metered st b" "bp_openrouter_url (lw_pool w) \<noteq> []"
    using extends_proxy_stream_openrouter [of P st w1 path "rewrite_model_for_openrouter (s_llm st) b" x net] R [OF that]
      extends_trans [OF e] by simp
  with e p u mapped_is_metered(2) [OF m] show ?thesis
    by (auto simp: proxy_stream_def l openrouter_serves_def split: option.splits)
qed

lemma dispatch_stream_leaves:
  assumes m: "llm_openrouter_model_map (s_llm st) = parse_model_map spec"
  shows "extends (may_leave st ident (lw_pool w) body) w (snd (dispatch_stream x net rid st ident path body w)) \<and>
    list_all (may_leave st ident (lw_pool w) body) (planned (fst (dispatch_stream x net rid st ident path body w)))"
proof -
  let ?P = "may_leave st ident (lw_pool w) body"
  let ?r = "llm_resolve st (lw_pool w) (model_of body) (llm_caller_role ident)
              (is_short_prompt x (llm_short_prompt_tokens (s_llm st)) body)"
  let ?o = "proxy_stream_openrouter x net st path (rewrite_model_for_openrouter (s_llm st) body) w"
  have 1: "extends ?P w (snd ?o) \<and> planned (fst ?o) = []" if "?r = Inr None"
    using resolve_None [OF that] by (intro extends_proxy_stream_openrouter) (auto intro: allowlistedI dest: metered_url)
  have 2: "extends ?P w (snd (proxy_stream x net st bs path body w)) \<and> list_all ?P (planned (fst (proxy_stream x net st bs path body w)))"
    if "?r = Inr (Some bs)" for bs
    using resolve_Some [OF that] by (intro extends_proxy_stream [OF _ m]) (auto simp: metered_def intro: allowlistedI)
  have 3: "extends ?P w (snd (proxy_stream_peer x net st p path body og w)) \<and> planned (fst (proxy_stream_peer x net st p path body og w)) = []"
    for p og by (rule extends_proxy_stream_peer) simp
  show ?thesis
    using 3 by (auto simp: dispatch_stream_def 1 2 split: sum.splits option.splits)
qed

definition calls_since :: "llm_world \<Rightarrow> llm_world \<Rightarrow> (target \<times> http_request) list" where
  "calls_since w w' = drop (length (lw_calls w)) (lw_calls w')"

lemma extends_calls_since: "extends P w w' \<Longrightarrow> list_all P (calls_since w w')"
  by (auto simp: extends_def calls_since_def)


section \<open>Slots of a stream\<close>

definition held_by :: "stream_reply \<Rightarrow> int list \<Rightarrow> int list" where
  \<comment> \<open>the counters once a reply is given: a relay to a local backend keeps its slot\<close>
  "held_by r ns = (case r of LocalRelay i plan \<Rightarrow> ns[i := as_i32 (ns ! i + 1)] | _ \<Rightarrow> ns)"

lemma slots_openrouter [simp]:
  "slots (snd (proxy_json_openrouter x net st meth path body w)) = slots w"
  "slots (snd (proxy_stream_openrouter x net st path b w)) = slots w"
  "slots (snd (proxy_json_peer x net st p meth path body og w)) = slots w"
  "slots (snd (proxy_stream_peer x net st p path b og w)) = slots w"
  by (auto simp: proxy_json_openrouter_def proxy_stream_openrouter_def proxy_json_peer_def proxy_stream_peer_def
      send_def slots_def split: http_outcome.splits option.splits)

lemma slots_proxy_json: "wf_slots w \<Longrightarrow> slots (snd (proxy_json x net st is meth path body w)) = slots w"
  using slots_proxy_json_loop [of w x net st meth path body "is" None]
  by (auto simp: proxy_json_def Let_def split: prod.splits sum.splits option.splits)

lemma slots_dispatch_json: "wf_slots w \<Longrightarrow> slots (snd (dispatch_json x net rid st ident meth path body w)) = slots w"
  by (auto simp: dispatch_json_def slots_proxy_json split: sum.splits option.splits)

lemma slots_after_connect:
  "slots (with_handle i on_connect_ok (snd (send net t rq (with_handle i acquire_slot w)))) =
     held_by (LocalRelay i plan) (slots w)"
  by (cases "i < length (bp_all (lw_pool w))")
     (auto simp: held_by_def slots_def with_handle_def on_handle_def send_def acquire_slot_def map_update list_update_beyond)

lemma slots_proxy_stream_loop:
  "wf_slots w \<Longrightarrow>
     slots (snd (proxy_stream_loop x net st path body is w)) =
       (case fst (proxy_stream_loop x net st path body is w) of Some r \<Rightarrow> held_by r (slots w) | None \<Rightarrow> slots w)"
proof (induction "is" arbitrary: w)
  case (Cons i "is")
  let ?rq = "local_request st w i ''POST'' path (Some body)"
  let ?s = "send net (ToLocal i) ?rq (with_handle i acquire_slot w)"
  have ok: "slots (with_handle i drop_slot (with_handle i on_connect_ok (snd ?s))) = slots w"
    and err: "slots (with_handle i drop_slot (with_handle i on_connect_err (snd ?s))) = slots w"
    using Cons.prems by (rule bracket_balanced [OF inflight_connect(1)], rule bracket_balanced [OF inflight_connect(2)])
  have "wf_slots (with_handle i drop_slot (with_handle i on_connect_err (snd ?s)))"
    using Cons.prems wf_slots_cong [OF err] by simp
  from Cons.IH [OF this, unfolded err] err ok slots_after_connect [of i net "ToLocal i" ?rq w] show ?case
    by (cases ?s; cases "fst ?s") (auto simp: held_by_def)
qed simp

lemma slots_proxy_stream:
  "wf_slots w \<Longrightarrow>
     slots (snd (proxy_stream x net st is path body w)) = held_by (fst (proxy_stream x net st is path body w)) (slots w)"
  using slots_proxy_stream_loop [of w x net st path body "is"]
  by (auto simp: proxy_stream_def proxy_stream_openrouter_def held_by_def send_def slots_def
      split: prod.splits option.splits http_outcome.splits)

lemma no_local_relay [simp]:
  "held_by (fst (proxy_stream_openrouter x net st path b w)) ns = ns"
  "held_by (fst (proxy_stream_peer x net st p path b og w)) ns = ns"
  "held_by (Whole resp) ns = ns"
  by (auto simp: proxy_stream_openrouter_def proxy_stream_peer_def held_by_def split: prod.splits http_outcome.splits)

lemma slots_dispatch_stream:
  "wf_slots w \<Longrightarrow>
     slots (snd (dispatch_stream x net rid st ident path body w)) =
       held_by (fst (dispatch_stream x net rid st ident path body w)) (slots w)"
  by (auto simp: dispatch_stream_def slots_proxy_stream split: sum.splits option.splits)


definition sample_llm_ext :: llm_ext where
  "sample_llm_ext = \<lparr>lx_from_slice = (\<lambda>_. None), lx_to_string = (\<lambda>_. ''{}''), lx_to_vec = (\<lambda>_. Some []), lx_text = (\<lambda>_ b. b)\<rparr>"

definition sample_env :: environment where
  "sample_env = [''LUMID_LLM_BACKEND_URL'' \<mapsto> ''http://b'', ''LUMID_LLM_BACKENDS'' \<mapsto> ''m=http://a#tier=1,http://b'']"

definition sample_world :: llm_world where
  "sample_world = \<lparr>lw_pool = sample_pool, lw_calls = []\<rparr>"

definition flaky_net :: network where
  \<comment> \<open>the first backend is unreachable, the next one answers\<close>
  "flaky_net n rq = (if n = 0 then NoAnswer False else Answered 200 [] (Some []))"


text \<open>A catalog request with one roster backend and no primary fails although the backend is configured.\<close>

lemma lone_roster_backend_has_no_catalog:
  "fst (list_models sample_llm_ext (\<lambda>_ _. Answered 200 [] (Some [])) ''r''
      (from_env [''LUMID_LLM_BACKENDS'' \<mapsto> ''m=http://a'']) None
      \<lparr>lw_pool = from_settings (s_llm (from_env [''LUMID_LLM_BACKENDS'' \<mapsto> ''m=http://a''])), lw_calls = []\<rparr>) =
   detail_response 502 ''all LLM backends unavailable''"
  by code_simp

end
