(* ===== verification/Write_Coerce.thy ===== *)
theory Write_Coerce
  imports Api_Error
begin

text \<open>
  Coercion of a JSON value to the text of a \<open>COPY\<close> cell (\<open>write/coerce.rs\<close>).  A
  missing cell is written as the NULL sentinel, so a cell whose text is the
  sentinel is read back as NULL.

  The printers of \<open>serde_json\<close> and the calendar arithmetic of \<open>chrono\<close> are
  arguments (\<open>printers\<close>).
\<close>

record printers =
  show_number :: "number \<Rightarrow> string"
  show_json :: "json \<Rightarrow> string"
  iso_seconds :: "int \<Rightarrow> string option"  \<comment> \<open>seconds since the epoch, if the date is representable\<close>

definition NULL_TOKEN :: string where
  "NULL_TOKEN = ''__FINAI_NULL_b8e3__''"

definition BAD_FLOAT_TOKENS :: "string list" where
  "BAD_FLOAT_TOKENS = ['''', ''n/a'', ''na'', ''null'', ''none'', ''nan'', ''-'', ''--'', ''inf'', ''-inf'']"

definition is_texty :: "string \<Rightarrow> bool" where
  "is_texty dtype \<longleftrightarrow>
     (let t = to_lowercase dtype
      in starts_with t ''text'' \<or> starts_with t ''varchar'' \<or> starts_with t ''char'' \<or>
         t \<in> {''character varying'', ''character'', ''tsvector'', ''jsonb'', ''json'', ''uuid''})"

definition parse_numeric_str :: "string \<Rightarrow> string option" where
  "parse_numeric_str s0 =
     (let s = filter (\<lambda>c. c \<noteq> CHR '','') (trim s0)
      in if s = [] \<or> to_lowercase s \<in> set BAD_FLOAT_TOKENS then None
         else
           (let s2 = rev (dropWhile (\<lambda>c. c = CHR ''%'') (rev (dropWhile (\<lambda>c. c = CHR ''$'') s)))
            in if parse_f64 s2 \<noteq> None then Some s2 else None))"

definition is_numeric :: "string \<Rightarrow> bool" where
  "is_numeric t \<longleftrightarrow>
     t \<in> {''numeric'', ''decimal'', ''double precision'', ''real'', ''float'', ''float8'', ''float4''}"

definition is_integer :: "string \<Rightarrow> bool" where
  "is_integer t \<longleftrightarrow> t \<in> {''int'', ''integer'', ''int4'', ''smallint'', ''int2'', ''bigint'', ''int8''}"

definition date_prefix :: "string \<Rightarrow> string option" where
  "date_prefix s =
     (if 10 \<le> length s \<and> list_all is_ascii_digit (take 4 s) \<and> s ! 4 = CHR ''-'' \<and>
         list_all is_ascii_digit (take 2 (drop 5 s)) \<and> s ! 7 = CHR ''-'' \<and>
         list_all is_ascii_digit (take 2 (drop 8 s))
      then Some (take 10 s) else None)"

fun as_f64 :: "number \<Rightarrow> f64" where
  "as_f64 (NInt n) = f64_of_int n"
| "as_f64 (NFloat d) = d"

definition epoch_to_iso :: "printers \<Rightarrow> f64 \<Rightarrow> string option" where
  "epoch_to_iso pr secs = iso_seconds pr (f64_trunc_to (- (2 ^ 63)) (2 ^ 63 - 1) secs)"

definition bool_text :: "bool \<Rightarrow> string" where
  "bool_text b = (if b then ''true'' else ''false'')"

definition cell_of_bool :: "string \<Rightarrow> bool \<Rightarrow> string" where
  "cell_of_bool t b =
     (if t = ''boolean'' \<or> t = ''bool'' then bool_text b
      else if starts_with t ''text'' \<or> starts_with t ''varchar'' \<or> starts_with t ''char'' \<or> t = ''character varying''
      then bool_text b
      else if is_numeric t then (if b then ''1'' else ''0'')
      else bool_text b)"

definition cell_of_number :: "printers \<Rightarrow> string \<Rightarrow> number \<Rightarrow> string option" where
  "cell_of_number pr t n =
     (if is_numeric t \<or> is_integer t then Some (show_number pr n)
      else if t = ''boolean'' \<or> t = ''bool'' then
        (case n of NInt i \<Rightarrow> if i = 1 then Some ''true'' else if i = 0 then Some ''false'' else None | NFloat _ \<Rightarrow> None)
      else if starts_with t ''timestamp'' then epoch_to_iso pr (as_f64 n)
      else Some (show_number pr n))"

definition cell_of_string :: "string \<Rightarrow> string \<Rightarrow> string option" where
  "cell_of_string t s =
     (let trimmed = trim s; low = to_lowercase trimmed
      in if trimmed = [] then None
         else if \<not> is_texty t \<and> low \<in> {''none'', ''null'', ''nan'', ''n/a''} then None
         else if is_numeric t \<or> is_integer t then parse_numeric_str trimmed
         else if t = ''boolean'' \<or> t = ''bool'' then
           (if low \<in> {''true'', ''t'', ''1'', ''yes'', ''y''} then Some ''true''
            else if low \<in> {''false'', ''f'', ''0'', ''no'', ''n''} then Some ''false''
            else None)
         else if t = ''date'' then
           Some (case date_prefix trimmed of Some d \<Rightarrow> d | None \<Rightarrow> trimmed)
         else Some s)"

definition cell_for :: "printers \<Rightarrow> json \<Rightarrow> string \<Rightarrow> string option" where
  "cell_for pr v data_type =
     (let t = to_lowercase data_type
      in case v of
           JNull \<Rightarrow> None
         | _ \<Rightarrow>
             if t = ''jsonb'' \<or> t = ''json'' then
               (case v of JString s \<Rightarrow> Some s | other \<Rightarrow> Some (show_json pr other))
             else
               (case v of
                  JBool b \<Rightarrow> Some (cell_of_bool t b)
                | JNumber n \<Rightarrow> cell_of_number pr t n
                | JString s \<Rightarrow> cell_of_string t s
                | other \<Rightarrow> Some (show_json pr other)))"

section \<open>What a cell can be\<close>

lemma parse_numeric_parses: "parse_numeric_str s = Some c \<Longrightarrow> \<exists>d. parse_f64 c = Some d"
  by (auto simp: parse_numeric_str_def Let_def split: if_splits)

lemma numeric_column_cell:
  \<comment> \<open>a string that reaches a numeric or integer column parses as a number\<close>
  assumes "is_numeric (to_lowercase dt) \<or> is_integer (to_lowercase dt)" "cell_for pr (JString s) dt = Some c"
  shows "\<exists>d. parse_f64 c = Some d"
proof -
  have "to_lowercase dt \<noteq> ''jsonb'' \<and> to_lowercase dt \<noteq> ''json''"
    using assms(1) by (auto simp: is_numeric_def is_integer_def)
  with assms have "parse_numeric_str (trim s) = Some c"
    by (auto simp: cell_for_def cell_of_string_def Let_def split: if_splits)
  then show ?thesis by (rule parse_numeric_parses)
qed

lemma date_prefix_shape: "date_prefix s = Some d \<Longrightarrow> length d = 10 \<and> take 10 s = d"
  by (auto simp: date_prefix_def split: if_splits)

text \<open>A Boolean for an integer column becomes the word, not the digit.\<close>

lemma bool_for_integer_column: "cell_for pr (JBool True) ''integer'' = Some ''true''"
  by (simp add: cell_for_def cell_of_bool_def is_numeric_def bool_text_def to_lowercase_def to_lower_byte_def
      is_ascii_upper_def starts_with_def code_def)

text \<open>A text value equal to the sentinel is its own cell, hence read back as NULL.\<close>

lemma sentinel_text_is_null: "cell_for pr (JString NULL_TOKEN) ''text'' = Some NULL_TOKEN"
  by code_simp

end
