(* ===== verification/Ingest_Validate.thy ===== *)
theory Ingest_Validate
  imports Api_Error
begin

text \<open>
  What an ingest checks before it writes: the table metadata read from
  \<open>information_schema\<close> (\<open>write/introspect.rs\<close>), the validation of records against
  it (\<open>validation/mod.rs\<close>), and the role and capability checks
  (\<open>ingest/acl.rs\<close>) with their 30-second cache.

  The rows the catalog queries return are arguments.  Times are nanoseconds.
\<close>

section \<open>Table metadata\<close>

record column_row =
  cr_name :: string
  cr_data_type :: string
  cr_udt_name :: string
  cr_is_nullable :: string
  cr_default :: "string option"
  cr_is_generated :: "string option"
  cr_identity :: "string option"

record column_info =
  c_name :: string
  c_data_type :: string
  c_udt_name :: string
  c_is_nullable :: bool
  c_has_default :: bool

record table_meta =
  tm_columns :: "column_info list"
  tm_conflict_cols :: "string list"

definition column_of_row :: "column_row \<Rightarrow> column_info option" where
  "column_of_row r =
     (if cr_is_generated r = Some ''ALWAYS'' \<or> cr_identity r = Some ''ALWAYS'' then None
      else Some \<lparr>c_name = cr_name r, c_data_type = cr_data_type r, c_udt_name = cr_udt_name r,
                 c_is_nullable = (cr_is_nullable r = ''YES''), c_has_default = (cr_default r \<noteq> None)\<rparr>)"

definition get_target_columns :: "column_row list \<Rightarrow> column_info list" where
  "get_target_columns rows = List.map_filter column_of_row rows"

definition generated_columns :: "column_row list \<Rightarrow> string list" where
  "generated_columns rows =
     map cr_name (filter (\<lambda>r. cr_is_generated r = Some ''ALWAYS'' \<or> cr_identity r \<noteq> None) rows)"

record key_row =
  kr_column :: string
  kr_type :: string
  kr_constraint :: string

type_synonym key_groups = "((string \<times> string) \<times> string list) list"

fun add_to_group :: "string \<times> string \<Rightarrow> string \<Rightarrow> key_groups \<Rightarrow> key_groups" where
  "add_to_group k c [] = [(k, [c])]"
| "add_to_group k c ((j, cs) # gs) = (if j = k then (j, cs @ [c]) # gs else (j, cs) # add_to_group k c gs)"

definition get_unique_columns :: "key_row list \<Rightarrow> string list" where
  "get_unique_columns rows =
     (let groups = fold (\<lambda>r. add_to_group (kr_type r, kr_constraint r) (kr_column r)) rows []
      in case find (\<lambda>((ct, cn), cols). ct = ''UNIQUE'' \<and> ''id'' \<notin> set cols) groups of
           Some (k, cols) \<Rightarrow> cols
         | None \<Rightarrow> (case groups of [] \<Rightarrow> [] | (k, cols) # _ \<Rightarrow> cols))"

definition introspected :: "column_row list \<Rightarrow> key_row list \<Rightarrow> table_meta option" where
  \<comment> \<open>\<open>table_meta\<close> on a cache miss\<close>
  "introspected cols keys =
     (let cs = get_target_columns cols
      in if cs = [] then None else Some \<lparr>tm_columns = cs, tm_conflict_cols = get_unique_columns keys\<rparr>)"

section \<open>Record validation\<close>

definition SERVER_STAMPED_COLS :: "string list" where
  "SERVER_STAMPED_COLS = [''source'', ''source_endpoint'', ''source_run_id'', ''ingest_ts'', ''id'']"

record rejected =
  rj_index :: nat
  rj_error :: string
  rj_record :: json

definition key_error :: "table_meta \<Rightarrow> string \<Rightarrow> string option" where
  "key_error meta k =
     (if k \<in> set SERVER_STAMPED_COLS then Some (''field '' @ [CHR 0x27] @ k @ [CHR 0x27] @ '' is set server-side and must not be supplied'')
      else if k \<notin> c_name ` set (tm_columns meta) then Some (''unknown field '' @ [CHR 0x27] @ k @ [CHR 0x27])
      else None)"

definition required_column :: "column_info \<Rightarrow> bool" where
  "required_column c \<longleftrightarrow>
     c_name c \<notin> set SERVER_STAMPED_COLS \<and> c_name c \<noteq> ''raw'' \<and> \<not> c_is_nullable c \<and> \<not> c_has_default c"

definition column_error :: "(string \<times> json) list \<Rightarrow> column_info \<Rightarrow> string option" where
  "column_error obj c =
     (if required_column c then
        (case map_of obj (c_name c) of
           None \<Rightarrow> Some (''missing required field '' @ [CHR 0x27] @ c_name c @ [CHR 0x27])
         | Some JNull \<Rightarrow> Some (''field '' @ [CHR 0x27] @ c_name c @ [CHR 0x27] @ '' must not be null'')
         | Some _ \<Rightarrow> None)
      else None)"

fun first_some :: "('a \<Rightarrow> 'b option) \<Rightarrow> 'a list \<Rightarrow> 'b option" where
  "first_some f [] = None"
| "first_some f (x # xs) = (case f x of Some y \<Rightarrow> Some y | None \<Rightarrow> first_some f xs)"

definition validate_one :: "table_meta \<Rightarrow> json \<Rightarrow> string option" where
  \<comment> \<open>\<open>None\<close> is acceptance\<close>
  "validate_one meta rec =
     (case rec of
        JObject obj \<Rightarrow>
          (case first_some (key_error meta) (map fst obj) of
             Some e \<Rightarrow> Some e
           | None \<Rightarrow> first_some (column_error obj) (tm_columns meta))
      | _ \<Rightarrow> Some ''record must be a JSON object'')"

fun validate_from :: "table_meta \<Rightarrow> nat \<Rightarrow> json list \<Rightarrow> json list \<times> rejected list" where
  "validate_from meta idx [] = ([], [])"
| "validate_from meta idx (rec # recs) =
     (case validate_from meta (Suc idx) recs of
        (parsed, rejected) \<Rightarrow>
          (case validate_one meta rec of
             None \<Rightarrow> (rec # parsed, rejected)
           | Some e \<Rightarrow> (parsed, \<lparr>rj_index = idx, rj_error = e, rj_record = rec\<rparr> # rejected)))"

definition validate_batch :: "table_meta \<Rightarrow> json list \<Rightarrow> json list \<times> rejected list" where
  "validate_batch meta records = validate_from meta 0 records"

section \<open>The role ACL\<close>

type_synonym acl_map = "(string \<times> string \<times> string, bool) hash_map"

record acl_cache =
  ac_map :: acl_map
  ac_loaded_at :: "int option"

definition CACHE_TTL :: int where "CACHE_TTL = 30 * 1000000000"

definition acl_invalidate :: "acl_cache \<Rightarrow> acl_cache" where
  "acl_invalidate c = c\<lparr>ac_loaded_at := None\<rparr>"

definition acl_store :: "acl_map \<Rightarrow> int \<Rightarrow> acl_cache \<Rightarrow> acl_cache" where
  "acl_store fresh at c = c\<lparr>ac_map := fresh, ac_loaded_at := Some at\<rparr>"

definition cache_snapshot ::
  "(int \<Rightarrow> acl_map api_result) \<Rightarrow> int \<Rightarrow> int \<Rightarrow> acl_cache \<Rightarrow> acl_map api_result \<times> acl_cache" where
  \<comment> \<open>\<open>load\<close> reads the table at \<open>now\<close>; the cache is stamped when the read is back, at \<open>done\<close>\<close>
  "cache_snapshot load now done c =
     (case (case ac_loaded_at c of Some at \<Rightarrow> now - at < CACHE_TTL \<and> ac_map c \<noteq> [] | None \<Rightarrow> False) of
        True \<Rightarrow> (Inr (ac_map c), c)
      | False \<Rightarrow>
          (case load now of
             Inl e \<Rightarrow> (Inl e, c)
           | Inr fresh \<Rightarrow> (Inr fresh, acl_store fresh done c)))"

definition acl_allows :: "acl_map \<Rightarrow> string \<Rightarrow> string \<Rightarrow> string \<Rightarrow> bool" where
  "acl_allows m role sch tbl \<longleftrightarrow>
     list_ex (\<lambda>k. map_of m k = Some True) [(role, sch, tbl), (role, sch, ''*''), (role, ''*'', ''*'')]"

definition write_verdict :: "acl_map \<Rightarrow> string \<Rightarrow> string \<Rightarrow> string \<Rightarrow> unit api_result" where
  "write_verdict m role sch tbl =
     (if acl_allows m role sch tbl then Inr ()
      else Inl (Forbidden (''role '' @ debug_str role @ '' not authorized to write '' @ sch @ ''.'' @ tbl)))"

definition check_can_write ::
  "(int \<Rightarrow> acl_map api_result) \<Rightarrow> int \<Rightarrow> int \<Rightarrow> string \<Rightarrow> string \<Rightarrow> string \<Rightarrow> acl_cache \<Rightarrow> unit api_result \<times> acl_cache" where
  "check_can_write load now done role sch tbl c =
     (case cache_snapshot load now done c of
        (Inl e, c1) \<Rightarrow> (Inl e, c1)
      | (Inr m, c1) \<Rightarrow> (write_verdict m role sch tbl, c1))"

definition can_propose ::
  "(int \<Rightarrow> acl_map api_result) \<Rightarrow> int \<Rightarrow> int \<Rightarrow> string \<Rightarrow> acl_cache \<Rightarrow> bool api_result \<times> acl_cache" where
  "can_propose load now done role c =
     (case cache_snapshot load now done c of
        (Inl e, c1) \<Rightarrow> (Inl e, c1)
      | (Inr m, c1) \<Rightarrow> (Inr (list_ex (\<lambda>((r, s, t), allow). r = role \<and> allow) m), c1))"

definition CAP_GRANTS :: "(string \<times> string \<times> string) list" where
  "CAP_GRANTS =
     [(''lqt:universe:refresh'', ''mailbox'', ''lqt_inbox''),
      (''lqt:strategy'', ''mailbox'', ''lqt_inbox''),
      (''lqt:trading'', ''mailbox'', ''lqt_inbox'')]"

definition scope_grants_write :: "string list \<Rightarrow> string \<Rightarrow> string \<Rightarrow> bool" where
  "scope_grants_write scopes sch tbl =
     list_ex (\<lambda>(cap, s, t). s = sch \<and> t = tbl \<and> cap \<in> set scopes) CAP_GRANTS"

section \<open>Properties\<close>

lemma first_some_None: "first_some f xs = None \<longleftrightarrow> (\<forall>x \<in> set xs. f x = None)"
  by (induction xs) (auto split: option.splits)

definition acceptable :: "table_meta \<Rightarrow> json \<Rightarrow> bool" where
  \<comment> \<open>the contract of the validator, without its order of checks\<close>
  "acceptable meta rec \<longleftrightarrow>
     (\<exists>obj. rec = JObject obj \<and>
        (\<forall>k \<in> fst ` set obj. k \<notin> set SERVER_STAMPED_COLS \<and> k \<in> c_name ` set (tm_columns meta)) \<and>
        (\<forall>c \<in> set (tm_columns meta). required_column c \<longrightarrow> (\<exists>v. map_of obj (c_name c) = Some v \<and> v \<noteq> JNull)))"

lemma validate_one_iff: "validate_one meta rec = None \<longleftrightarrow> acceptable meta rec"
proof (cases rec)
  case (JObject obj)
  have "first_some (key_error meta) (map fst obj) = None \<longleftrightarrow>
      (\<forall>k \<in> fst ` set obj. k \<notin> set SERVER_STAMPED_COLS \<and> k \<in> c_name ` set (tm_columns meta))"
    by (auto simp: first_some_None key_error_def)
  moreover have "first_some (column_error obj) (tm_columns meta) = None \<longleftrightarrow>
      (\<forall>c \<in> set (tm_columns meta). required_column c \<longrightarrow> (\<exists>v. map_of obj (c_name c) = Some v \<and> v \<noteq> JNull))"
    unfolding first_some_None
    by (rule ball_cong) (auto simp: column_error_def split: option.splits json.splits)
  ultimately show ?thesis
    by (auto simp: validate_one_def acceptable_def JObject split: option.splits)
qed (auto simp: validate_one_def acceptable_def)

lemma validate_from_spec:
  "validate_from meta idx recs =
     (filter (acceptable meta) recs,
      map (\<lambda>(i, r). \<lparr>rj_index = idx + i, rj_error = the (validate_one meta r), rj_record = r\<rparr>)
        (filter (\<lambda>(i, r). \<not> acceptable meta r) (zip [0 ..< length recs] recs)))"
proof (induction recs arbitrary: idx)
  case (Cons r recs)
  have z: "zip [0 ..< length (r # recs)] (r # recs) = (0, r) # map (\<lambda>(i, r). (Suc i, r)) (zip [0 ..< length recs] recs)"
    by (simp add: upt_conv_Cons map_Suc_upt [symmetric] zip_map1 del: upt_Suc)
  have "validate_one meta r = None \<longleftrightarrow> acceptable meta r" by (rule validate_one_iff)
  then show ?case
    unfolding z by (cases "validate_one meta r") (auto simp: Cons.IH filter_map comp_def case_prod_unfold)
qed simp

text \<open>C39: Validation is exact.  A batch is split without loss: the accepted records are, in order, those that are
  objects with only known columns, no server-stamped column and a non-null value for every required
  column; every other record is reported with its position, its reason and its content.\<close>

theorem validate_batch_exact:
  "validate_batch meta records =
     (filter (acceptable meta) records,
      map (\<lambda>(i, r). \<lparr>rj_index = i, rj_error = the (validate_one meta r), rj_record = r\<rparr>)
        (filter (\<lambda>(i, r). \<not> acceptable meta r) (zip [0 ..< length records] records)))"
  by (simp add: validate_batch_def validate_from_spec)

text \<open>
  The cache is shared by all requests: between a check's read of the cache and
  its own store, loads of other requests and invalidations come in any order.
\<close>

datatype acl_event = Stored int acl_map int  \<comment> \<open>a load that read the table at the first time and stored at the second\<close>
  | Invalidated

fun acl_event_step :: "acl_event \<Rightarrow> acl_cache \<Rightarrow> acl_cache" where
  "acl_event_step (Stored t m at) c = acl_store m at c"
| "acl_event_step Invalidated c = acl_invalidate c"

fun prompt :: "(int \<Rightarrow> acl_map api_result) \<Rightarrow> int \<Rightarrow> int \<Rightarrow> acl_event \<Rightarrow> bool" where
  \<comment> \<open>a load takes at most \<open>latency\<close> and stores what it read before \<open>now\<close>\<close>
  "prompt load latency now (Stored t m at) \<longleftrightarrow> load t = Inr m \<and> t \<le> at \<and> at \<le> t + latency \<and> at \<le> now"
| "prompt load latency now Invalidated \<longleftrightarrow> True"

definition acl_inv :: "(int \<Rightarrow> acl_map api_result) \<Rightarrow> int \<Rightarrow> int \<Rightarrow> acl_cache \<Rightarrow> bool" where
  "acl_inv load latency now c \<longleftrightarrow>
     (\<forall>at. ac_loaded_at c = Some at \<longrightarrow> (\<exists>t \<le> at. load t = Inr (ac_map c) \<and> at \<le> t + latency \<and> at \<le> now))"

lemma acl_inv_step:
  "acl_inv load latency now c \<Longrightarrow> prompt load latency now e \<Longrightarrow> acl_inv load latency now (acl_event_step e c)"
  by (cases e) (auto simp: acl_inv_def acl_store_def acl_invalidate_def)

lemma acl_inv_run:
  "acl_inv load latency now c \<Longrightarrow> list_all (prompt load latency now) es \<Longrightarrow> acl_inv load latency now (fold acl_event_step es c)"
  by (induction es arbitrary: c) (simp_all add: acl_inv_step)

lemma snapshot_recent:
  assumes inv: "acl_inv load latency now c" and "0 \<le> latency" and m: "fst (cache_snapshot load now done c) = Inr m"
  shows "\<exists>t. load t = Inr m \<and> now - (30 * 1000000000 + latency) < t \<and> t \<le> now"
proof (cases "load now = Inr m")
  case True
  then show ?thesis using assms(2) by (intro exI [of _ now]) simp
next
  case False
  with m obtain at where at: "ac_loaded_at c = Some at" "now - at < CACHE_TTL" "ac_map c = m"
    by (auto simp: cache_snapshot_def split: option.splits sum.splits bool.splits if_splits)
  with inv obtain t where "t \<le> at" "load t = Inr m" "at \<le> t + latency" "at \<le> now"
    by (auto simp: acl_inv_def)
  with at(2) show ?thesis by (intro exI [of _ t]) (simp add: CACHE_TTL_def)
qed

lemma snapshot_error: "fst (cache_snapshot load now done c) = Inl e \<Longrightarrow> load now = Inl e"
  by (auto simp: cache_snapshot_def split: option.splits sum.splits bool.splits)

text \<open>C40: Revoked rights die within half a minute.  Whatever loads and invalidations of other requests came before, the
  verdict of a write check is the verdict of the access table as it was at some moment no older than
  30 seconds plus the duration of a load; when the table cannot be read the check fails with that error.\<close>

theorem acl_verdict_bounded_staleness:
  assumes "list_all (prompt load latency now) es" "0 \<le> latency"
  shows "(case fst (check_can_write load now done role sch tbl (fold acl_event_step es \<lparr>ac_map = [], ac_loaded_at = None\<rparr>)) of
      v \<Rightarrow> (\<exists>e. load now = Inl e \<and> v = Inl e) \<or>
           (\<exists>t m. load t = Inr m \<and> now - (30 * 1000000000 + latency) < t \<and> t \<le> now \<and> v = write_verdict m role sch tbl))"
proof -
  let ?c = "fold acl_event_step es \<lparr>ac_map = [], ac_loaded_at = None\<rparr>"
  have inv: "acl_inv load latency now ?c" using assms(1) by (intro acl_inv_run) (simp_all add: acl_inv_def)
  show ?thesis
  proof (cases "fst (cache_snapshot load now done ?c)")
    case (Inl e)
    with snapshot_error [OF Inl] show ?thesis by (auto simp: check_can_write_def split: prod.splits sum.splits)
  next
    case (Inr m)
    with snapshot_recent [OF inv assms(2) Inr] show ?thesis
      by (auto simp: check_can_write_def split: prod.splits sum.splits) blast
  qed
qed

definition sample_acl :: "int \<Rightarrow> acl_map api_result" where
  \<comment> \<open>a grant that is revoked at time 5\<close>
  "sample_acl t = Inr [((''writer'', ''s'', ''*''), t < 5)]"

theorem acl_verdict_bounded_staleness_witness:
  "\<exists>t m. sample_acl t = Inr m \<and> 100000000000 - 30000000002 < t \<and> t \<le> 100000000000 \<and>
     fst (check_can_write sample_acl 100000000000 100000000001 ''writer'' ''s'' ''t''
       (fold acl_event_step [Stored 3 [((''writer'', ''s'', ''*''), True)] 5] \<lparr>ac_map = [], ac_loaded_at = None\<rparr>)) =
     write_verdict m ''writer'' ''s'' ''t''"
proof -
  have "list_all (prompt sample_acl 2 100000000000) [Stored 3 [((''writer'', ''s'', ''*''), True)] 5]"
    by (simp add: sample_acl_def)
  from acl_verdict_bounded_staleness [OF this, of 100000000001 "''writer''" "''s''" "''t''"]
  show ?thesis by (simp add: sample_acl_def)
qed

text \<open>A capability opens the one table of its grant and nothing else.\<close>

lemma capability_is_narrow: "scope_grants_write scopes sch tbl \<Longrightarrow> sch = ''mailbox'' \<and> tbl = ''lqt_inbox''"
  by (auto simp: scope_grants_write_def CAP_GRANTS_def)

end
