(* ===== verification/Write_Engine.thy ===== *)
theory Write_Engine
  imports Write_Coerce Ingest_Validate
begin

text \<open>
  The Postgres write engine (\<open>write/engine.rs\<close> and the Postgres backend's
  \<open>write_records\<close>): the choice of the payload columns, the cells of the \<open>COPY\<close>
  payload, the staging table, the merge statement with its update and
  change-detection columns, and what that statement does to the target table.

  A row maps column names to values, \<open>None\<close> being NULL.  What the database
  contributes is in \<open>pg\<close>: the input conversion of a text for a type, the
  default of a column and the next value of an identity.  The statement's
  effect is the documented meaning of its clauses: \<open>DISTINCT ON\<close> keeps the first
  row of each key in the given order, here the last one staged, and a row
  conflicts with a target row when all key columns are equal and not NULL.
\<close>

type_synonym 'v row = "string \<Rightarrow> 'v option"

record 'v pg =
  pg_in :: "string \<Rightarrow> string \<Rightarrow> 'v option"
  pg_default :: "string \<Rightarrow> 'v option"
  pg_identity :: "'v row list \<Rightarrow> 'v option"

section \<open>The merge statement\<close>

definition PROV_REFRESH :: "string list" where
  "PROV_REFRESH = [''source_endpoint'', ''source_run_id'', ''ingest_ts'', ''raw'']"

definition is_prov_or_id :: "string \<Rightarrow> bool" where
  "is_prov_or_id c \<longleftrightarrow>
     c \<in> {''source'', ''source_endpoint'', ''source_run_id'', ''ingest_ts'', ''raw'', ''payload'', ''id''}"

record merge_plan =
  mp_keys :: "string list"
  mp_not_null_keys :: "string list"
  mp_insert_cols :: "string list"
  mp_set_cols :: "string list"
  mp_distinct_cols :: "string list"

definition flat_cols :: "string list \<Rightarrow> string list \<Rightarrow> string list" where
  "flat_cols all_cols keys = filter (\<lambda>c. c \<notin> set keys \<and> \<not> is_prov_or_id c) all_cols"

definition nullable_of :: "column_info list \<Rightarrow> string \<Rightarrow> bool" where
  "nullable_of cols name =
     (case find (\<lambda>c. c_name c = name) cols of Some c \<Rightarrow> c_is_nullable c | None \<Rightarrow> True)"

definition plan_merge :: "column_info list \<Rightarrow> string list \<Rightarrow> merge_plan" where
  "plan_merge target_cols conflict_cols =
     (let all_cols = map c_name target_cols; flat = flat_cols all_cols conflict_cols
      in \<lparr>mp_keys = conflict_cols,
          mp_not_null_keys = filter (\<lambda>c. \<not> nullable_of target_cols c) conflict_cols,
          mp_insert_cols = filter (\<lambda>c. c \<noteq> ''id'') all_cols,
          mp_set_cols = flat @ filter (\<lambda>c. c \<in> set all_cols) PROV_REFRESH @
            (if ''payload'' \<in> set all_cols then [''payload''] else []),
          mp_distinct_cols = flat @
            (if ''raw'' \<in> set all_cols \<and> ''raw'' \<notin> set flat then [''raw''] else []) @
            (if ''payload'' \<in> set all_cols then [''payload''] else [])\<rparr>)"

definition merge_sql :: "string \<Rightarrow> string \<Rightarrow> string \<Rightarrow> merge_plan \<Rightarrow> string" where
  "merge_sql sch tbl tmp p =
     (let cols = join '', '' (mp_insert_cols p); keys = join '', '' (mp_keys p);
          sets = join '', '' (map (\<lambda>c. c @ '' = EXCLUDED.'' @ c) (mp_set_cols p));
          wh = (if mp_distinct_cols p = [] then ''FALSE''
                else join '' OR '' (map (\<lambda>c. sch @ ''.'' @ tbl @ ''.'' @ c @ '' IS DISTINCT FROM EXCLUDED.'' @ c)
                                      (mp_distinct_cols p)));
          wk = (if mp_not_null_keys p = [] then ''TRUE''
                else join '' AND '' (map (\<lambda>c. c @ '' IS NOT NULL'') (mp_not_null_keys p)))
      in ''INSERT INTO '' @ sch @ ''.'' @ tbl @ '' ('' @ cols @ '') SELECT DISTINCT ON ('' @ keys @ '') '' @ cols @
         '' FROM '' @ tmp @ '' WHERE '' @ wk @ '' ORDER BY '' @ keys @ '', ctid DESC ON CONFLICT ('' @ keys @
         '') DO UPDATE SET '' @ sets @ '' WHERE '' @ wh @ '' RETURNING (xmax = 0) AS inserted'')"

section \<open>What the statement does\<close>

definition key_of :: "string list \<Rightarrow> 'v row \<Rightarrow> 'v option list" where
  "key_of ks r = map r ks"

fun last_per_key :: "string list \<Rightarrow> 'v row list \<Rightarrow> 'v row list" where
  "last_per_key ks [] = []"
| "last_per_key ks (r # rs) =
     (if key_of ks r \<in> key_of ks ` set rs then last_per_key ks rs else r # last_per_key ks rs)"

definition selected :: "merge_plan \<Rightarrow> 'v row list \<Rightarrow> 'v row list" where
  "selected p staged = last_per_key (mp_keys p) (filter (\<lambda>r. list_all (\<lambda>k. r k \<noteq> None) (mp_not_null_keys p)) staged)"

fun conflict_at :: "string list \<Rightarrow> 'v row \<Rightarrow> 'v row list \<Rightarrow> nat option" where
  "conflict_at ks r [] = None"
| "conflict_at ks r (t # ts) =
     (if None \<notin> set (key_of ks r) \<and> key_of ks t = key_of ks r then Some 0 else map_option Suc (conflict_at ks r ts))"

definition inserted_row :: "'v pg \<Rightarrow> merge_plan \<Rightarrow> 'v row \<Rightarrow> 'v row list \<Rightarrow> 'v row" where
  "inserted_row db p r tbl =
     (\<lambda>c. if c \<in> set (mp_insert_cols p) then r c else if c = ''id'' then pg_identity db tbl else None)"

definition updated_row :: "merge_plan \<Rightarrow> 'v row \<Rightarrow> 'v row \<Rightarrow> 'v row" where
  "updated_row p old r = (\<lambda>c. if c \<in> set (mp_set_cols p) then r c else old c)"

definition upsert_one :: "'v pg \<Rightarrow> merge_plan \<Rightarrow> 'v row \<Rightarrow> 'v row list \<Rightarrow> 'v row list \<times> bool list" where
  \<comment> \<open>the table after one selected row, and the row's \<open>RETURNING\<close> value if it is returned\<close>
  "upsert_one db p r tbl =
     (case conflict_at (mp_keys p) r tbl of
        None \<Rightarrow> (tbl @ [inserted_row db p r tbl], [True])
      | Some i \<Rightarrow>
          if list_ex (\<lambda>c. (tbl ! i) c \<noteq> r c) (mp_distinct_cols p)
          then (tbl[i := updated_row p (tbl ! i) r], [False])
          else (tbl, []))"

fun upsert_all :: "'v pg \<Rightarrow> merge_plan \<Rightarrow> 'v row list \<Rightarrow> 'v row list \<Rightarrow> 'v row list \<times> bool list" where
  "upsert_all db p [] tbl = (tbl, [])"
| "upsert_all db p (r # rs) tbl =
     (case upsert_one db p r tbl of
        (tbl1, ret1) \<Rightarrow> (case upsert_all db p rs tbl1 of (tbl2, ret2) \<Rightarrow> (tbl2, ret1 @ ret2)))"

definition merge :: "'v pg \<Rightarrow> merge_plan \<Rightarrow> 'v row list \<Rightarrow> 'v row list \<Rightarrow> (int \<times> int) \<times> 'v row list" where
  "merge db p staged tbl =
     (case upsert_all db p (selected p staged) tbl of
        (tbl', flags) \<Rightarrow> ((int (length (filter id flags)), int (length (filter Not flags))), tbl'))"

section \<open>Staging\<close>

record stamp =
  st_source :: string
  st_endpoint :: string
  st_run_id :: string
  st_now :: string

definition dtype_of :: "column_info list \<Rightarrow> string \<Rightarrow> string" where
  "dtype_of cols name =
     (case find (\<lambda>c. c_name c = name) cols of Some c \<Rightarrow> c_data_type c | None \<Rightarrow> ''text'')"

definition json_field :: "json \<Rightarrow> string \<Rightarrow> json" where
  "json_field rec c =
     (case rec of JObject obj \<Rightarrow> (case map_of obj c of Some v \<Rightarrow> v | None \<Rightarrow> JNull) | _ \<Rightarrow> JNull)"

definition csv_record :: "printers \<Rightarrow> (string \<Rightarrow> string) \<Rightarrow> bool \<Rightarrow> string list \<Rightarrow> stamp \<Rightarrow> json \<Rightarrow> string list" where
  \<comment> \<open>one record of \<open>build_csv\<close>\<close>
  "csv_record pr dtype has_ts cols s rec =
     map (\<lambda>c. case cell_for pr (json_field rec c) (dtype c) of Some t \<Rightarrow> t | None \<Rightarrow> NULL_TOKEN) cols @
     [st_source s, st_endpoint s, st_run_id s] @ (if has_ts then [st_now s] else [])"

definition full_cols :: "bool \<Rightarrow> string list \<Rightarrow> string list" where
  "full_cols has_ts cols = cols @ [''source'', ''source_endpoint'', ''source_run_id''] @ (if has_ts then [''ingest_ts''] else [])"

definition copy_cell :: "'v pg \<Rightarrow> string \<Rightarrow> string \<Rightarrow> 'v option option" where
  \<comment> \<open>\<open>None\<close> is an input error; the sentinel is NULL\<close>
  "copy_cell db dtype t = (if t = NULL_TOKEN then Some None else map_option Some (pg_in db dtype t))"

definition staged_value ::
  "'v pg \<Rightarrow> (string \<times> string) list \<Rightarrow> column_info \<Rightarrow> 'v option option" where
  \<comment> \<open>the value of a column of the staging table, \<open>None\<close> when the \<open>COPY\<close> fails on it\<close>
  "staged_value db cells c =
     (case (case map_of cells (c_name c) of
              Some t \<Rightarrow> copy_cell db (c_data_type c) t
            | None \<Rightarrow> Some (pg_default db (c_name c))) of
        None \<Rightarrow> None
      | Some v \<Rightarrow> if v = None \<and> \<not> c_is_nullable c then None else Some v)"

definition stage_row :: "'v pg \<Rightarrow> column_info list \<Rightarrow> (string \<times> string) list \<Rightarrow> 'v row option" where
  "stage_row db cols cells =
     (if list_all (\<lambda>c. staged_value db cells c \<noteq> None) cols
      then Some (\<lambda>name. case find (\<lambda>c. c_name c = name) cols of
                          Some c \<Rightarrow> the (staged_value db cells c) | None \<Rightarrow> None)
      else None)"

fun stage_rows :: "'v pg \<Rightarrow> column_info list \<Rightarrow> (string \<times> string) list list \<Rightarrow> 'v row list option" where
  "stage_rows db cols [] = Some []"
| "stage_rows db cols (cells # rest) =
     (case stage_row db cols cells of
        None \<Rightarrow> None
      | Some r \<Rightarrow> (case stage_rows db cols rest of None \<Rightarrow> None | Some rs \<Rightarrow> Some (r # rs)))"

definition has_ingest_ts :: "column_info list \<Rightarrow> bool" where
  "has_ingest_ts target_cols = list_ex (\<lambda>c. c_name c = ''ingest_ts'') target_cols"

definition cells_of :: "printers \<Rightarrow> column_info list \<Rightarrow> string list \<Rightarrow> stamp \<Rightarrow> json \<Rightarrow> (string \<times> string) list" where
  "cells_of pr target_cols cols s rec =
     (let ts = has_ingest_ts target_cols
      in zip (full_cols ts cols) (csv_record pr (dtype_of target_cols) ts cols s rec))"

definition staging_cols :: "string list \<Rightarrow> column_info list \<Rightarrow> column_info list" where
  \<comment> \<open>the staging table is a clone without the generated and identity columns\<close>
  "staging_cols gen target_cols = filter (\<lambda>c. c_name c \<notin> set gen) target_cols"

definition copy_and_merge ::
  "printers \<Rightarrow> 'v pg \<Rightarrow> string list \<Rightarrow> column_info list \<Rightarrow> string list \<Rightarrow> string list \<Rightarrow> stamp \<Rightarrow> json list \<Rightarrow> 'v row list \<Rightarrow>
     string + (int \<times> int) \<times> 'v row list" where
  "copy_and_merge pr db gen target_cols conflict_cols cols s records tbl =
     (if target_cols = [] then Inl ''no columns found''
      else
        (let stg = staging_cols gen target_cols; p = plan_merge target_cols conflict_cols;
             named = full_cols (has_ingest_ts target_cols) cols @ mp_insert_cols p @ mp_keys p
         in if \<not> list_all (\<lambda>c. c \<in> c_name ` set stg) named then Inl ''column does not exist''
            else
              (case stage_rows db stg (map (cells_of pr target_cols cols s) records) of
                 None \<Rightarrow> Inl ''COPY failed''
               | Some staged \<Rightarrow> Inr (merge db p staged tbl))))"

section \<open>The Postgres backend\<close>

definition payload_cols :: "table_meta \<Rightarrow> json list \<Rightarrow> string list" where
  "payload_cols meta records =
     (let present = concat (map (\<lambda>r. case r of JObject obj \<Rightarrow> map fst obj | _ \<Rightarrow> []) records)
      in filter (\<lambda>c. c \<in> set present \<and> c \<notin> set SERVER_STAMPED_COLS) (map c_name (tm_columns meta)))"

definition write_records ::
  "printers \<Rightarrow> 'v pg \<Rightarrow> string list \<Rightarrow> column_info list \<Rightarrow> string \<Rightarrow> string \<Rightarrow> table_meta \<Rightarrow> stamp \<Rightarrow> json list \<Rightarrow> 'v row list \<Rightarrow>
     (int \<times> int) api_result \<times> 'v row list" where
  \<comment> \<open>\<open>gen\<close> and \<open>live\<close> are the columns read again inside the transaction, which commits only when the
    merge succeeds\<close>
  "write_records pr db gen live sch tbl meta s records rows =
     (if records = [] then (Inr (0, 0), rows)
      else
        (let cols = payload_cols meta records
         in if cols = [] then
              (Inl (Internal (''no usable columns after intersection with '' @ sch @ ''.'' @ tbl)), rows)
            else if tm_conflict_cols meta = [] then
              (Inl (Internal (sch @ ''.'' @ tbl @ '' has no UNIQUE/PRIMARY KEY '' @ [CHR 0xE2, CHR 0x80, CHR 0x94] @
                 '' refusing to upsert'')), rows)
            else
              (case copy_and_merge pr db gen live (tm_conflict_cols meta) cols s records rows of
                 Inl e \<Rightarrow> (Inl (Internal e), rows)
               | Inr (counts, rows') \<Rightarrow> (Inr counts, rows'))))"

section \<open>The merge\<close>

lemma conflict_at_Some:
  "conflict_at ks r tbl = Some i \<Longrightarrow> i < length tbl \<and> key_of ks (tbl ! i) = key_of ks r \<and> None \<notin> set (key_of ks r)"
  by (induction tbl arbitrary: i) (auto split: if_splits)

lemma conflict_at_cong:
  "key_of ks r = key_of ks r' \<Longrightarrow> map (key_of ks) tbl = map (key_of ks) tbl' \<Longrightarrow> conflict_at ks r tbl = conflict_at ks r' tbl'"
proof (induction tbl arbitrary: tbl')
  case (Cons t tbl)
  then obtain t' tbl2 where "tbl' = t' # tbl2" by (cases tbl') auto
  with Cons show ?case by simp
qed simp

lemma conflict_at_append: "conflict_at ks r tbl = Some i \<Longrightarrow> conflict_at ks r (tbl @ xs) = Some i"
  by (induction tbl arbitrary: i) (auto split: if_splits)

lemma conflict_at_snoc:
  "conflict_at ks r tbl = None \<Longrightarrow> None \<notin> set (key_of ks r) \<Longrightarrow> key_of ks t = key_of ks r \<Longrightarrow>
     conflict_at ks r (tbl @ [t]) = Some (length tbl)"
  by (induction tbl) (auto split: if_splits)

definition sound_plan :: "merge_plan \<Rightarrow> bool" where
  \<comment> \<open>keys are inserted and never set; what is compared is inserted and set\<close>
  "sound_plan p \<longleftrightarrow>
     set (mp_keys p) \<subseteq> set (mp_insert_cols p) \<and> set (mp_keys p) \<inter> set (mp_set_cols p) = {} \<and>
     set (mp_distinct_cols p) \<subseteq> set (mp_insert_cols p) \<and> set (mp_distinct_cols p) \<subseteq> set (mp_set_cols p)"

definition holds :: "merge_plan \<Rightarrow> 'v row \<Rightarrow> 'v row list \<Rightarrow> bool" where
  \<comment> \<open>the table has the row's key with the row's compared columns\<close>
  "holds p r tbl \<longleftrightarrow>
     (\<exists>i. conflict_at (mp_keys p) r tbl = Some i \<and> (\<forall>c \<in> set (mp_distinct_cols p). (tbl ! i) c = r c))"

lemma key_inserted: "sound_plan p \<Longrightarrow> key_of (mp_keys p) (inserted_row db p r tbl) = key_of (mp_keys p) r"
  by (auto simp: sound_plan_def key_of_def inserted_row_def)

lemma key_updated: "sound_plan p \<Longrightarrow> key_of (mp_keys p) (updated_row p old r) = key_of (mp_keys p) old"
  by (auto simp: sound_plan_def key_of_def updated_row_def)

lemma keys_update:
  "sound_plan p \<Longrightarrow> i < length tbl \<Longrightarrow>
     map (key_of (mp_keys p)) (tbl[i := updated_row p (tbl ! i) r]) = map (key_of (mp_keys p)) tbl"
  by (simp add: map_update key_updated list_update_same_conv)

lemma upsert_holds:
  assumes "sound_plan p" "None \<notin> set (key_of (mp_keys p) r)"
  shows "holds p r (fst (upsert_one db p r tbl))"
proof (cases "conflict_at (mp_keys p) r tbl")
  case None
  have "conflict_at (mp_keys p) r (tbl @ [inserted_row db p r tbl]) = Some (length tbl)"
    using None assms by (intro conflict_at_snoc) (simp_all add: key_inserted)
  moreover have "\<forall>c \<in> set (mp_distinct_cols p). inserted_row db p r tbl c = r c"
    using assms(1) by (auto simp: sound_plan_def inserted_row_def)
  ultimately show ?thesis using None by (simp add: upsert_one_def holds_def)
next
  case (Some i)
  note i = conflict_at_Some [OF Some]
  have "conflict_at (mp_keys p) r (tbl[i := updated_row p (tbl ! i) r]) = Some i"
    using conflict_at_cong [OF refl keys_update [OF assms(1), of i tbl r], of r] i Some by simp
  moreover have "\<forall>c \<in> set (mp_distinct_cols p). updated_row p (tbl ! i) r c = r c"
    using assms(1) by (auto simp: sound_plan_def updated_row_def)
  ultimately show ?thesis using Some i
    by (auto simp: upsert_one_def holds_def list_ex_iff)
qed

lemma upsert_keeps:
  assumes "sound_plan p" "holds p r tbl" "key_of (mp_keys p) r' \<noteq> key_of (mp_keys p) r"
  shows "holds p r (fst (upsert_one db p r' tbl))"
proof -
  obtain j where j: "conflict_at (mp_keys p) r tbl = Some j" "\<forall>c \<in> set (mp_distinct_cols p). (tbl ! j) c = r c"
    using assms(2) by (auto simp: holds_def)
  note j' = conflict_at_Some [OF j(1)]
  show ?thesis
  proof (cases "conflict_at (mp_keys p) r' tbl")
    case None
    then show ?thesis using j j' conflict_at_append [OF j(1)]
      by (auto simp: upsert_one_def holds_def nth_append)
  next
    case (Some i)
    note i = conflict_at_Some [OF Some]
    then have "i \<noteq> j" using j' assms(3) by auto
    moreover have "conflict_at (mp_keys p) r (tbl[i := updated_row p (tbl ! i) r']) = Some j"
      using conflict_at_cong [OF refl keys_update [OF assms(1), of i tbl r'], of r] i j by simp
    ultimately show ?thesis using Some j by (auto simp: upsert_one_def holds_def)
  qed
qed

lemma upsert_noop: "holds p r tbl \<Longrightarrow> upsert_one db p r tbl = (tbl, [])"
  by (auto simp: holds_def upsert_one_def list_ex_iff)

lemma fst_upsert_all:
  "fst (upsert_all db p (r # rs) tbl) = fst (upsert_all db p rs (fst (upsert_one db p r tbl)))"
  by (simp split: prod.splits)

lemma upsert_all_keeps:
  "sound_plan p \<Longrightarrow> holds p r tbl \<Longrightarrow> key_of (mp_keys p) r \<notin> key_of (mp_keys p) ` set rs \<Longrightarrow>
     holds p r (fst (upsert_all db p rs tbl))"
proof (induction rs arbitrary: tbl)
  case (Cons r' rs)
  then have "holds p r (fst (upsert_one db p r' tbl))" by (intro upsert_keeps) auto
  from Cons.IH [OF Cons.prems(1) this] Cons.prems show ?case
    unfolding fst_upsert_all by simp
qed simp

lemma upsert_all_holds:
  "sound_plan p \<Longrightarrow> distinct (map (key_of (mp_keys p)) rs) \<Longrightarrow> (\<And>r. r \<in> set rs \<Longrightarrow> None \<notin> set (key_of (mp_keys p) r)) \<Longrightarrow>
     r \<in> set rs \<Longrightarrow> holds p r (fst (upsert_all db p rs tbl))"
proof (induction rs arbitrary: tbl)
  case (Cons r' rs)
  show ?case
  proof (cases "r = r'")
    case True
    have "holds p r' (fst (upsert_one db p r' tbl))" using Cons.prems by (intro upsert_holds) auto
    then show ?thesis unfolding fst_upsert_all True using Cons.prems by (intro upsert_all_keeps) auto
  next
    case False
    then show ?thesis unfolding fst_upsert_all using Cons by auto
  qed
qed simp

lemma upsert_all_noop: "(\<And>r. r \<in> set rs \<Longrightarrow> holds p r tbl) \<Longrightarrow> upsert_all db p rs tbl = (tbl, [])"
  by (induction rs) (auto simp: upsert_noop)

lemma last_per_key_set: "set (last_per_key ks rs) \<subseteq> set rs"
  by (induction rs) auto

lemma last_per_key_distinct: "distinct (map (key_of ks) (last_per_key ks rs))"
  by (induction rs) (auto dest: subsetD [OF last_per_key_set])

lemma last_per_key_mem: "rs = as @ r # bs \<Longrightarrow> key_of ks r \<notin> key_of ks ` set bs \<Longrightarrow> r \<in> set (last_per_key ks rs)"
  by (induction "as" arbitrary: rs) auto

lemma last_per_key_rel:
  assumes "list_all2 R rs rs'" "\<And>r r'. R r r' \<Longrightarrow> key_of ks r = key_of ks r'"
  shows "list_all2 R (last_per_key ks rs) (last_per_key ks rs')"
  using assms(1)
proof (induction rule: list_all2_induct)
  case (Cons r rs r' rs')
  have "key_of ks ` set rs = key_of ks ` set rs'"
    using Cons.hyps(2) assms(2) by (induction rule: list_all2_induct) auto
  with Cons assms(2) [OF Cons.hyps(1)] show ?case by simp
qed simp

section \<open>Staged rows\<close>

definition stamp_cell :: "bool \<Rightarrow> stamp \<Rightarrow> string \<Rightarrow> string option" where
  "stamp_cell ts s n =
     map_of ([(''source'', st_source s), (''source_endpoint'', st_endpoint s), (''source_run_id'', st_run_id s)] @
       (if ts then [(''ingest_ts'', st_now s)] else [])) n"

lemma cells_lookup:
  "map_of (cells_of pr tc cols s rec) n =
     (if n \<in> set cols
      then Some (case cell_for pr (json_field rec n) (dtype_of tc n) of Some t \<Rightarrow> t | None \<Rightarrow> NULL_TOKEN)
      else stamp_cell (has_ingest_ts tc) s n)"
proof -
  have "map_of (zip cols (map f cols) @ m) n = (if n \<in> set cols then Some (f n) else map_of m n)"
    for f :: "string \<Rightarrow> string" and m
    by (induction cols) auto
  then show ?thesis
    by (simp add: cells_of_def full_cols_def csv_record_def stamp_cell_def Let_def del: map_of.simps)
qed

definition VOLATILE :: "string list" where
  "VOLATILE = [''source_endpoint'', ''source_run_id'', ''ingest_ts'']"

definition stamps_accepted :: "'v pg \<Rightarrow> column_info list \<Rightarrow> stamp \<Rightarrow> bool" where
  \<comment> \<open>the database takes the endpoint, the run id and the time as values of their columns\<close>
  "stamps_accepted db cols s \<longleftrightarrow>
     list_all (\<lambda>c. case map_of [(''source_endpoint'', st_endpoint s), (''source_run_id'', st_run_id s), (''ingest_ts'', st_now s)] (c_name c) of
        Some t \<Rightarrow> t \<noteq> NULL_TOKEN \<and> pg_in db (c_data_type c) t \<noteq> None | None \<Rightarrow> True) cols"

definition alike :: "'v row \<Rightarrow> 'v row \<Rightarrow> bool" where
  "alike r r' \<longleftrightarrow> (\<forall>c. c \<notin> set VOLATILE \<longrightarrow> r c = r' c)"

lemma staged_value_alike:
  assumes "set cols \<inter> set SERVER_STAMPED_COLS = {}" "st_source s = st_source s'" "c_name c \<notin> set VOLATILE"
  shows "staged_value db (cells_of pr tc cols s rec) c = staged_value db (cells_of pr tc cols s' rec) c"
  using assms by (auto simp: staged_value_def cells_lookup stamp_cell_def VOLATILE_def)

lemma staged_value_volatile:
  assumes d: "set cols \<inter> set SERVER_STAMPED_COLS = {}" and a: "stamps_accepted db stg s'" and c: "c \<in> set stg"
    and v: "c_name c \<in> set VOLATILE" and ok: "staged_value db (cells_of pr tc cols s rec) c \<noteq> None"
  shows "staged_value db (cells_of pr tc cols s' rec) c \<noteq> None"
proof -
  have n: "c_name c \<notin> set cols" using d v by (auto simp: VOLATILE_def SERVER_STAMPED_COLS_def)
  let ?p = "map_of [(''source_endpoint'', st_endpoint s'), (''source_run_id'', st_run_id s'), (''ingest_ts'', st_now s')] (c_name c)"
  from a c have "case ?p of Some t \<Rightarrow> t \<noteq> NULL_TOKEN \<and> pg_in db (c_data_type c) t \<noteq> None | None \<Rightarrow> True"
    by (simp add: stamps_accepted_def list_all_iff)
  with n v ok show ?thesis
    by (auto simp: VOLATILE_def staged_value_def cells_lookup stamp_cell_def copy_cell_def split: if_splits option.splits)
qed

lemma stage_row_at:
  assumes "stage_row db stg cells = Some r" "find (\<lambda>c. c_name c = k) stg = Some c"
  shows "staged_value db cells c = Some (r k)"
proof -
  have "c \<in> set stg" using assms(2) by (auto simp: find_Some_iff)
  with assms show ?thesis by (auto simp: stage_row_def list_all_iff split: if_splits)
qed

lemma stage_row_none: "stage_row db stg cells = Some r \<Longrightarrow> find (\<lambda>c. c_name c = k) stg = None \<Longrightarrow> r k = None"
  by (auto simp: stage_row_def split: if_splits)

lemma stage_row_alike:
  assumes "set cols \<inter> set SERVER_STAMPED_COLS = {}" "st_source s = st_source s'" "stamps_accepted db stg s'"
    "stage_row db stg (cells_of pr tc cols s rec) = Some r"
  shows "\<exists>r'. stage_row db stg (cells_of pr tc cols s' rec) = Some r' \<and> alike r r'"
proof -
  have ok: "\<forall>c \<in> set stg. staged_value db (cells_of pr tc cols s rec) c \<noteq> None"
    using assms(4) by (auto simp: stage_row_def list_all_iff split: if_splits)
  have "\<forall>c \<in> set stg. staged_value db (cells_of pr tc cols s' rec) c \<noteq> None"
  proof
    fix c assume c: "c \<in> set stg"
    show "staged_value db (cells_of pr tc cols s' rec) c \<noteq> None"
    proof (cases "c_name c \<in> set VOLATILE")
      case True
      with staged_value_volatile [OF assms(1,3) c True] ok c show ?thesis by blast
    next
      case False
      with staged_value_alike [OF assms(1,2) False, of db pr tc rec] ok c show ?thesis by metis
    qed
  qed
  then obtain r' where r': "stage_row db stg (cells_of pr tc cols s' rec) = Some r'"
    by (simp add: stage_row_def list_all_iff)
  have "r n = r' n" if n: "n \<notin> set VOLATILE" for n
  proof (cases "find (\<lambda>c. c_name c = n) stg")
    case None
    then show ?thesis using stage_row_none [OF assms(4) None] stage_row_none [OF r' None] by simp
  next
    case (Some c)
    then have "c_name c \<notin> set VOLATILE" using n by (auto simp: find_Some_iff)
    from staged_value_alike [OF assms(1,2) this, of db pr tc rec] stage_row_at [OF assms(4) Some] stage_row_at [OF r' Some]
    show ?thesis by simp
  qed
  with r' show ?thesis by (auto simp: alike_def)
qed

lemma stage_rows_alike:
  assumes "set cols \<inter> set SERVER_STAMPED_COLS = {}" "st_source s = st_source s'" "stamps_accepted db stg s'"
  shows "stage_rows db stg (map (cells_of pr tc cols s) recs) = Some rs \<Longrightarrow>
    \<exists>rs'. stage_rows db stg (map (cells_of pr tc cols s') recs) = Some rs' \<and> list_all2 alike rs rs'"
proof (induction recs arbitrary: rs)
  case (Cons rec recs)
  then obtain r rs1 where r: "stage_row db stg (cells_of pr tc cols s rec) = Some r"
      "stage_rows db stg (map (cells_of pr tc cols s) recs) = Some rs1" "rs = r # rs1"
    by (auto split: option.splits)
  with stage_row_alike [OF assms r(1)] Cons.IH [OF r(2)] show ?case by auto
qed simp

section \<open>Natural keys\<close>

definition RESERVED :: "string list" where
  "RESERVED = [''id'', ''payload''] @ PROV_REFRESH"

definition natural_key :: "column_info list \<Rightarrow> string list \<Rightarrow> bool" where
  \<comment> \<open>the key consists of columns that may not be NULL and that no run stamps\<close>
  "natural_key cols keys \<longleftrightarrow>
     list_all (\<lambda>k. k \<in> c_name ` set cols \<and> \<not> nullable_of cols k \<and> k \<notin> set RESERVED) keys"

lemma reserved: "''id'' \<in> set RESERVED" "''payload'' \<in> set RESERVED" "c \<in> set PROV_REFRESH \<Longrightarrow> c \<in> set RESERVED"
  by (simp_all add: RESERVED_def)

lemma prov_or_id: "is_prov_or_id ''id''" "''raw'' \<in> set PROV_REFRESH" "''id'' \<notin> set PROV_REFRESH"
  "c \<in> set VOLATILE \<Longrightarrow> is_prov_or_id c" "c \<in> set VOLATILE \<Longrightarrow> c \<in> set PROV_REFRESH"
  "''raw'' \<notin> set VOLATILE" "''payload'' \<notin> set VOLATILE" "''raw'' \<noteq> ''id''" "''payload'' \<noteq> ''id''"
  by (auto simp: is_prov_or_id_def PROV_REFRESH_def VOLATILE_def)

lemma plan_merge_sets:
  "mp_keys (plan_merge cols keys) = keys"
  "set (mp_insert_cols (plan_merge cols keys)) = c_name ` set cols - {''id''}"
  "set (mp_set_cols (plan_merge cols keys)) =
     set (flat_cols (map c_name cols) keys) \<union> (set PROV_REFRESH \<union> {''payload''}) \<inter> c_name ` set cols"
  "set (mp_distinct_cols (plan_merge cols keys)) =
     set (flat_cols (map c_name cols) keys) \<union> {''raw'', ''payload''} \<inter> c_name ` set cols"
proof -
  let ?N = "set (map c_name cols)"
  have N: "c_name ` set cols = ?N" by simp
  show "mp_keys (plan_merge cols keys) = keys" by (simp add: plan_merge_def Let_def)
  show "set (mp_insert_cols (plan_merge cols keys)) = c_name ` set cols - {''id''}"
    unfolding N by (auto simp: plan_merge_def Let_def simp del: set_map)
  show "set (mp_set_cols (plan_merge cols keys)) =
      set (flat_cols (map c_name cols) keys) \<union> (set PROV_REFRESH \<union> {''payload''}) \<inter> c_name ` set cols"
    unfolding N by (auto simp: plan_merge_def Let_def simp del: set_map)
  show "set (mp_distinct_cols (plan_merge cols keys)) =
      set (flat_cols (map c_name cols) keys) \<union> {''raw'', ''payload''} \<inter> c_name ` set cols"
    unfolding N by (auto simp: plan_merge_def Let_def simp del: set_map)
qed

lemma set_flat_cols: "set (flat_cols all keys) = {c \<in> set all. c \<notin> set keys \<and> \<not> is_prov_or_id c}"
  by (auto simp: flat_cols_def)

lemma natural_key_sound:
  assumes "natural_key cols keys"
  shows "sound_plan (plan_merge cols keys)"
proof -
  have k: "k \<in> c_name ` set cols" "k \<notin> set RESERVED" if "k \<in> set keys" for k
    using assms that by (auto simp: natural_key_def list_all_iff)
  then have "k \<noteq> ''id''" "k \<noteq> ''payload''" "k \<notin> set PROV_REFRESH" if "k \<in> set keys" for k
    using that reserved by blast+
  with k show ?thesis
    unfolding sound_plan_def plan_merge_sets set_flat_cols using prov_or_id(1,2,8,9) by auto
qed

lemma alike_plan:
  assumes "natural_key tc keys" "alike r r'"
  shows "key_of keys r = key_of keys r'" "c \<in> set (mp_distinct_cols (plan_merge tc keys)) \<Longrightarrow> r c = r' c"
proof -
  have "k \<notin> set VOLATILE" if "k \<in> set keys" for k
    using assms(1) that reserved(3) prov_or_id(5) by (auto simp: natural_key_def list_all_iff)
  with assms(2) show "key_of keys r = key_of keys r'" by (simp add: alike_def key_of_def)
  show "r c = r' c" if "c \<in> set (mp_distinct_cols (plan_merge tc keys))"
  proof -
    have "c \<notin> set VOLATILE"
      using that prov_or_id(4,6,7) unfolding plan_merge_sets set_flat_cols by auto
    with assms(2) show ?thesis by (simp add: alike_def)
  qed
qed

lemma staged_value_not_null: "staged_value db cells c = Some v \<Longrightarrow> \<not> c_is_nullable c \<Longrightarrow> v \<noteq> None"
  by (auto simp: staged_value_def split: if_splits option.splits)

lemma stage_row_not_null:
  assumes "stage_row db stg cells = Some r" "find (\<lambda>c. c_name c = k) stg = Some c" "\<not> c_is_nullable c"
  shows "r k \<noteq> None"
  using staged_value_not_null [OF stage_row_at [OF assms(1,2)] assms(3)] .

lemma find_staging:
  "k \<in> c_name ` set (staging_cols gen tc) \<Longrightarrow>
     find (\<lambda>c. c_name c = k) (staging_cols gen tc) = find (\<lambda>c. c_name c = k) tc \<and> (\<exists>c. find (\<lambda>c. c_name c = k) tc = Some c)"
  unfolding staging_cols_def by (induction tc) (auto split: if_splits)

lemma natural_key_staged:
  assumes "natural_key tc keys" "list_all (\<lambda>c. c \<in> c_name ` set (staging_cols gen tc)) keys"
    "stage_row db (staging_cols gen tc) cells = Some r"
  shows "None \<notin> set (key_of keys r)"
proof -
  have "r k \<noteq> None" if k: "k \<in> set keys" for k
  proof -
    have "k \<in> c_name ` set (staging_cols gen tc)" using assms(2) k by (simp add: list_all_iff)
    from find_staging [OF this] obtain c where c: "find (\<lambda>c. c_name c = k) (staging_cols gen tc) = Some c"
      "find (\<lambda>c. c_name c = k) tc = Some c" by auto
    moreover have "\<not> c_is_nullable c" using assms(1) k c(2) by (auto simp: natural_key_def list_all_iff nullable_of_def)
    ultimately show ?thesis by (intro stage_row_not_null [OF assms(3)])
  qed
  then show ?thesis by (auto simp: key_of_def image_iff) (metis option.distinct(1))
qed

section \<open>Ingesting twice\<close>

lemma stage_rows_rows:
  "stage_rows db stg cs = Some rs \<Longrightarrow> list_all2 (\<lambda>c r. stage_row db stg c = Some r) cs rs"
proof (induction cs arbitrary: rs)
  case (Cons c cs)
  then show ?case by (auto split: option.splits)
qed simp

lemma stage_rows_member: "stage_rows db stg cs = Some rs \<Longrightarrow> r \<in> set rs \<Longrightarrow> \<exists>c. stage_row db stg c = Some r"
  by (drule stage_rows_rows) (auto simp: list_all2_conv_all_nth in_set_conv_nth)

lemma selected_subset: "set (selected p staged) \<subseteq> set staged"
  using last_per_key_set by (fastforce simp: selected_def)

lemma selected_distinct: "distinct (map (key_of (mp_keys p)) (selected p staged))"
  by (simp add: selected_def last_per_key_distinct)

lemma selected_all:
  assumes "\<And>r. r \<in> set staged \<Longrightarrow> None \<notin> set (key_of (mp_keys p) r)" "set (mp_not_null_keys p) \<subseteq> set (mp_keys p)"
  shows "selected p staged = last_per_key (mp_keys p) staged"
proof -
  have "r k \<noteq> None" if "r \<in> set staged" "k \<in> set (mp_not_null_keys p)" for r k
    using assms(1) [OF that(1)] subsetD [OF assms(2) that(2)] by (force simp: key_of_def)
  then have "filter (\<lambda>r. list_all (\<lambda>k. r k \<noteq> None) (mp_not_null_keys p)) staged = staged"
    by (simp add: filter_id_conv list_all_iff)
  then show ?thesis by (simp add: selected_def)
qed

lemma not_null_keys_subset: "set (mp_not_null_keys (plan_merge tc keys)) \<subseteq> set keys"
  by (auto simp: plan_merge_def Let_def)

lemma merge_holds:
  assumes "natural_key tc keys" "\<And>r. r \<in> set staged \<Longrightarrow> None \<notin> set (key_of keys r)"
    "r \<in> set (last_per_key keys staged)" "merge db (plan_merge tc keys) staged tbl = (counts, tbl')"
  shows "holds (plan_merge tc keys) r tbl'"
proof -
  let ?p = "plan_merge tc keys"
  have sel: "selected ?p staged = last_per_key keys staged"
    using selected_all [of staged ?p] assms(2) not_null_keys_subset by (simp add: plan_merge_sets)
  have "tbl' = fst (upsert_all db ?p (selected ?p staged) tbl)"
    using assms(4) by (auto simp: merge_def split: prod.splits)
  moreover have "holds ?p r (fst (upsert_all db ?p (selected ?p staged) tbl))"
    using assms(2,3) subsetD [OF last_per_key_set, of _ keys staged] selected_distinct [of ?p staged]
    by (intro upsert_all_holds [OF natural_key_sound [OF assms(1)]]) (simp_all add: sel plan_merge_sets)
  ultimately show ?thesis by simp
qed

lemma holds_alike:
  assumes "natural_key tc keys" "alike r r'" "holds (plan_merge tc keys) r tbl"
  shows "holds (plan_merge tc keys) r' tbl"
proof -
  obtain i where "conflict_at keys r tbl = Some i" "\<forall>c \<in> set (mp_distinct_cols (plan_merge tc keys)). (tbl ! i) c = r c"
    using assms(3) by (auto simp: holds_def plan_merge_sets)
  moreover have "conflict_at keys r' tbl = conflict_at keys r tbl"
    using alike_plan(1) [OF assms(1,2)] by (intro conflict_at_cong) simp_all
  ultimately show ?thesis using alike_plan(2) [OF assms(1,2)] by (auto simp: holds_def plan_merge_sets)
qed

lemma write_records_merge:
  assumes "write_records pr db gen live sch tbl meta s records rows = (Inr counts, rows')" "records \<noteq> []"
  defines "keys \<equiv> tm_conflict_cols meta" and "stg \<equiv> staging_cols gen live"
  obtains staged where
    "stage_rows db stg (map (cells_of pr live (payload_cols meta records) s) records) = Some staged"
    "merge db (plan_merge live keys) staged rows = (counts, rows')"
    "payload_cols meta records \<noteq> []" "keys \<noteq> []" "live \<noteq> []"
    "list_all (\<lambda>c. c \<in> c_name ` set stg) (full_cols (has_ingest_ts live) (payload_cols meta records) @ mp_insert_cols (plan_merge live keys) @ keys)"
  using assms(1,2) unfolding keys_def stg_def
  by (auto simp: write_records_def Let_def copy_and_merge_def plan_merge_sets split: if_splits sum.splits option.splits)

lemma payload_cols_disjoint: "set (payload_cols meta records) \<inter> set SERVER_STAMPED_COLS = {}"
  by (auto simp: payload_cols_def Let_def)

lemma rewrite_unchanged:
  assumes w: "write_records pr db gen live sch tbl meta s records rows = (Inr counts, rows')"
    and k: "natural_key live (tm_conflict_cols meta)"
    and src: "st_source s = st_source s'" and acc: "stamps_accepted db (staging_cols gen live) s'"
  shows "write_records pr db gen live sch tbl meta s' records rows' = (Inr (0, 0), rows')"
proof (cases "records = []")
  case True
  then show ?thesis by (simp add: write_records_def)
next
  case False
  let ?keys = "tm_conflict_cols meta" and ?cols = "payload_cols meta records" and ?stg = "staging_cols gen live"
  let ?p = "plan_merge live ?keys"
  obtain staged where st: "stage_rows db ?stg (map (cells_of pr live ?cols s) records) = Some staged"
      "merge db ?p staged rows = (counts, rows')" "?cols \<noteq> []" "?keys \<noteq> []" "live \<noteq> []"
      "list_all (\<lambda>c. c \<in> c_name ` set ?stg) (full_cols (has_ingest_ts live) ?cols @ mp_insert_cols ?p @ ?keys)"
    using write_records_merge [OF w False] by blast
  obtain staged' where st': "stage_rows db ?stg (map (cells_of pr live ?cols s') records) = Some staged'" "list_all2 alike staged staged'"
    using stage_rows_alike [OF payload_cols_disjoint src acc st(1)] by blast
  have nn: "None \<notin> set (key_of ?keys r)" if "r \<in> set staged" for r
    using stage_rows_member [OF st(1) that] natural_key_staged [OF k] st(6) by auto
  have nn': "None \<notin> set (key_of ?keys r)" if "r \<in> set staged'" for r
    using stage_rows_member [OF st'(1) that] natural_key_staged [OF k] st(6) by auto
  have rel: "list_all2 alike (last_per_key ?keys staged) (last_per_key ?keys staged')"
    by (rule last_per_key_rel [OF st'(2)]) (rule alike_plan(1) [OF k])
  have "holds ?p r' rows'" if r': "r' \<in> set (last_per_key ?keys staged')" for r'
  proof -
    obtain r where "r \<in> set (last_per_key ?keys staged)" "alike r r'"
      using rel r' by (auto simp: list_all2_conv_all_nth in_set_conv_nth) metis
    with holds_alike [OF k] merge_holds [OF k nn _ st(2)] show ?thesis by blast
  qed
  moreover have "selected ?p staged' = last_per_key ?keys staged'"
    using selected_all [of staged' ?p] nn' not_null_keys_subset by (simp add: plan_merge_sets)
  ultimately have "merge db ?p staged' rows' = ((0, 0), rows')"
    by (simp add: merge_def upsert_all_noop)
  with st(3-6) st'(1) False show ?thesis
    by (simp add: write_records_def copy_and_merge_def Let_def plan_merge_sets)
qed

text \<open>C3: Ingesting the same records again changes nothing.  On a table whose natural key is made of NOT NULL columns,
  a batch that was written can be sent again, in another run, at another time and under another
  endpoint name of the same source: the second write succeeds, counts no insert and no update and leaves
  the table as it is, as long as the defaults of columns no record supplies stay the same.\<close>

theorem reingest_changes_nothing:
  assumes w: "write_records pr db gen live sch tbl meta s records rows = (Inr counts, rows')"
    and k: "natural_key live (tm_conflict_cols meta)"
    and src: "st_source s = st_source s'" and acc: "stamps_accepted db (staging_cols gen live) s'"
  shows "write_records pr db gen live sch tbl meta s' records rows' = (Inr (0, 0), rows')"
  using assms by (rule rewrite_unchanged)

definition sample_printers :: printers where
  "sample_printers = \<lparr>show_number = (\<lambda>n. case n of NInt i \<Rightarrow> show_int i | NFloat _ \<Rightarrow> ''0''), show_json = (\<lambda>_. ''{}''), iso_seconds = (\<lambda>_. None)\<rparr>"

definition sample_pg :: "string pg" where
  "sample_pg = \<lparr>pg_in = (\<lambda>dt t. Some t), pg_default = (\<lambda>_. None), pg_identity = (\<lambda>_. None)\<rparr>"

definition text_column :: "string \<Rightarrow> bool \<Rightarrow> column_info" where
  "text_column n nullable = \<lparr>c_name = n, c_data_type = ''text'', c_udt_name = ''text'', c_is_nullable = nullable, c_has_default = False\<rparr>"

definition sample_columns :: "column_info list" where
  "sample_columns = [text_column ''k'' False, text_column ''v'' True, text_column ''source'' False,
     text_column ''source_endpoint'' False, text_column ''source_run_id'' False]"

definition sample_meta :: table_meta where
  "sample_meta = \<lparr>tm_columns = sample_columns, tm_conflict_cols = [''k'']\<rparr>"

definition sample_records :: "json list" where
  "sample_records = [JObject [(''k'', JString ''a''), (''v'', JString ''1'')], JObject [(''k'', JString ''a''), (''v'', JString ''2'')]]"

definition sample_stamp :: "string \<Rightarrow> stamp" where
  "sample_stamp run = \<lparr>st_source = ''s'', st_endpoint = ''e'', st_run_id = run, st_now = ''t''\<rparr>"

definition sample_write :: "string \<Rightarrow> string row list \<Rightarrow> (int \<times> int) api_result \<times> string row list" where
  "sample_write run = write_records sample_printers sample_pg [] sample_columns ''x'' ''y'' sample_meta (sample_stamp run) sample_records"

theorem reingest_changes_nothing_witness:
  "fst (sample_write ''r1'' []) = Inr (1, 0) \<and>
   sample_write ''r2'' (snd (sample_write ''r1'' [])) = (Inr (0, 0), snd (sample_write ''r1'' []))"
proof -
  have f: "fst (sample_write ''r1'' []) = Inr (1, 0)" by code_simp
  then have w: "sample_write ''r1'' [] = (Inr (1, 0), snd (sample_write ''r1'' []))" by (metis prod.collapse)
  have nk: "natural_key sample_columns (tm_conflict_cols sample_meta)" by code_simp
  have src: "st_source (sample_stamp ''r1'') = st_source (sample_stamp ''r2'')" by (simp add: sample_stamp_def)
  have acc: "stamps_accepted sample_pg (staging_cols [] sample_columns) (sample_stamp ''r2'')" by code_simp
  from reingest_changes_nothing [OF w [unfolded sample_write_def] nk src acc] f show ?thesis
    by (simp add: sample_write_def)
qed

section \<open>The last record of a key wins\<close>

lemma upsert_one_other:
  assumes "sound_plan p" "i < length tbl" "key_of (mp_keys p) (tbl ! i) \<noteq> key_of (mp_keys p) r"
  shows "fst (upsert_one db p r tbl) ! i = tbl ! i \<and> i < length (fst (upsert_one db p r tbl))"
proof (cases "conflict_at (mp_keys p) r tbl")
  case None
  then show ?thesis using assms(2) by (simp add: upsert_one_def nth_append)
next
  case (Some j)
  then have "i \<noteq> j" using conflict_at_Some [OF Some] assms(3) by auto
  then show ?thesis using Some assms(2) by (simp add: upsert_one_def)
qed

lemma upsert_all_other:
  assumes "sound_plan p"
  shows "i < length tbl \<Longrightarrow> key_of (mp_keys p) (tbl ! i) \<notin> key_of (mp_keys p) ` set rs \<Longrightarrow>
    fst (upsert_all db p rs tbl) ! i = tbl ! i \<and> i < length (fst (upsert_all db p rs tbl))"
proof (induction rs arbitrary: tbl)
  case (Cons r rs)
  then have "fst (upsert_one db p r tbl) ! i = tbl ! i \<and> i < length (fst (upsert_one db p r tbl))"
    by (intro upsert_one_other [OF assms]) auto
  with Cons.IH [of "fst (upsert_one db p r tbl)"] Cons.prems show ?case
    unfolding fst_upsert_all by simp
qed simp

text \<open>C11: The last record of a key wins, the rest of the table is untouched.  After a successful write, a staged record
  that no later record of the batch shadows is in the table: the row of its key has its value in every
  payload column; and a row whose key is not in the batch is the row it was.\<close>

theorem last_record_wins:
  assumes w: "write_records pr db gen live sch tbl meta s records rows = (Inr counts, rows')" and ne: "records \<noteq> []"
    and k: "natural_key live (tm_conflict_cols meta)"
  shows "\<exists>staged. stage_rows db (staging_cols gen live) (map (cells_of pr live (payload_cols meta records) s) records) = Some staged \<and>
    (\<forall>j < length staged. (\<forall>l < length staged. j < l \<longrightarrow> key_of (tm_conflict_cols meta) (staged ! l) \<noteq> key_of (tm_conflict_cols meta) (staged ! j)) \<longrightarrow>
       (\<exists>i < length rows'. key_of (tm_conflict_cols meta) (rows' ! i) = key_of (tm_conflict_cols meta) (staged ! j) \<and>
          (\<forall>c \<in> c_name ` set live. c \<notin> set SERVER_STAMPED_COLS \<longrightarrow> (rows' ! i) c = (staged ! j) c))) \<and>
    (\<forall>i < length rows. key_of (tm_conflict_cols meta) (rows ! i) \<notin> key_of (tm_conflict_cols meta) ` set staged \<longrightarrow>
       i < length rows' \<and> rows' ! i = rows ! i)"
proof -
  let ?keys = "tm_conflict_cols meta" and ?cols = "payload_cols meta records" and ?stg = "staging_cols gen live"
  let ?p = "plan_merge live ?keys"
  obtain staged where st: "stage_rows db ?stg (map (cells_of pr live ?cols s) records) = Some staged"
      "merge db ?p staged rows = (counts, rows')"
      "list_all (\<lambda>c. c \<in> c_name ` set ?stg) (full_cols (has_ingest_ts live) ?cols @ mp_insert_cols ?p @ ?keys)"
    using write_records_merge [OF w ne] by blast
  have nn: "None \<notin> set (key_of ?keys r)" if "r \<in> set staged" for r
    using stage_rows_member [OF st(1) that] natural_key_staged [OF k] st(3) by auto
  have stored: "\<exists>i < length rows'. key_of ?keys (rows' ! i) = key_of ?keys (staged ! j) \<and>
      (\<forall>c \<in> c_name ` set live. c \<notin> set SERVER_STAMPED_COLS \<longrightarrow> (rows' ! i) c = (staged ! j) c)"
    if j: "j < length staged" "\<forall>l < length staged. j < l \<longrightarrow> key_of ?keys (staged ! l) \<noteq> key_of ?keys (staged ! j)" for j
  proof -
    have "key_of ?keys (staged ! j) \<notin> key_of ?keys ` set (drop (Suc j) staged)"
    proof
      assume "key_of ?keys (staged ! j) \<in> key_of ?keys ` set (drop (Suc j) staged)"
      then obtain i where "i < length staged - Suc j" "key_of ?keys (staged ! (Suc j + i)) = key_of ?keys (staged ! j)"
        by (auto simp: in_set_conv_nth)
      with j(2) [rule_format, of "Suc j + i"] show False by simp
    qed
    then have "staged ! j \<in> set (last_per_key ?keys staged)"
      by (rule last_per_key_mem [OF id_take_nth_drop [OF j(1)]])
    from merge_holds [OF k nn this st(2)] obtain i where i: "conflict_at ?keys (staged ! j) rows' = Some i"
        "\<forall>c \<in> set (mp_distinct_cols ?p). (rows' ! i) c = (staged ! j) c"
      by (auto simp: holds_def plan_merge_sets)
    have key: "(rows' ! i) c = (staged ! j) c" if "c \<in> set ?keys" for c
      using conflict_at_Some [OF i(1)] that by (auto simp: key_of_def)
    have "c \<in> set ?keys \<or> c \<in> set (mp_distinct_cols ?p)"
      if "c \<in> c_name ` set live" "c \<notin> set SERVER_STAMPED_COLS" for c
      using that by (auto simp: plan_merge_sets set_flat_cols is_prov_or_id_def SERVER_STAMPED_COLS_def)
    with i key conflict_at_Some [OF i(1)] show ?thesis by blast
  qed
  have "i < length rows' \<and> rows' ! i = rows ! i"
    if "i < length rows" "key_of ?keys (rows ! i) \<notin> key_of ?keys ` set staged" for i
    using upsert_all_other [OF natural_key_sound [OF k] that(1), of "selected ?p staged" db] that(2)
      selected_subset [of ?p staged] st(2)
    by (auto simp: plan_merge_sets merge_def split: prod.splits)
  with st(1) stored show ?thesis by blast
qed

theorem last_record_wins_witness:
  "\<exists>i < length (snd (sample_write ''r1'' [])). (snd (sample_write ''r1'' []) ! i) ''k'' = Some ''a'' \<and>
     (snd (sample_write ''r1'' []) ! i) ''v'' = Some ''2''"
proof -
  let ?stage = "stage_rows sample_pg (staging_cols [] sample_columns)
      (map (cells_of sample_printers sample_columns (payload_cols sample_meta sample_records) (sample_stamp ''r1'')) sample_records)"
  have f: "fst (sample_write ''r1'' []) = Inr (1, 0)" by code_simp
  then have w: "sample_write ''r1'' [] = (Inr (1, 0), snd (sample_write ''r1'' []))" by (metis prod.collapse)
  have nk: "natural_key sample_columns (tm_conflict_cols sample_meta)" by code_simp
  have ne: "sample_records \<noteq> []" by (simp add: sample_records_def)
  from last_record_wins [OF w [unfolded sample_write_def] ne nk] obtain staged where s: "?stage = Some staged"
    and wins: "\<And>j. j < length staged \<Longrightarrow> (\<forall>l < length staged. j < l \<longrightarrow> key_of (tm_conflict_cols sample_meta) (staged ! l) \<noteq> key_of (tm_conflict_cols sample_meta) (staged ! j)) \<Longrightarrow>
       (\<exists>i < length (snd (sample_write ''r1'' [])). key_of (tm_conflict_cols sample_meta) (snd (sample_write ''r1'' []) ! i) = key_of (tm_conflict_cols sample_meta) (staged ! j) \<and>
          (\<forall>c \<in> c_name ` set sample_columns. c \<notin> set SERVER_STAMPED_COLS \<longrightarrow> (snd (sample_write ''r1'' []) ! i) c = (staged ! j) c))"
    unfolding sample_write_def by blast
  have "map_option (map (\<lambda>r. (r ''k'', r ''v''))) ?stage = Some [(Some ''a'', Some ''1''), (Some ''a'', Some ''2'')]" by code_simp
  with s have st: "length staged = 2" "(staged ! 1) ''k'' = Some ''a''" "(staged ! 1) ''v'' = Some ''2''"
    by (auto simp: map_eq_Cons_conv)
  from wins [of 1] st(1) obtain i where i: "i < length (snd (sample_write ''r1'' []))"
      "\<forall>c \<in> c_name ` set sample_columns. c \<notin> set SERVER_STAMPED_COLS \<longrightarrow> (snd (sample_write ''r1'' []) ! i) c = (staged ! 1) c"
    by auto
  have c: "''k'' \<in> c_name ` set sample_columns" "''k'' \<notin> set SERVER_STAMPED_COLS"
    "''v'' \<in> c_name ` set sample_columns" "''v'' \<notin> set SERVER_STAMPED_COLS" by code_simp+
  from i(1) i(2) [rule_format, OF c(1,2)] i(2) [rule_format, OF c(3,4)] st(2,3) show ?thesis by auto
qed

section \<open>Where the guarantees end\<close>

text \<open>A column with a changing default that no record supplies makes every write an update.\<close>

lemma changing_default_rewrites:
  "let cols = sample_columns @ [text_column ''seen'' False];
       write = (\<lambda>now. write_records sample_printers (sample_pg\<lparr>pg_default := (\<lambda>_. Some now)\<rparr>) [] cols ''x'' ''y''
                  \<lparr>tm_columns = cols, tm_conflict_cols = [''k'']\<rparr> (sample_stamp now) sample_records)
   in fst (write ''t2'' (snd (write ''t1'' []))) = Inr (0, 1)"
  by code_simp

text \<open>With a nullable key column, records without it are inserted again every time.\<close>

lemma null_key_inserts_again:
  "let cols = text_column ''k'' True # tl sample_columns;
       write = write_records sample_printers sample_pg [] cols ''x'' ''y''
                  \<lparr>tm_columns = cols, tm_conflict_cols = [''k'']\<rparr> (sample_stamp ''r'') [JObject [(''v'', JString ''1'')]]
   in fst (write (snd (write []))) = Inr (1, 0) \<and> length (snd (write (snd (write [])))) = 2"
  by code_simp

text \<open>An update takes the endpoint and run of the new write but keeps the old source.\<close>

lemma update_keeps_old_source:
  "let write = (\<lambda>src v. write_records sample_printers sample_pg [] sample_columns ''x'' ''y'' sample_meta
                  (sample_stamp src \<lparr>st_source := src\<rparr>) [JObject [(''k'', JString ''a''), (''v'', JString v)]]);
       r = hd (snd (write ''new'' ''2'' (snd (write ''old'' ''1'' []))))
   in r ''v'' = Some ''2'' \<and> r ''source_run_id'' = Some ''new'' \<and> r ''source'' = Some ''old''"
  by code_simp

text \<open>A table whose only key is an identity column takes no write at all.\<close>

lemma identity_key_unwritable:
  assumes "''id'' \<in> set gen" "tm_conflict_cols meta = [''id'']" "records \<noteq> []"
  shows "\<exists>e. write_records pr db gen live sch tbl meta s records rows = (Inl e, rows)"
proof -
  have "''id'' \<notin> c_name ` set (staging_cols gen live)" using assms(1) by (auto simp: staging_cols_def)
  then show ?thesis
    using assms(2,3) by (auto simp: write_records_def copy_and_merge_def Let_def plan_merge_sets)
qed

text \<open>A record that leaves a defaulted column to its default is accepted alone and fails the
  batch when another record supplies the column.\<close>

lemma mixed_batch_fails:
  "let c = \<lparr>c_name = ''v'', c_data_type = ''text'', c_udt_name = ''text'', c_is_nullable = False, c_has_default = True\<rparr>;
       cols = text_column ''k'' False # c # drop 2 sample_columns; meta = \<lparr>tm_columns = cols, tm_conflict_cols = [''k'']\<rparr>;
       r1 = JObject [(''k'', JString ''a'')]; r2 = JObject [(''k'', JString ''b''), (''v'', JString ''2'')];
       write = (\<lambda>rs. write_records sample_printers (sample_pg\<lparr>pg_default := (\<lambda>_. Some ''0'')\<rparr>) [] cols ''x'' ''y'' meta (sample_stamp ''r'') rs [])
   in validate_one meta r1 = None \<and> validate_one meta r2 = None \<and>
      fst (write [r1]) = Inr (1, 0) \<and> fst (write [r2]) = Inr (1, 0) \<and> fst (write [r1, r2]) = Inl (Internal ''COPY failed'')"
  by code_simp

end
