(* ===== verification/Ingest_Core.thy ===== *)
theory Ingest_Core
  imports Write_Engine Auth_Gate
begin

text \<open>
  The ingest orchestration (\<open>ingest/core.rs\<close>, \<open>write/run.rs\<close>) and the handlers that
  call it (\<open>handlers/ingest.rs\<close>): the access gate, validation, the run row and
  its life, the dispatch to the backend that owns the table, the result and
  what follows a write (cache invalidation, hand-off).

  The storage backend is an interface, the locale \<open>storage_backend\<close>; the
  Postgres engine is interpreted as one.  Whether a bookkeeping statement
  succeeds is in \<open>ingest_env\<close>.  A panic (\<open>None\<close>) leaves the world as it is then.
\<close>

section \<open>The backend interface\<close>

locale storage_backend =
  fixes wr :: "table_meta \<Rightarrow> stamp \<Rightarrow> json list \<Rightarrow> 'st \<Rightarrow> (int \<times> int) api_result \<times> 'st"
  assumes failed_unchanged: "wr meta s rs st = (Inl e, st') \<Longrightarrow> st' = st"
    and empty_unchanged: "wr meta s [] st = (Inr (0, 0), st)"
    and counts_bounded: "wr meta s rs st = (Inr (i, u), st') \<Longrightarrow> 0 \<le> i \<and> 0 \<le> u \<and> i + u \<le> int (length rs)"

lemma length_last_per_key: "length (last_per_key ks rs) \<le> length rs"
  by (induction rs) auto

lemma length_selected: "length (selected p staged) \<le> length staged"
  unfolding selected_def using length_last_per_key length_filter_le le_trans by blast

lemma length_upsert_one: "length (snd (upsert_one db p r tbl)) \<le> 1"
  by (simp add: upsert_one_def split: option.splits)

lemma length_upsert_all: "length (snd (upsert_all db p rs tbl)) \<le> length rs"
proof (induction rs arbitrary: tbl)
  case (Cons r rs)
  obtain t1 f1 where 1: "upsert_one db p r tbl = (t1, f1)" by (cases "upsert_one db p r tbl")
  obtain t2 f2 where 2: "upsert_all db p rs t1 = (t2, f2)" by (cases "upsert_all db p rs t1")
  from Cons.IH [of t1] length_upsert_one [of db p r tbl] show ?case by (simp add: 1 2)
qed simp

lemma length_stage_rows: "stage_rows db stg cs = Some rs \<Longrightarrow> length rs = length cs"
  by (drule stage_rows_rows) (auto dest: list_all2_lengthD)

lemma merge_counts:
  assumes "merge db p staged tbl = ((i, u), tbl')"
  shows "0 \<le> i \<and> 0 \<le> u \<and> i + u \<le> int (length staged)"
proof -
  obtain flags where f: "upsert_all db p (selected p staged) tbl = (tbl', flags)"
      "i = int (length (filter id flags))" "u = int (length (filter Not flags))"
    using assms by (auto simp: merge_def split: prod.splits)
  have "length (filter id flags) + length (filter Not flags) = length flags"
    using sum_length_filter_compl [of id flags] by (simp add: comp_def)
  moreover have "length flags \<le> length staged"
    using length_upsert_all [of db p "selected p staged" tbl] length_selected [of p staged] f(1) by simp
  ultimately show ?thesis using f(2,3) by simp
qed

interpretation pg_backend: storage_backend "write_records pr db gen live sch tbl" for pr db gen live sch tbl
proof
  show "write_records pr db gen live sch tbl meta s rs st = (Inl e, st') \<Longrightarrow> st' = st" for meta s rs st e st'
    by (auto simp: write_records_def Let_def split: if_splits sum.splits)
  show "write_records pr db gen live sch tbl meta s [] st = (Inr (0, 0), st)" for meta s st
    by (simp add: write_records_def)
  show "0 \<le> i \<and> 0 \<le> u \<and> i + u \<le> int (length rs)"
    if w: "write_records pr db gen live sch tbl meta s rs st = (Inr (i, u), st')" for meta s rs st i u st'
  proof (cases "rs = []")
    case True
    with w show ?thesis by (simp add: write_records_def)
  next
    case False
    with write_records_merge [OF w] obtain staged where
        "stage_rows db (staging_cols gen live) (map (cells_of pr live (payload_cols meta rs) s) rs) = Some staged"
        "merge db (plan_merge live (tm_conflict_cols meta)) staged st = ((i, u), st')" by blast
    with merge_counts [OF this(2)] length_stage_rows [OF this(1)] show ?thesis by simp
  qed
qed

section \<open>Runs and worlds\<close>

record run_row =
  rr_endpoint :: string
  rr_args :: json
  rr_status :: string
  rr_submitted_by :: "string option"
  rr_inserted :: int
  rr_updated :: int
  rr_failed :: int
  rr_error :: "string option"
  rr_ended :: bool

record 'st ingest_world =
  iw_store :: 'st
  iw_runs :: "(string, run_row) hash_map"
  iw_invalidated :: "(string \<times> string) list"
  iw_handoffs :: "string list"

definition open_run :: "string \<Rightarrow> string \<Rightarrow> json \<Rightarrow> 'st ingest_world \<Rightarrow> 'st ingest_world" where
  "open_run rid endpoint args w =
     w\<lparr>iw_runs := hm_insert rid
         \<lparr>rr_endpoint = endpoint, rr_args = args, rr_status = ''running'', rr_submitted_by = None, rr_inserted = 0,
          rr_updated = 0, rr_failed = 0, rr_error = None, rr_ended = False\<rparr> (iw_runs w)\<rparr>"

definition update_run :: "string \<Rightarrow> (run_row \<Rightarrow> run_row) \<Rightarrow> 'st ingest_world \<Rightarrow> 'st ingest_world" where
  "update_run rid f w =
     (case map_of (iw_runs w) rid of Some r \<Rightarrow> w\<lparr>iw_runs := hm_insert rid (f r) (iw_runs w)\<rparr> | None \<Rightarrow> w)"

definition set_submitted_by :: "string \<Rightarrow> string \<Rightarrow> 'st ingest_world \<Rightarrow> 'st ingest_world" where
  "set_submitted_by rid sub w = update_run rid (\<lambda>r. r\<lparr>rr_submitted_by := Some sub\<rparr>) w"

definition close_run :: "string \<Rightarrow> string \<Rightarrow> int \<Rightarrow> int \<Rightarrow> int \<Rightarrow> string option \<Rightarrow> 'st ingest_world \<Rightarrow> 'st ingest_world" where
  "close_run rid status ins upd fail err w =
     update_run rid (\<lambda>r. r\<lparr>rr_ended := True, rr_status := status, rr_inserted := ins, rr_updated := upd,
                           rr_failed := fail, rr_error := err\<rparr>) w"

record 'st ingest_env =
  ie_pool :: "unit api_result"
  ie_backend :: "string \<Rightarrow> string \<Rightarrow> unit api_result"
  ie_meta :: "string \<Rightarrow> string \<Rightarrow> table_meta option api_result"
  ie_write :: "table_meta \<Rightarrow> stamp \<Rightarrow> json list \<Rightarrow> 'st \<Rightarrow> (int \<times> int) api_result \<times> 'st"
  ie_open :: "string api_result"
  ie_submit :: "unit api_result"
  ie_close :: bool
  ie_now :: string

record ingest_params =
  ip_schema :: string
  ip_table :: string
  ip_source :: string
  ip_source_endpoint :: string
  ip_submitted_by :: "string option"
  ip_run_id :: "string option"
  ip_declared_endpoint :: "string option"
  ip_mode :: string
  ip_user_agent :: "string option"
  ip_validate :: bool
  ip_fire_lumilake :: bool

record ingest_result =
  ir_run_id :: "string option"
  ir_schema :: string
  ir_table :: string
  ir_received :: nat
  ir_inserted :: int
  ir_updated :: int
  ir_failed :: nat
  ir_rejected :: "rejected list"
  ir_status :: string

datatype ingest_err = UnknownTable string | Failed api_error

fun api_of_ingest :: "ingest_err \<Rightarrow> api_error" where
  "api_of_ingest (UnknownTable t) = NotFound (''unknown table: '' @ t)"
| "api_of_ingest (Failed a) = a"

section \<open>Ingesting records\<close>

definition valid_source_endpoint :: "string \<Rightarrow> bool" where
  \<comment> \<open>at most 200 characters: all allowed ones are single bytes\<close>
  "valid_source_endpoint s \<longleftrightarrow>
     s \<noteq> [] \<and> length s \<le> 200 \<and> list_all (\<lambda>c. is_ascii_alphanumeric c \<or> c \<in> set ''_:/?=&.-'') s"

definition slice_to :: "nat \<Rightarrow> string \<Rightarrow> string run" where
  \<comment> \<open>\<open>&s[..n]\<close> panics inside a character\<close>
  "slice_to n s = (if n < length s \<and> is_continuation (s ! n) then None else Some (take n s))"

definition truncated :: "string \<Rightarrow> string run" where
  "truncated s = slice_to (min (length s) 4000) s"

definition run_args :: "ingest_params \<Rightarrow> nat \<Rightarrow> json" where
  "run_args p received =
     JObject ([(''target_schema'', JString (ip_schema p)), (''target_table'', JString (ip_table p)),
               (''mode'', JString (ip_mode p)), (''n_records_received'', JNumber (NInt (int received)))] @
       (case ip_declared_endpoint p of Some d \<Rightarrow> [(''declared_endpoint'', JString d)] | None \<Rightarrow> []) @
       (case ip_user_agent p of Some u \<Rightarrow> [(''user_agent'', JString u)] | None \<Rightarrow> []) @
       (case ip_submitted_by p of Some b \<Rightarrow> [(''submitted_by'', JString b)] | None \<Rightarrow> []))"

definition check_params :: "ingest_params \<Rightarrow> unit api_result" where
  "check_params p =
     (if ip_schema p = [] \<or> ip_table p = [] then Inl (BadRequest ''target_schema and target_table are required'')
      else if ip_source p = [] then Inl (BadRequest ''source is required'')
      else if ip_source_endpoint p = [] \<or> \<not> valid_source_endpoint (ip_source_endpoint p) then
        Inl (BadRequest (''source_endpoint must match [A-Za-z0-9_:/?=&.-]{1,200} (got '' @
               debug_str (ip_source_endpoint p) @ '')''))
      else Inr ())"

definition locate :: "'st ingest_env \<Rightarrow> ingest_params \<Rightarrow> ingest_err + table_meta" where
  \<comment> \<open>everything before the validation\<close>
  "locate env p =
     (case check_params p of
        Inl e \<Rightarrow> Inl (Failed e)
      | Inr _ \<Rightarrow>
          (case ie_pool env of
             Inl e \<Rightarrow> Inl (Failed e)
           | Inr _ \<Rightarrow>
               (case ie_backend env (ip_schema p) (ip_table p) of
                  Inl e \<Rightarrow> Inl (Failed e)
                | Inr _ \<Rightarrow>
                    (case ie_meta env (ip_schema p) (ip_table p) of
                       Inl e \<Rightarrow> Inl (Failed e)
                     | Inr None \<Rightarrow> Inl (UnknownTable (ip_schema p @ ''.'' @ ip_table p))
                     | Inr (Some m) \<Rightarrow> Inr m))))"

definition begin_run ::
  "'st ingest_env \<Rightarrow> ingest_params \<Rightarrow> nat \<Rightarrow> 'st ingest_world \<Rightarrow> string api_result \<times> 'st ingest_world" where
  \<comment> \<open>open a run, or adopt the caller's\<close>
  "begin_run env p received w =
     (case ip_run_id p of
        Some rid \<Rightarrow> (Inr rid, w)
      | None \<Rightarrow>
          (case ie_open env of
             Inl e \<Rightarrow> (Inl e, w)
           | Inr rid \<Rightarrow>
               (let w1 = open_run rid ''ingress:generic'' (run_args p received) w
                in case ip_submitted_by p of
                     None \<Rightarrow> (Inr rid, w1)
                   | Some sub \<Rightarrow>
                       (case ie_submit env of
                          Inl e \<Rightarrow> (Inl e, w1)
                        | Inr _ \<Rightarrow> (Inr rid, set_submitted_by rid sub w1)))))"

definition end_run ::
  "'st ingest_env \<Rightarrow> ingest_params \<Rightarrow> string \<Rightarrow> string \<Rightarrow> int \<Rightarrow> int \<Rightarrow> int \<Rightarrow> string option \<Rightarrow> 'st ingest_world \<Rightarrow> 'st ingest_world" where
  "end_run env p rid status ins upd fail err w =
     (if ip_run_id p = None \<and> ie_close env then close_run rid status ins upd fail err w else w)"

definition error_text :: "api_error \<Rightarrow> string" where
  "error_text e = (case e of Internal inner \<Rightarrow> inner | other \<Rightarrow> display other)"

definition write_parsed ::
  "'st ingest_env \<Rightarrow> ingest_params \<Rightarrow> table_meta \<Rightarrow> nat \<Rightarrow> json list \<Rightarrow> rejected list \<Rightarrow> string \<Rightarrow> 'st ingest_world \<Rightarrow>
     (ingest_err + ingest_result) run \<times> 'st ingest_world" where
  "write_parsed env p meta received parsed rejected rid w =
     (case ie_write env meta \<lparr>st_source = ip_source p, st_endpoint = ip_source_endpoint p, st_run_id = rid, st_now = ie_now env\<rparr>
             parsed (iw_store w) of
        (Inr (ins, upd), store) \<Rightarrow>
          (let status = (if rejected = [] then ''ok'' else ''partial'');
               w1 = end_run env p rid status ins upd (int (length rejected)) None (w\<lparr>iw_store := store\<rparr>);
               out = \<lparr>ir_run_id = Some rid, ir_schema = ip_schema p, ir_table = ip_table p, ir_received = received,
                      ir_inserted = ins, ir_updated = upd, ir_failed = length rejected, ir_rejected = rejected,
                      ir_status = status\<rparr>;
               w2 = (if ip_fire_lumilake p \<and> 0 < ins + upd then w1\<lparr>iw_handoffs := iw_handoffs w1 @ [rid]\<rparr> else w1)
           in (Some (Inr out), w2))
      | (Inl e, store) \<Rightarrow>
          (let w0 = w\<lparr>iw_store := store\<rparr>
           in case truncated (error_text e) of
                None \<Rightarrow> (None, w0)
              | Some t \<Rightarrow>
                  (Some (Inl (Failed (Internal (''ingest write failed; check server logs for run '' @ rid)))),
                   end_run env p rid ''failed'' 0 0 (int (length rejected)) (Some t) w0)))"

definition ingest_records ::
  "'st ingest_env \<Rightarrow> ingest_params \<Rightarrow> json list \<Rightarrow> 'st ingest_world \<Rightarrow>
     (ingest_err + ingest_result) run \<times> 'st ingest_world" where
  "ingest_records env p records w =
     (case locate env p of
        Inl e \<Rightarrow> (Some (Inl e), w)
      | Inr meta \<Rightarrow>
          (case (if ip_validate p then validate_batch meta records else (records, [])) of
             (parsed, rejected) \<Rightarrow>
               if ip_validate p \<and> parsed = [] \<and> rejected \<noteq> [] then
                 (Some (Inr \<lparr>ir_run_id = None, ir_schema = ip_schema p, ir_table = ip_table p,
                             ir_received = length records, ir_inserted = 0, ir_updated = 0,
                             ir_failed = length rejected, ir_rejected = rejected, ir_status = ''failed''\<rparr>), w)
               else
                 (case begin_run env p (length records) w of
                    (Inl e, w1) \<Rightarrow> (Some (Inl (Failed e)), w1)
                  | (Inr rid, w1) \<Rightarrow> write_parsed env p meta (length records) parsed rejected rid w1)))"

section \<open>What an ingest reports\<close>

definition closed_as :: "'st ingest_world \<Rightarrow> string \<Rightarrow> string \<Rightarrow> int \<Rightarrow> int \<Rightarrow> int \<Rightarrow> bool" where
  "closed_as w rid status ins upd fail \<longleftrightarrow>
     (case map_of (iw_runs w) rid of
        Some r \<Rightarrow> rr_ended r \<and> rr_status r = status \<and> rr_inserted r = ins \<and> rr_updated r = upd \<and> rr_failed r = fail
      | None \<Rightarrow> False)"

definition accounted :: "'st ingest_world \<Rightarrow> json list \<Rightarrow> ingest_result \<Rightarrow> 'st ingest_world \<Rightarrow> bool" where
  \<comment> \<open>every record is inserted, updated, unchanged or rejected, and the run row says the same\<close>
  "accounted w records out w' \<longleftrightarrow>
     ir_received out = length records \<and> ir_failed out = length (ir_rejected out) \<and>
     0 \<le> ir_inserted out \<and> 0 \<le> ir_updated out \<and>
     ir_inserted out + ir_updated out + int (ir_failed out) \<le> int (length records) \<and>
     (case ir_run_id out of
        None \<Rightarrow> w' = w \<and> ir_failed out = length records
      | Some rid \<Rightarrow>
          closed_as w' rid (ir_status out) (ir_inserted out) (ir_updated out) (int (ir_failed out)) \<and>
          (ir_status out = ''ok'' \<longleftrightarrow> ir_rejected out = []))"

definition failed_cleanly :: "'st ingest_env \<Rightarrow> 'st ingest_world \<Rightarrow> 'st ingest_world \<Rightarrow> bool" where
  \<comment> \<open>nothing is stored; a run that was opened is closed as failed unless its stamping failed\<close>
  "failed_cleanly env w w' \<longleftrightarrow>
     iw_store w' = iw_store w \<and>
     (iw_runs w' = iw_runs w \<or> ie_submit env \<noteq> Inr () \<or>
      (\<exists>rid n. ie_open env = Inr rid \<and> closed_as w' rid ''failed'' 0 0 n))"

lemma validate_lengths:
  "validate_batch meta records = (parsed, rejected) \<Longrightarrow> length parsed + length rejected = length records"
proof -
  have "length (fst (validate_from meta i records)) + length (snd (validate_from meta i records)) = length records" for i
  proof (induction records arbitrary: i)
    case (Cons r records)
    from Cons.IH [of "Suc i"] show ?case by (auto split: prod.splits option.splits)
  qed simp
  then show "validate_batch meta records = (parsed, rejected) \<Longrightarrow> length parsed + length rejected = length records"
    by (metis fst_conv snd_conv validate_batch_def)
qed

lemma run_simps [simp]:
  "iw_store (open_run rid ep args w) = iw_store w"
  "iw_store (set_submitted_by rid sub w) = iw_store w"
  "iw_store (end_run env p rid st i u f e w) = iw_store w"
  by (simp_all add: open_run_def set_submitted_by_def update_run_def end_run_def close_run_def split: option.splits)

lemma begin_run_opened:
  "begin_run env p n w = (Inr rid, w1) \<Longrightarrow> ip_run_id p = None \<Longrightarrow>
     ie_open env = Inr rid \<and> iw_store w1 = iw_store w \<and> map_of (iw_runs w1) rid \<noteq> None"
  by (auto simp: begin_run_def Let_def open_run_def set_submitted_by_def update_run_def split: option.splits sum.splits)

lemma begin_run_error:
  "begin_run env p n w = (Inl e, w1) \<Longrightarrow>
     iw_store w1 = iw_store w \<and> (iw_runs w1 = iw_runs w \<or> ie_submit env \<noteq> Inr ())"
  by (auto simp: begin_run_def Let_def split: option.splits sum.splits)

lemma end_run_closed:
  "map_of (iw_runs w) rid \<noteq> None \<Longrightarrow> ip_run_id p = None \<Longrightarrow> ie_close env \<Longrightarrow>
     closed_as (end_run env p rid status i u f e w) rid status i u f"
  by (auto simp: closed_as_def end_run_def close_run_def update_run_def split: option.splits)

lemma closed_as_frame [simp]:
  "closed_as (w\<lparr>iw_handoffs := hs\<rparr>) rid st i u f = closed_as w rid st i u f"
  by (simp add: closed_as_def)

context storage_backend
begin

lemma write_parsed_outcome:
  assumes "ie_write env = wr" "ip_run_id p = None" "ie_close env" "ie_open env = Inr rid"
    "map_of (iw_runs w1) rid \<noteq> None" "iw_store w1 = iw_store w" "length parsed + length rejected = length records"
    "write_parsed env p meta (length records) parsed rejected rid w1 = (Some res, w')"
  shows "case res of Inr out \<Rightarrow> accounted w records out w' | Inl e \<Rightarrow> failed_cleanly env w w'"
proof -
  let ?s = "\<lparr>st_source = ip_source p, st_endpoint = ip_source_endpoint p, st_run_id = rid, st_now = ie_now env\<rparr>"
  obtain r st' where w: "wr meta ?s parsed (iw_store w1) = (r, st')" by (cases "wr meta ?s parsed (iw_store w1)")
  show ?thesis
  proof (cases r)
    case (Inl e)
    with w have "st' = iw_store w1" using failed_unchanged by blast
    moreover from Inl w assms obtain t where "res = Inl (Failed (Internal (''ingest write failed; check server logs for run '' @ rid)))"
        "w' = end_run env p rid ''failed'' 0 0 (int (length rejected)) (Some t) (w1\<lparr>iw_store := st'\<rparr>)"
      by (auto simp: write_parsed_def Let_def split: option.splits)
    moreover have "closed_as (end_run env p rid ''failed'' 0 0 (int (length rejected)) (Some t) (w1\<lparr>iw_store := st'\<rparr>)) rid ''failed'' 0 0
        (int (length rejected))" for t
      using assms(2,3,5) by (intro end_run_closed) auto
    ultimately show ?thesis using assms(4,6) by (auto simp: failed_cleanly_def)
  next
    case (Inr c)
    then obtain i u where c: "r = Inr (i, u)" by (cases c) auto
    with w have b: "0 \<le> i \<and> 0 \<le> u \<and> i + u \<le> int (length parsed)" using counts_bounded by blast
    with c w assms end_run_closed [of "w1\<lparr>iw_store := st'\<rparr>" rid p env] show ?thesis
      by (auto simp: write_parsed_def Let_def accounted_def split: if_splits)
  qed
qed

lemma ingest_outcome:
  assumes "ie_write env = wr" "ip_run_id p = None" "ie_close env" "ip_validate p"
    "ingest_records env p records w = (Some res, w')"
  shows "case res of Inr out \<Rightarrow> accounted w records out w' | Inl e \<Rightarrow> failed_cleanly env w w'"
proof (cases "locate env p")
  case (Inl e)
  with assms(5) show ?thesis by (auto simp: ingest_records_def failed_cleanly_def)
next
  case (Inr meta)
  obtain parsed rejected where v: "validate_batch meta records = (parsed, rejected)" by (cases "validate_batch meta records")
  note len = validate_lengths [OF v]
  obtain r w1 where b: "begin_run env p (length records) w = (r, w1)" by (cases "begin_run env p (length records) w")
  show ?thesis
  proof (cases "parsed = [] \<and> rejected \<noteq> []")
    case True
    with assms(4,5) Inr v len show ?thesis by (auto simp: ingest_records_def accounted_def)
  next
    case False
    note go = assms(5) [unfolded ingest_records_def] 
    show ?thesis
    proof (cases r)
      case (Inl e)
      with go False assms(4) Inr v b have "res = Inl (Failed e)" "w' = w1" by auto
      with begin_run_error [OF b [unfolded Inl]] show ?thesis by (auto simp: failed_cleanly_def)
    next
      case (Inr rid)
      with go False assms(4) \<open>locate env p = Inr meta\<close> v b
      have "write_parsed env p meta (length records) parsed rejected rid w1 = (Some res, w')" by auto
      with begin_run_opened [OF b [unfolded Inr] assms(2)] show ?thesis
        by (intro write_parsed_outcome [OF assms(1-3) _ _ _ len]) auto
    qed
  qed
qed

end


definition sample_ingest_env :: "(string row list) ingest_env" where
  "sample_ingest_env =
     \<lparr>ie_pool = Inr (), ie_backend = (\<lambda>_ _. Inr ()), ie_meta = (\<lambda>_ _. Inr (Some sample_meta)),
      ie_write = write_records sample_printers sample_pg [] sample_columns ''x'' ''y'',
      ie_open = Inr ''r1'', ie_submit = Inr (), ie_close = True, ie_now = ''t''\<rparr>"

definition sample_params :: ingest_params where
  "sample_params =
     \<lparr>ip_schema = ''x'', ip_table = ''y'', ip_source = ''ingress:u'', ip_source_endpoint = ''ingress:u'',
      ip_submitted_by = Some ''u'', ip_run_id = None, ip_declared_endpoint = None, ip_mode = ''typed'',
      ip_user_agent = None, ip_validate = True, ip_fire_lumilake = True\<rparr>"

definition sample_ingest_world :: "(string row list) ingest_world" where
  "sample_ingest_world = \<lparr>iw_store = [], iw_runs = [], iw_invalidated = [], iw_handoffs = []\<rparr>"

definition mixed_records :: "json list" where
  \<comment> \<open>two records of one key and one record the validator rejects\<close>
  "mixed_records = sample_records @ [JObject [(''id'', JString ''7'')]]"


text \<open>An error text cut inside a character aborts the request and leaves the run open.\<close>

lemma cut_error_text_leaves_run_open:
  fixes w :: "(string row list) ingest_world"
  assumes "map_of (iw_runs w) ''r1'' = None"
  defines "long \<equiv> replicate 3999 (CHR ''a'') @ [CHR 0xC3, CHR 0xA9]"
  defines "env \<equiv> sample_ingest_env\<lparr>ie_write := (\<lambda>meta s rs st. (Inl (Internal long), st))\<rparr>"
  shows "\<exists>w' row. ingest_records env sample_params sample_records w = (None, w') \<and>
    map_of (iw_runs w') ''r1'' = Some row \<and> rr_status row = ''running'' \<and> \<not> rr_ended row"
proof -
  have t: "truncated long = None"
    by (simp add: truncated_def slice_to_def long_def nth_append is_continuation_def code_def)
  have v: "validate_batch sample_meta sample_records = (sample_records, [])" by code_simp
  have l: "locate env sample_params = Inr sample_meta"
    by (simp add: env_def locate_def sample_ingest_env_def) code_simp
  show ?thesis
    using t v l
    by (auto simp: ingest_records_def sample_params_def begin_run_def env_def sample_ingest_env_def write_parsed_def
        error_text_def Let_def open_run_def set_submitted_by_def update_run_def)
qed

end
