(* ===== verification/Ingest_Routes.thy ===== *)
theory Ingest_Routes
  imports Ingest_Core "HOL-Library.Word"
begin

unbundle bit_operations_syntax

text \<open>
  The ingest route handlers (\<open>handlers/ingest.rs\<close>) and webhook authentication
  (\<open>ingest/webhook.rs\<close>): the split gate, typed and streamed ingest, signed
  webhooks, and the administration of the access table.

  Decoding and parsing of a streamed body (\<open>parsers\<close>), the proposal flow for
  unknown tables and the keyed hash are arguments (\<open>route_env\<close>).
\<close>

section \<open>The gate\<close>

record 'st route_env =
  re_ingest :: "'st ingest_env"
  re_acl :: "int \<Rightarrow> acl_map api_result"
  re_now :: int
  re_done :: int
  re_propose :: "string \<Rightarrow> string \<Rightarrow> string \<Rightarrow> string \<Rightarrow> json list \<Rightarrow> json api_result"
  re_ndjson :: "string option \<Rightarrow> string \<Rightarrow> json list api_result"
  re_pool_again :: "unit api_result"
  re_hmac_hex :: "string \<Rightarrow> string \<Rightarrow> string"
  re_from_slice :: "string \<Rightarrow> string + json"

definition target_exists :: "'st ingest_env \<Rightarrow> string \<Rightarrow> string \<Rightarrow> bool api_result" where
  "target_exists env sch tbl =
     (case ie_backend env sch tbl of
        Inl e \<Rightarrow> Inl e
      | Inr _ \<Rightarrow> (case ie_meta env sch tbl of Inl e \<Rightarrow> Inl e | Inr m \<Rightarrow> Inr (m \<noteq> None)))"

definition gate_target ::
  "'st route_env \<Rightarrow> identity \<Rightarrow> string \<Rightarrow> string \<Rightarrow> acl_cache \<Rightarrow> bool api_result \<times> acl_cache" where
  "gate_target env ident sch tbl c =
     (case target_exists (re_ingest env) sch tbl of
        Inl e \<Rightarrow> (Inl e, c)
      | Inr True \<Rightarrow>
          (if scope_grants_write (i_scopes ident) sch tbl then (Inr True, c)
           else
             (case check_can_write (re_acl env) (re_now env) (re_done env) (i_role ident) sch tbl c of
                (Inl e, c1) \<Rightarrow> (Inl e, c1)
              | (Inr _, c1) \<Rightarrow> (Inr True, c1)))
      | Inr False \<Rightarrow>
          (case can_propose (re_acl env) (re_now env) (re_done env) (i_role ident) c of
             (Inl e, c1) \<Rightarrow> (Inl e, c1)
           | (Inr True, c1) \<Rightarrow> (Inr False, c1)
           | (Inr False, c1) \<Rightarrow>
               (Inl (Forbidden (''role '' @ debug_str (i_role ident) @
                  '' has no ingress allowlist entries; cannot write or propose new tables.'')), c1)))"

definition invalidate_reads :: "ingest_result \<Rightarrow> 'st ingest_world \<Rightarrow> 'st ingest_world" where
  "invalidate_reads r w =
     (if 0 < ir_inserted r + ir_updated r
      then w\<lparr>iw_invalidated := iw_invalidated w @ [(ir_schema r, ir_table r)]\<rparr> else w)"

definition all_failed :: "ingest_result \<Rightarrow> bool" where
  "all_failed r \<longleftrightarrow>
     ir_status r = ''failed'' \<and> ir_inserted r = 0 \<and> ir_updated r = 0 \<and> ir_failed r = ir_received r"

definition rejected_json :: "rejected \<Rightarrow> json" where
  "rejected_json r =
     JObject [(''index'', JNumber (NInt (int (rj_index r)))), (''error'', JString (rj_error r)), (''record'', rj_record r)]"

definition result_json :: "ingest_result \<Rightarrow> json" where
  "result_json r =
     JObject [(''run_id'', case ir_run_id r of Some i \<Rightarrow> JString i | None \<Rightarrow> JNull),
              (''target_schema'', JString (ir_schema r)), (''target_table'', JString (ir_table r)),
              (''received'', JNumber (NInt (int (ir_received r)))), (''inserted'', JNumber (NInt (ir_inserted r))),
              (''updated'', JNumber (NInt (ir_updated r))), (''failed'', JNumber (NInt (int (ir_failed r)))),
              (''rejected'', JArray (map rejected_json (ir_rejected r))), (''status'', JString (ir_status r))]"

definition or_else :: "'a option \<Rightarrow> 'a \<Rightarrow> 'a" where
  "or_else v d = (case v of Some a \<Rightarrow> a | None \<Rightarrow> d)"

definition caller_source :: "identity \<Rightarrow> string" where
  "caller_source ident = ''ingress:'' @ i_sub ident"

definition finish_ingest ::
  "(ingest_err + ingest_result) run \<times> 'st ingest_world \<Rightarrow> json api_result run \<times> 'st ingest_world" where
  "finish_ingest out =
     (case out of
        (None, w) \<Rightarrow> (None, w)
      | (Some (Inl e), w) \<Rightarrow> (Some (Inl (api_of_ingest e)), w)
      | (Some (Inr r), w) \<Rightarrow>
          (Some (if all_failed r then Inl (Validation (result_json r)) else Inr (result_json r)), invalidate_reads r w))"

definition post_typed ::
  "'st route_env \<Rightarrow> identity \<Rightarrow> string \<Rightarrow> string \<Rightarrow> header_map \<Rightarrow> string option \<Rightarrow> json list \<Rightarrow> acl_cache \<Rightarrow> 'st ingest_world \<Rightarrow>
     json api_result run \<times> acl_cache \<times> 'st ingest_world" where
  "post_typed env ident sch tbl headers declared records c w =
     (if records = [] then (Some (Inl (BadRequest ''`records` must be non-empty'')), c, w)
      else
        (case gate_target env ident sch tbl c of
           (Inl e, c1) \<Rightarrow> (Some (Inl e), c1, w)
         | (Inr False, c1) \<Rightarrow> (Some (re_propose env sch tbl (i_role ident) (i_sub ident) records), c1, w)
         | (Inr True, c1) \<Rightarrow>
             (case finish_ingest (ingest_records (re_ingest env)
                     \<lparr>ip_schema = sch, ip_table = tbl, ip_source = caller_source ident,
                      ip_source_endpoint = or_else declared (caller_source ident), ip_submitted_by = Some (i_sub ident),
                      ip_run_id = None, ip_declared_endpoint = declared, ip_mode = ''typed'',
                      ip_user_agent = headers ''user-agent'', ip_validate = True, ip_fire_lumilake = True\<rparr> records w) of
                (r, w1) \<Rightarrow> (r, c1, w1))))"

section \<open>Streams\<close>

definition STREAM_FLUSH :: nat where "STREAM_FLUSH = 10000"

function chunks :: "nat \<Rightarrow> 'a list \<Rightarrow> 'a list list" where
  "chunks n xs = (if xs = [] \<or> n = 0 then [] else take n xs # chunks n (drop n xs))"
  by pat_completeness auto
termination by (relation "measure (\<lambda>(n, xs). length xs)") auto

declare chunks.simps [simp del]

record stream_acc =
  sa_inserted :: int
  sa_updated :: int
  sa_failed :: nat
  sa_rejected :: "rejected list"
  sa_error :: "string option"  \<comment> \<open>set when a chunk failed: the loop stops\<close>

fun stream_loop ::
  "'st ingest_env \<Rightarrow> ingest_params \<Rightarrow> json list list \<Rightarrow> stream_acc \<Rightarrow> 'st ingest_world \<Rightarrow> stream_acc run \<times> 'st ingest_world" where
  "stream_loop env p [] acc w = (Some acc, w)"
| "stream_loop env p (chunk # rest) acc w =
     (case ingest_records env p chunk w of
        (None, w1) \<Rightarrow> (None, w1)
      | (Some (Inr r), w1) \<Rightarrow>
          stream_loop env p rest
            (acc\<lparr>sa_inserted := sa_inserted acc + ir_inserted r, sa_updated := sa_updated acc + ir_updated r,
                 sa_failed := sa_failed acc + ir_failed r, sa_rejected := sa_rejected acc @ ir_rejected r\<rparr>) w1
      | (Some (Inl e), w1) \<Rightarrow>
          (case truncated (display (api_of_ingest e)) of
             None \<Rightarrow> (None, w1)
           | Some t \<Rightarrow> (Some (acc\<lparr>sa_error := Some t\<rparr>), w1)))"

definition final_status :: "stream_acc \<Rightarrow> string" where
  "final_status acc =
     (if sa_error acc \<noteq> None then ''failed'' else if sa_rejected acc \<noteq> [] then ''partial'' else ''ok'')"

definition stream_params :: "identity \<Rightarrow> string \<Rightarrow> string \<Rightarrow> header_map \<Rightarrow> string \<Rightarrow> ingest_params" where
  "stream_params ident sch tbl headers rid =
     (let declared = headers ''x-ingress-source-endpoint''
      in \<lparr>ip_schema = sch, ip_table = tbl, ip_source = caller_source ident,
          ip_source_endpoint = or_else declared (caller_source ident), ip_submitted_by = Some (i_sub ident),
          ip_run_id = Some rid, ip_declared_endpoint = declared, ip_mode = ''stream'',
          ip_user_agent = headers ''user-agent'', ip_validate = True, ip_fire_lumilake = False\<rparr>)"

definition opt_json :: "string option \<Rightarrow> json" where
  "opt_json v = (case v of Some s \<Rightarrow> JString s | None \<Rightarrow> JNull)"

definition stream_args :: "identity \<Rightarrow> string \<Rightarrow> string \<Rightarrow> header_map \<Rightarrow> json" where
  "stream_args ident sch tbl headers =
     JObject [(''target_schema'', JString sch), (''target_table'', JString tbl), (''mode'', JString ''stream''),
              (''declared_endpoint'', opt_json (headers ''x-ingress-source-endpoint'')),
              (''user_agent'', opt_json (headers ''user-agent'')), (''submitted_by'', JString (i_sub ident))]"

definition finish_stream ::
  "'st route_env \<Rightarrow> string \<Rightarrow> string \<Rightarrow> string \<Rightarrow> nat \<Rightarrow> stream_acc \<Rightarrow> 'st ingest_world \<Rightarrow>
     json api_result run \<times> 'st ingest_world" where
  "finish_stream env sch tbl rid received acc w =
     (case re_pool_again env of
        Inl e \<Rightarrow> (Some (Inl e), w)
      | Inr _ \<Rightarrow>
          (let w1 = (if ie_close (re_ingest env)
                     then close_run rid (final_status acc) (sa_inserted acc) (sa_updated acc) (int (sa_failed acc)) (sa_error acc) w
                     else w);
               written = 0 < sa_inserted acc + sa_updated acc;
               w2 = (if written then w1\<lparr>iw_invalidated := iw_invalidated w1 @ [(sch, tbl)]\<rparr> else w1);
               out = \<lparr>ir_run_id = Some rid, ir_schema = sch, ir_table = tbl, ir_received = received,
                      ir_inserted = sa_inserted acc, ir_updated = sa_updated acc, ir_failed = sa_failed acc,
                      ir_rejected = take 50 (sa_rejected acc), ir_status = final_status acc\<rparr>
           in if sa_error acc \<noteq> None then
                (Some (Inl (Internal (''stream ingest failed; see run '' @ rid @ '' for details''))), w2)
              else (Some (Inr (result_json out)), if written then w2\<lparr>iw_handoffs := iw_handoffs w2 @ [rid]\<rparr> else w2)))"

definition post_stream ::
  "'st route_env \<Rightarrow> identity \<Rightarrow> string \<Rightarrow> string \<Rightarrow> header_map \<Rightarrow> string \<Rightarrow> acl_cache \<Rightarrow> 'st ingest_world \<Rightarrow>
     json api_result run \<times> acl_cache \<times> 'st ingest_world" where
  "post_stream env ident sch tbl headers body c w =
     (case gate_target env ident sch tbl c of
        (Inl e, c1) \<Rightarrow> (Some (Inl e), c1, w)
      | (Inr False, c1) \<Rightarrow> (Some (Inl (NotFound (''unknown table: '' @ sch @ ''.'' @ tbl))), c1, w)
      | (Inr True, c1) \<Rightarrow>
          (case re_ndjson env (headers ''content-encoding'') body of
             Inl e \<Rightarrow> (Some (Inl e), c1, w)
           | Inr records \<Rightarrow>
               (case ie_pool (re_ingest env) of
                  Inl e \<Rightarrow> (Some (Inl e), c1, w)
                | Inr _ \<Rightarrow>
                    (case ie_open (re_ingest env) of
                       Inl e \<Rightarrow> (Some (Inl e), c1, w)
                     | Inr rid \<Rightarrow>
                         (let w1 = open_run rid ''ingress:generic'' (stream_args ident sch tbl headers) w
                          in case ie_submit (re_ingest env) of
                               Inl e \<Rightarrow> (Some (Inl e), c1, w1)
                             | Inr _ \<Rightarrow>
                                 (case stream_loop (re_ingest env) (stream_params ident sch tbl headers rid)
                                         (chunks STREAM_FLUSH records)
                                         \<lparr>sa_inserted = 0, sa_updated = 0, sa_failed = 0, sa_rejected = [], sa_error = None\<rparr>
                                         (set_submitted_by rid (i_sub ident) w1) of
                                    (None, w2) \<Rightarrow> (None, c1, w2)
                                  | (Some acc, w2) \<Rightarrow>
                                      (case finish_stream env sch tbl rid (length records) acc w2 of
                                         (r, w3) \<Rightarrow> (r, c1, w3))))))))"

section \<open>Webhooks\<close>

definition is_hex :: "char \<Rightarrow> bool" where
  "is_hex c \<longleftrightarrow> is_ascii_digit c \<or> c \<in> set ''abcdefABCDEF''"

definition parse_sig :: "string \<Rightarrow> string option" where
  "parse_sig header =
     (let h = trim header;
          hexpart = (case strip_prefix ''sha256='' h of Some r \<Rightarrow> r | None \<Rightarrow> h)
      in if length hexpart = 64 \<and> list_all is_hex hexpart then Some (to_lowercase hexpart) else None)"

definition byte :: "char \<Rightarrow> 8 word" where
  "byte c = word_of_int (code c)"

definition constant_time_eq :: "string \<Rightarrow> string \<Rightarrow> bool" where
  "constant_time_eq a b =
     (if length a \<noteq> length b then False
      else fold (\<lambda>(x, y) diff. diff OR (byte x XOR byte y)) (zip a b) (0 :: 8 word) = 0)"

record webhook_row =
  wh_id :: string
  wh_owner_sub :: string
  wh_secret :: string
  wh_schema :: "string option"
  wh_table :: "string option"
  wh_adapter :: "string option"
  wh_source_endpoint :: "string option"
  wh_active :: bool

definition verify_signature :: "(string \<Rightarrow> string \<Rightarrow> string) \<Rightarrow> string \<Rightarrow> string \<Rightarrow> string \<Rightarrow> bool" where
  "verify_signature hmac_hex secret body sig_header =
     (case parse_sig sig_header of
        None \<Rightarrow> False
      | Some supplied \<Rightarrow> constant_time_eq (hmac_hex secret body) supplied)"

definition authenticate ::
  "(string \<Rightarrow> string \<Rightarrow> string) \<Rightarrow> webhook_row option api_result \<Rightarrow> string \<Rightarrow> string \<Rightarrow> string \<Rightarrow> webhook_row api_result" where
  \<comment> \<open>the second argument is what the lookup of the id returns\<close>
  "authenticate hmac_hex fetched webhook_id body sig_header =
     (case fetched of
        Inl e \<Rightarrow> Inl e
      | Inr found \<Rightarrow>
          (case found of
             Some wh \<Rightarrow>
               if wh_active wh then
                 (if verify_signature hmac_hex (wh_secret wh) body sig_header then Inr wh
                  else Inl (Unauthorized ''invalid webhook signature''))
               else Inl (NotFound (''unknown webhook '' @ debug_str webhook_id))
           | None \<Rightarrow> Inl (NotFound (''unknown webhook '' @ debug_str webhook_id))))"

definition webhook_target :: "webhook_row \<Rightarrow> (string \<times> string) api_result" where
  "webhook_target wh =
     (if wh_adapter wh \<noteq> None then
        Inl (Unavailable ''adapter-bound webhooks are handled by the Python sidecar on this build'')
      else
        (case (wh_schema wh, wh_table wh) of
           (Some s, Some t) \<Rightarrow> Inr (s, t)
         | _ \<Rightarrow> Inl (BadRequest ''webhook has no typed target'')))"

definition webhook_records :: "'st route_env \<Rightarrow> string \<Rightarrow> json list api_result" where
  "webhook_records env body =
     (case re_from_slice env body of
        Inl e \<Rightarrow> Inl (BadRequest (''invalid JSON: '' @ e))
      | Inr (JObject kvs) \<Rightarrow>
          (case map_of kvs ''records'' of
             Some (JArray (r # rs)) \<Rightarrow> Inr (r # rs)
           | _ \<Rightarrow> Inl (BadRequest ''`records` must be a non-empty list''))
      | Inr _ \<Rightarrow> Inl (BadRequest ''`records` must be a non-empty list''))"

definition post_webhook ::
  "'st route_env \<Rightarrow> webhook_row option api_result \<Rightarrow> string \<Rightarrow> header_map \<Rightarrow> string \<Rightarrow> acl_cache \<Rightarrow> 'st ingest_world \<Rightarrow>
     json api_result run \<times> acl_cache \<times> 'st ingest_world" where
  "post_webhook env fetched webhook_id headers body c w =
     (if body = [] then (Some (Inl (BadRequest ''empty body'')), c, w)
      else
        (case authenticate (re_hmac_hex env) fetched webhook_id body (or_else (headers ''x-webhook-signature'') []) of
           Inl e \<Rightarrow> (Some (Inl e), c, w)
         | Inr wh \<Rightarrow>
             (case webhook_target wh of
                Inl e \<Rightarrow> (Some (Inl e), c, w)
              | Inr (sch, tbl) \<Rightarrow>
                  (case webhook_records env body of
                     Inl e \<Rightarrow> (Some (Inl e), c, w)
                   | Inr records \<Rightarrow>
                       (case check_can_write (re_acl env) (re_now env) (re_done env) ''local'' sch tbl c of
                          (Inl e, c1) \<Rightarrow> (Some (Inl e), c1, w)
                        | (Inr _, c1) \<Rightarrow>
                            (let src = ''ingress:webhook:'' @ wh_id wh; declared = or_else (wh_source_endpoint wh) src
                             in case ingest_records (re_ingest env)
                                       \<lparr>ip_schema = sch, ip_table = tbl, ip_source = src, ip_source_endpoint = declared,
                                        ip_submitted_by = Some (wh_owner_sub wh), ip_run_id = None,
                                        ip_declared_endpoint = Some declared, ip_mode = ''webhook'',
                                        ip_user_agent = headers ''user-agent'', ip_validate = True, ip_fire_lumilake = False\<rparr>
                                       records w of
                                  (None, w1) \<Rightarrow> (None, c1, w1)
                                | (Some (Inl e), w1) \<Rightarrow> (Some (Inl (api_of_ingest e)), c1, w1)
                                | (Some (Inr r), w1) \<Rightarrow> (Some (Inr (result_json r)), c1, invalidate_reads r w1)))))))"

section \<open>Administration of the access table\<close>

definition require_admin :: "identity \<Rightarrow> unit api_result" where
  "require_admin ident =
     (if i_role ident = ''super_admin'' \<or> i_role ident = ''local'' then Inr ()
      else Inl (Forbidden ''super_admin or local-key required''))"

definition grant_acl ::
  "identity \<Rightarrow> string \<Rightarrow> string \<Rightarrow> string \<Rightarrow> bool \<Rightarrow> acl_map \<Rightarrow> acl_cache \<Rightarrow> unit api_result \<times> acl_map \<times> acl_cache" where
  \<comment> \<open>the access table itself is the map; the statement is an upsert on its key\<close>
  "grant_acl ident role sch tbl can tab c =
     (case require_admin ident of
        Inl e \<Rightarrow> (Inl e, tab, c)
      | Inr _ \<Rightarrow> (Inr (), hm_insert (role, sch, tbl) can tab, acl_invalidate c))"

definition revoke_acl ::
  "identity \<Rightarrow> string \<Rightarrow> string \<Rightarrow> string \<Rightarrow> acl_map \<Rightarrow> acl_cache \<Rightarrow> unit api_result \<times> acl_map \<times> acl_cache" where
  "revoke_acl ident role sch tbl tab c =
     (case require_admin ident of
        Inl e \<Rightarrow> (Inl e, tab, c)
      | Inr _ \<Rightarrow>
          (if map_of tab (role, sch, tbl) = None then Inl (NotFound ''no ACL row matched'') else Inr (),
           filter (\<lambda>(k, v). k \<noteq> (role, sch, tbl)) tab, acl_invalidate c))"

definition refresh_acl :: "identity \<Rightarrow> acl_cache \<Rightarrow> unit api_result \<times> acl_cache" where
  "refresh_acl ident c =
     (case require_admin ident of Inl e \<Rightarrow> (Inl e, c) | Inr _ \<Rightarrow> (Inr (), acl_invalidate c))"

section \<open>Who may write\<close>

definition may_write :: "'st route_env \<Rightarrow> identity \<Rightarrow> string \<Rightarrow> string \<Rightarrow> acl_cache \<Rightarrow> bool" where
  \<comment> \<open>a capability of the caller names the table, or the access table grants it to the caller's role\<close>
  "may_write env ident sch tbl c \<longleftrightarrow>
     scope_grants_write (i_scopes ident) sch tbl \<or>
     fst (check_can_write (re_acl env) (re_now env) (re_done env) (i_role ident) sch tbl c) = Inr ()"

lemma gate_target_true: "gate_target env ident sch tbl c = (Inr True, c1) \<Longrightarrow> may_write env ident sch tbl c"
  by (auto simp: gate_target_def may_write_def split: sum.splits bool.splits if_splits prod.splits)

lemma post_typed_gated: "snd (snd (post_typed env ident sch tbl headers declared records c w)) = w \<or> may_write env ident sch tbl c"
  using gate_target_true [of env ident sch tbl c]
  by (auto simp: post_typed_def split: prod.splits sum.splits bool.splits)

lemma post_stream_gated: "snd (snd (post_stream env ident sch tbl headers body c w)) = w \<or> may_write env ident sch tbl c"
  using gate_target_true [of env ident sch tbl c]
  unfolding post_stream_def
  by (cases "gate_target env ident sch tbl c"; cases "fst (gate_target env ident sch tbl c)") (auto split: bool.splits)

lemma byte_inject: "byte x = byte y \<longleftrightarrow> x = y"
proof -
  have "0 \<le> code c \<and> code c < 256" for c using code_range [of c] by simp
  then have "uint (byte c) = code c" for c by (simp add: byte_def uint_word_of_int)
  then show ?thesis by (metis code_inject)
qed

lemma fold_or_zero:
  "fold (\<lambda>(x, y) diff. diff OR (byte x XOR byte y)) ps (d :: 8 word) = 0 \<longleftrightarrow> d = 0 \<and> (\<forall>(x, y) \<in> set ps. x = y)"
proof (induction ps arbitrary: d)
  case (Cons p ps)
  obtain x y where p: "p = (x, y)" by (cases p)
  have "d OR (byte x XOR byte y) = 0 \<longleftrightarrow> d = 0 \<and> x = y"
    unfolding byte_inject [symmetric] by (auto simp: bit_eq_iff bit_simps)
  then show ?case by (auto simp: p Cons.IH)
qed simp

lemma constant_time_eq_iff: "constant_time_eq a b \<longleftrightarrow> a = b"
proof (cases "length a = length b")
  case True
  then have "(\<forall>(x, y) \<in> set (zip a b). x = y) \<longleftrightarrow> a = b"
    by (induction rule: list_induct2) auto
  with True show ?thesis by (simp add: constant_time_eq_def fold_or_zero)
qed (auto simp: constant_time_eq_def)

definition signed_by :: "string \<Rightarrow> string \<Rightarrow> bool" where
  \<comment> \<open>the header is the digest in hex of either case, alone or after \<open>sha256=\<close>\<close>
  "signed_by digest header \<longleftrightarrow>
     (\<exists>h. (trim header = ''sha256='' @ h \<or> trim header = h) \<and> length h = 64 \<and> list_all is_hex h \<and> to_lowercase h = digest)"

lemma strip_prefix_app: "strip_prefix p s = Some r \<longleftrightarrow> s = p @ r"
  by (induction p s rule: strip_prefix.induct) auto

lemma scheme_not_hex: "list_all is_hex h \<Longrightarrow> strip_prefix ''sha256='' h = None"
  by (cases h) (auto simp: is_hex_def is_ascii_digit_def code_def)

lemma verify_signature_iff: "verify_signature hm secret body header \<longleftrightarrow> signed_by (hm secret body) header"
proof (cases "strip_prefix ''sha256='' (trim header)")
  case None
  then have "trim header \<noteq> ''sha256='' @ h" for h by (metis option.distinct(1) strip_prefix_app)
  with None show ?thesis
    by (auto simp: verify_signature_def parse_sig_def Let_def signed_by_def constant_time_eq_iff)
next
  case (Some r)
  then have t: "trim header = ''sha256='' @ r" by (simp add: strip_prefix_app)
  moreover have "\<not> list_all is_hex (trim header)" using Some scheme_not_hex by force
  ultimately show ?thesis using Some
    by (auto simp: verify_signature_def parse_sig_def Let_def signed_by_def constant_time_eq_iff)
qed

lemma post_webhook_gated:
  "snd (snd (post_webhook env fetched webhook_id headers body c w)) = w \<or>
     (\<exists>wh. authenticate (re_hmac_hex env) fetched webhook_id body (or_else (headers ''x-webhook-signature'') []) = Inr wh)"
  unfolding post_webhook_def
  by (cases "authenticate (re_hmac_hex env) fetched webhook_id body (or_else (headers ''x-webhook-signature'') [])") auto

lemma authenticate_iff:
  "authenticate hm fetched webhook_id body header = Inr wh \<longleftrightarrow>
     fetched = Inr (Some wh) \<and> wh_active wh \<and> signed_by (hm (wh_secret wh) body) header"
  by (auto simp: authenticate_def verify_signature_iff split: sum.splits option.splits if_splits)


section \<open>Chunks\<close>

lemma concat_chunks: "0 < n \<Longrightarrow> concat (chunks n xs) = xs"
  by (induction n xs rule: chunks.induct) (subst chunks.simps, auto)

lemma chunks_bounded: "ys \<in> set (chunks n xs) \<Longrightarrow> length ys \<le> n \<and> ys \<noteq> []"
proof (induction n xs rule: chunks.induct)
  case (1 n xs)
  from "1.prems" "1.IH" show ?case by (subst (asm) chunks.simps) (auto split: if_splits)
qed

text \<open>The rejects of a later chunk are numbered from zero again.\<close>

lemma stream_reject_index_restarts:
  fixes w :: "(string row list) ingest_world"
  defines "good \<equiv> JObject [(''k'', JString ''a'')]" and "bad \<equiv> JObject [(''id'', JString ''7'')]"
  shows "map_option (\<lambda>a. map rj_index (sa_rejected a)) (fst (stream_loop sample_ingest_env (sample_params\<lparr>ip_run_id := Some ''r''\<rparr>)
      (chunks 2 [good, good, bad]) \<lparr>sa_inserted = 0, sa_updated = 0, sa_failed = 0, sa_rejected = [], sa_error = None\<rparr> sample_ingest_world)) = Some [0]"
  unfolding good_def bad_def by code_simp

end
