(* ===== verification/Sync_Inbox.thy ===== *)
theory Sync_Inbox
  imports Ingest_Routes Config
begin

text \<open>
  The inbox of the data-push plane (\<open>sync/mod.rs\<close>, \<open>sync/inbox.rs\<close>): the gate for
  sync peers, the ledger that recognises a redelivered batch, the provenance
  preamble, and the apply through the ingest pipeline with the original run.

  The database's reading of a provenance row (\<open>jsonb_populate_record\<close>) and the
  success of the bookkeeping statements are arguments (\<open>sync_env\<close>).
\<close>

section \<open>Who may push\<close>

definition is_denied_schema :: "string \<Rightarrow> bool" where
  "is_denied_schema sch \<longleftrightarrow>
     sch \<in> {''sync'', ''provenance'', ''information_schema''} \<or> starts_with sch ''pg_''"

definition peer_from :: "string list \<Rightarrow> string \<Rightarrow> string \<Rightarrow> string option" where
  "peer_from labels role sub =
     (if role = ''sync_peer'' then Some sub
      else if role = ''local'' then
        (case strip_prefix ''local:'' sub of
           Some label \<Rightarrow>
             if (if labels = [] then starts_with label ''sync:'' else label \<in> set labels)
             then Some (or_else (strip_prefix ''sync:'' label) label) else None
         | None \<Rightarrow> None)
      else None)"

definition require_sync_peer :: "settings \<Rightarrow> identity \<Rightarrow> string api_result" where
  "require_sync_peer st ident =
     (case peer_from (sync_peer_labels (s_sync st)) (i_role ident) (i_sub ident) of
        Some p \<Rightarrow> Inr p
      | None \<Rightarrow> Inl (Forbidden ''sync-peer credential required (local key labelled `sync:<peer>`, or role `sync_peer`)''))"

section \<open>Batches and their bookkeeping\<close>

record preamble =
  pr_api_sources :: "json list"
  pr_endpoints :: "json list"
  pr_runs :: "json list"

record sync_body =
  sb_batch_id :: string
  sb_source :: string
  sb_source_endpoint :: string
  sb_run_id :: string
  sb_provenance :: preamble
  sb_records :: "json list"

record sync_ack =
  sy_batch_id :: string
  sy_inserted :: int
  sy_updated :: int
  sy_failed :: nat
  sy_duplicate :: bool

record ledger_row =
  lr_run_id :: string
  lr_schema :: string
  lr_table :: string
  lr_inserted :: int
  lr_updated :: int
  lr_rows :: nat

record 'st sync_world =
  yw_ingest :: "'st ingest_world"
  yw_sources :: "(string, json) hash_map"
  yw_endpoints :: "(string, json) hash_map"
  yw_ledger :: "(string \<times> string, ledger_row) hash_map"

record 'st sync_env =
  ye_ingest :: "'st ingest_env"
  ye_pool :: "unit api_result"
  ye_lookup :: "string option"  \<comment> \<open>the error of the ledger lookup\<close>
  ye_pk :: "string \<Rightarrow> json \<Rightarrow> string + string"
  ye_run :: "json \<Rightarrow> run_row"
  ye_run_lookup :: "string option"
  ye_ledger_insert :: "string option"

fun upsert_prov ::
  "(json \<Rightarrow> string + string) \<Rightarrow> (json \<Rightarrow> 'v) \<Rightarrow> string \<Rightarrow> json list \<Rightarrow> (string, 'v) hash_map \<Rightarrow>
     api_error option \<times> (string, 'v) hash_map" where
  \<comment> \<open>rows in order, existing keys kept; the rows before a failing one stay\<close>
  "upsert_prov pk val tbl [] m = (None, m)"
| "upsert_prov pk val tbl (r # rs) m =
     (case pk r of
        Inl e \<Rightarrow> (Some (Internal (''preamble upsert '' @ tbl @ '': '' @ e)), m)
      | Inr k \<Rightarrow> upsert_prov pk val tbl rs (if map_of m k = None then hm_insert k (val r) m else m))"

definition apply_preamble :: "'st sync_env \<Rightarrow> preamble \<Rightarrow> 'st sync_world \<Rightarrow> api_error option \<times> 'st sync_world" where
  "apply_preamble env pre w =
     (case upsert_prov (ye_pk env ''provenance.api_sources'') id ''provenance.api_sources'' (pr_api_sources pre) (yw_sources w) of
        (Some e, m) \<Rightarrow> (Some e, w\<lparr>yw_sources := m\<rparr>)
      | (None, m) \<Rightarrow>
          (let w1 = w\<lparr>yw_sources := m\<rparr>
           in case upsert_prov (ye_pk env ''provenance.endpoints'') id ''provenance.endpoints'' (pr_endpoints pre) (yw_endpoints w1) of
                (Some e, m) \<Rightarrow> (Some e, w1\<lparr>yw_endpoints := m\<rparr>)
              | (None, m) \<Rightarrow>
                  (let w2 = w1\<lparr>yw_endpoints := m\<rparr>
                   in case upsert_prov (ye_pk env ''provenance.runs'') (ye_run env) ''provenance.runs'' (pr_runs pre)
                             (iw_runs (yw_ingest w2)) of
                        (r, m) \<Rightarrow> (r, w2\<lparr>yw_ingest := (yw_ingest w2)\<lparr>iw_runs := m\<rparr>\<rparr>))))"

definition sync_params :: "string \<Rightarrow> string \<Rightarrow> string \<Rightarrow> sync_body \<Rightarrow> ingest_params" where
  "sync_params peer sch tbl b =
     \<lparr>ip_schema = sch, ip_table = tbl, ip_source = sb_source b, ip_source_endpoint = sb_source_endpoint b,
      ip_submitted_by = Some peer, ip_run_id = Some (sb_run_id b), ip_declared_endpoint = None, ip_mode = ''sync'',
      ip_user_agent = None, ip_validate = True, ip_fire_lumilake = False\<rparr>"

definition finish_apply ::
  "'st sync_env \<Rightarrow> string \<Rightarrow> string \<Rightarrow> string \<Rightarrow> sync_body \<Rightarrow> 'st sync_world \<Rightarrow> ingest_result \<Rightarrow>
     sync_ack api_result \<times> 'st sync_world" where
  \<comment> \<open>after the ingest: a fully rejected batch is an error, otherwise invalidate and record\<close>
  "finish_apply env peer sch tbl b w r =
     (if all_failed r then (Inl (Validation (result_json r)), w)
      else
        (let w1 = (if 0 < ir_inserted r + ir_updated r
                   then w\<lparr>yw_ingest := (yw_ingest w)\<lparr>iw_invalidated := iw_invalidated (yw_ingest w) @ [(sch, tbl)]\<rparr>\<rparr>
                   else w)
         in case ye_ledger_insert env of
              Some e \<Rightarrow> (Inl (Internal (''ledger insert: '' @ e)), w1)
            | None \<Rightarrow>
                (Inr \<lparr>sy_batch_id = sb_batch_id b, sy_inserted = ir_inserted r, sy_updated = ir_updated r,
                      sy_failed = ir_failed r, sy_duplicate = False\<rparr>,
                 if map_of (yw_ledger w1) (peer, sb_batch_id b) = None
                 then w1\<lparr>yw_ledger := hm_insert (peer, sb_batch_id b)
                        \<lparr>lr_run_id = sb_run_id b, lr_schema = sch, lr_table = tbl, lr_inserted = ir_inserted r,
                         lr_updated = ir_updated r, lr_rows = ir_received r\<rparr> (yw_ledger w1)\<rparr>
                 else w1)))"

definition apply_batch ::
  "'st sync_env \<Rightarrow> string \<Rightarrow> string \<Rightarrow> string \<Rightarrow> sync_body \<Rightarrow> 'st sync_world \<Rightarrow> sync_ack api_result run \<times> 'st sync_world" where
  \<comment> \<open>a batch the ledger does not know\<close>
  "apply_batch env peer sch tbl b w =
     (case apply_preamble env (sb_provenance b) w of
        (Some e, w1) \<Rightarrow> (Some (Inl e), w1)
      | (None, w1) \<Rightarrow>
          (case ye_run_lookup env of
             Some e \<Rightarrow> (Some (Inl (Internal (''run lookup: '' @ e))), w1)
           | None \<Rightarrow>
               if map_of (iw_runs (yw_ingest w1)) (sb_run_id b) = None then
                 (Some (Inl (BadRequest (''adopted run '' @ sb_run_id b @
                    '' has no provenance.runs row; include it in `provenance.runs`''))), w1)
               else
                 (case ingest_records (ye_ingest env) (sync_params peer sch tbl b) (sb_records b) (yw_ingest w1) of
                    (None, i) \<Rightarrow> (None, w1\<lparr>yw_ingest := i\<rparr>)
                  | (Some (Inl e), i) \<Rightarrow> (Some (Inl (api_of_ingest e)), w1\<lparr>yw_ingest := i\<rparr>)
                  | (Some (Inr r), i) \<Rightarrow>
                      (case finish_apply env peer sch tbl b (w1\<lparr>yw_ingest := i\<rparr>) r of
                         (a, w2) \<Rightarrow> (Some a, w2)))))"

definition post_sync_apply ::
  "'st sync_env \<Rightarrow> settings \<Rightarrow> identity \<Rightarrow> string \<Rightarrow> string \<Rightarrow> sync_body \<Rightarrow> 'st sync_world \<Rightarrow>
     sync_ack api_result run \<times> 'st sync_world" where
  "post_sync_apply env st ident sch tbl b w =
     (case require_sync_peer st ident of
        Inl e \<Rightarrow> (Some (Inl e), w)
      | Inr peer \<Rightarrow>
          if is_denied_schema sch then
            (Some (Inl (Forbidden (''schema `'' @ sch @ ''` is not a permitted sync target''))), w)
          else if sb_records b = [] then (Some (Inl (BadRequest ''`records` must be non-empty'')), w)
          else
            (case ye_pool env of
               Inl e \<Rightarrow> (Some (Inl e), w)
             | Inr _ \<Rightarrow>
                 (case ye_lookup env of
                    Some e \<Rightarrow> (Some (Inl (Internal (''ledger lookup: '' @ e))), w)
                  | None \<Rightarrow>
                      (case map_of (yw_ledger w) (peer, sb_batch_id b) of
                         Some row \<Rightarrow>
                           (Some (Inr \<lparr>sy_batch_id = sb_batch_id b, sy_inserted = lr_inserted row,
                                       sy_updated = lr_updated row, sy_failed = 0, sy_duplicate = True\<rparr>), w)
                       | None \<Rightarrow> apply_batch env peer sch tbl b w))))"

section \<open>Deliveries\<close>

record 'st delivery =
  dv_env :: "'st sync_env"
  dv_identity :: identity
  dv_schema :: string
  dv_table :: string
  dv_body :: sync_body

definition deliver :: "settings \<Rightarrow> 'st delivery \<Rightarrow> 'st sync_world \<Rightarrow> sync_ack api_result run \<times> 'st sync_world" where
  "deliver st d w = post_sync_apply (dv_env d) st (dv_identity d) (dv_schema d) (dv_table d) (dv_body d) w"

definition deliver_all :: "settings \<Rightarrow> 'st delivery list \<Rightarrow> 'st sync_world \<Rightarrow> 'st sync_world" where
  "deliver_all st ds w = fold (\<lambda>d w. snd (deliver st d w)) ds w"

lemma apply_preamble_ledger [simp]:
  "apply_preamble env pre w = (r, w1) \<Longrightarrow> yw_ledger w1 = yw_ledger w"
  by (simp add: apply_preamble_def Let_def case_prod_unfold split: option.splits) auto

lemma finish_apply_ledger:
  "finish_apply env peer sch tbl b w r = (a, w1) \<Longrightarrow> map_of (yw_ledger w) k = Some row \<Longrightarrow> map_of (yw_ledger w1) k = Some row"
  unfolding finish_apply_def Let_def
  by (cases "all_failed r"; cases "ye_ledger_insert env") (auto split: if_splits)

lemma finish_apply_acked:
  "finish_apply env peer sch tbl b w r = (Inr ack, w1) \<Longrightarrow> map_of (yw_ledger w) (peer, sb_batch_id b) = None \<Longrightarrow>
     \<exists>row. map_of (yw_ledger w1) (peer, sb_batch_id b) = Some row \<and> sy_batch_id ack = sb_batch_id b \<and>
       lr_inserted row = sy_inserted ack \<and> lr_updated row = sy_updated ack \<and> \<not> sy_duplicate ack"
  unfolding finish_apply_def Let_def
  by (cases "all_failed r"; cases "ye_ledger_insert env") (auto split: if_splits)

lemma apply_batch_ledger:
  assumes "apply_batch env peer sch tbl b w = (a, w1)" "map_of (yw_ledger w) k = Some row"
  shows "map_of (yw_ledger w1) k = Some row"
proof -
  obtain e w0 where pre: "apply_preamble env (sb_provenance b) w = (e, w0)" by (cases "apply_preamble env (sb_provenance b) w")
  then have "map_of (yw_ledger w0) k = Some row" using assms(2) by simp
  with pre assms(1) show ?thesis
    by (auto simp: apply_batch_def split: option.splits sum.splits prod.splits if_splits intro: finish_apply_ledger)
qed

lemma deliver_ledger:
  "map_of (yw_ledger w) k = Some row \<Longrightarrow> map_of (yw_ledger (snd (deliver st d w))) k = Some row"
  by (auto simp: deliver_def post_sync_apply_def split: sum.splits option.splits
      intro: apply_batch_ledger [OF surjective_pairing])

lemma deliver_all_ledger:
  "map_of (yw_ledger w) k = Some row \<Longrightarrow> map_of (yw_ledger (deliver_all st ds w)) k = Some row"
  unfolding deliver_all_def by (induction ds arbitrary: w) (simp_all add: deliver_ledger)

lemma apply_batch_acked:
  assumes "apply_batch env peer sch tbl b w = (Some (Inr ack), w1)" "map_of (yw_ledger w) (peer, sb_batch_id b) = None"
  shows "\<exists>row. map_of (yw_ledger w1) (peer, sb_batch_id b) = Some row \<and> sy_batch_id ack = sb_batch_id b \<and>
       lr_inserted row = sy_inserted ack \<and> lr_updated row = sy_updated ack \<and> \<not> sy_duplicate ack"
proof -
  obtain e w0 where pre: "apply_preamble env (sb_provenance b) w = (e, w0)" by (cases "apply_preamble env (sb_provenance b) w")
  then have "map_of (yw_ledger w0) (peer, sb_batch_id b) = None" using assms(2) by simp
  with pre assms(1) show ?thesis
    by (auto simp: apply_batch_def split: option.splits sum.splits prod.splits if_splits intro!: finish_apply_acked)
qed

lemma acked_is_recorded:
  assumes "post_sync_apply env st ident sch tbl b w = (Some (Inr ack), w1)"
  shows "\<exists>peer row. require_sync_peer st ident = Inr peer \<and> \<not> is_denied_schema sch \<and> sb_records b \<noteq> [] \<and>
    map_of (yw_ledger w1) (peer, sb_batch_id b) = Some row \<and> sy_batch_id ack = sb_batch_id b \<and>
    lr_inserted row = sy_inserted ack \<and> lr_updated row = sy_updated ack"
  using assms
  by (auto simp: post_sync_apply_def split: sum.splits option.splits if_splits dest!: apply_batch_acked)

text \<open>C6: A batch is applied once.  Once a delivery has been acknowledged, delivering the same batch again - after any other
  deliveries, in any environment whose ledger can be read - repeats the acknowledged counts as a duplicate and changes
  nothing.\<close>

theorem acknowledged_batch_applies_once:
  assumes "post_sync_apply env st ident sch tbl b w = (Some (Inr ack), w1)"
    and "ye_pool env' = Inr ()" "ye_lookup env' = None"
  shows "post_sync_apply env' st ident sch' tbl' b (deliver_all st ds w1) =
    (if is_denied_schema sch' then (Some (Inl (Forbidden (''schema `'' @ sch' @ ''` is not a permitted sync target''))), deliver_all st ds w1)
     else (Some (Inr (ack\<lparr>sy_failed := 0, sy_duplicate := True\<rparr>)), deliver_all st ds w1))"
proof -
  from acked_is_recorded [OF assms(1)] obtain peer row where p: "require_sync_peer st ident = Inr peer" "sb_records b \<noteq> []"
      "map_of (yw_ledger w1) (peer, sb_batch_id b) = Some row" "sy_batch_id ack = sb_batch_id b"
      "lr_inserted row = sy_inserted ack" "lr_updated row = sy_updated ack" by blast
  with deliver_all_ledger [OF p(3), of st ds] assms(2,3) show ?thesis
    by (simp add: post_sync_apply_def)
qed


section \<open>Redelivery after a lost ledger entry\<close>

lemma upsert_prov_keeps:
  "upsert_prov pk val tbl rs m = (e, m') \<Longrightarrow> map_of m k = Some v \<Longrightarrow> map_of m' k = Some v"
proof (induction rs arbitrary: m)
  case (Cons r rs)
  show ?case
  proof (cases "pk r")
    case (Inl x)
    with Cons.prems show ?thesis by simp
  next
    case (Inr j)
    have "map_of (if map_of m j = None then hm_insert j (val r) m else m) k = Some v" using Cons.prems(2) by auto
    with Cons.IH Cons.prems(1) Inr show ?thesis by auto
  qed
qed simp

lemma upsert_prov_known:
  "list_all (\<lambda>r. \<exists>k v. pk r = Inr k \<and> map_of m k = Some v) rs \<Longrightarrow> upsert_prov pk val tbl rs m = (None, m)"
  by (induction rs) auto

lemma upsert_prov_success:
  "upsert_prov pk val tbl rs m = (None, m') \<Longrightarrow> list_all (\<lambda>r. \<exists>k v. pk r = Inr k \<and> map_of m' k = Some v) rs"
proof (induction rs arbitrary: m)
  case (Cons r rs)
  then obtain k where k: "pk r = Inr k" by (auto split: sum.splits)
  let ?m = "if map_of m k = None then hm_insert k (val r) m else m"
  have u: "upsert_prov pk val tbl rs ?m = (None, m')" using Cons.prems k by simp
  obtain v where "map_of ?m k = Some v" by (cases "map_of m k") auto
  with upsert_prov_keeps [OF u] Cons.IH [OF u] k show ?case by auto
qed simp

lemma preamble_again:
  assumes "apply_preamble env pre w = (None, w1)" "ye_pk env' = ye_pk env"
    "yw_sources w2 = yw_sources w1" "yw_endpoints w2 = yw_endpoints w1" "iw_runs (yw_ingest w2) = iw_runs (yw_ingest w1)"
  shows "apply_preamble env' pre w2 = (None, w2)"
proof -
  let ?pk = "ye_pk env"
  obtain m1 m2 m3 where
      "upsert_prov (?pk ''provenance.api_sources'') id ''provenance.api_sources'' (pr_api_sources pre) (yw_sources w) = (None, m1)"
      "upsert_prov (?pk ''provenance.endpoints'') id ''provenance.endpoints'' (pr_endpoints pre) (yw_endpoints w) = (None, m2)"
      "upsert_prov (?pk ''provenance.runs'') (ye_run env) ''provenance.runs'' (pr_runs pre) (iw_runs (yw_ingest w)) = (None, m3)"
      "yw_sources w1 = m1" "yw_endpoints w1 = m2" "iw_runs (yw_ingest w1) = m3"
    using assms(1) by (auto simp: apply_preamble_def Let_def split: prod.splits option.splits)
  with upsert_prov_success [where val = id] upsert_prov_success [where val = "ye_run env"] assms(2-5)
  have "upsert_prov (ye_pk env' ''provenance.api_sources'') id ''provenance.api_sources'' (pr_api_sources pre) (yw_sources w2) = (None, yw_sources w2)"
      "upsert_prov (ye_pk env' ''provenance.endpoints'') id ''provenance.endpoints'' (pr_endpoints pre) (yw_endpoints w2) = (None, yw_endpoints w2)"
      "upsert_prov (ye_pk env' ''provenance.runs'') (ye_run env') ''provenance.runs'' (pr_runs pre) (iw_runs (yw_ingest w2)) = (None, iw_runs (yw_ingest w2))"
    by (auto intro!: upsert_prov_known)
  then show ?thesis by (simp add: apply_preamble_def)
qed

definition sync_stamp :: "sync_body \<Rightarrow> string \<Rightarrow> stamp" where
  "sync_stamp b now =
     \<lparr>st_source = sb_source b, st_endpoint = sb_source_endpoint b, st_run_id = sb_run_id b, st_now = now\<rparr>"

definition adopted_result :: "string \<Rightarrow> string \<Rightarrow> sync_body \<Rightarrow> rejected list \<Rightarrow> int \<times> int \<Rightarrow> ingest_result" where
  "adopted_result sch tbl b rejected counts =
     \<lparr>ir_run_id = Some (sb_run_id b), ir_schema = sch, ir_table = tbl, ir_received = length (sb_records b),
      ir_inserted = fst counts, ir_updated = snd counts, ir_failed = length rejected, ir_rejected = rejected,
      ir_status = (if rejected = [] then ''ok'' else ''partial'')\<rparr>"

lemma adopted_not_failed [simp]: "\<not> all_failed (adopted_result sch tbl b rejected counts)"
  by (simp add: all_failed_def adopted_result_def)

lemma sync_params_simps [simp]:
  "ip_schema (sync_params peer sch tbl b) = sch" "ip_table (sync_params peer sch tbl b) = tbl"
  "ip_source (sync_params peer sch tbl b) = sb_source b" "ip_source_endpoint (sync_params peer sch tbl b) = sb_source_endpoint b"
  "ip_run_id (sync_params peer sch tbl b) = Some (sb_run_id b)" "ip_validate (sync_params peer sch tbl b)"
  "\<not> ip_fire_lumilake (sync_params peer sch tbl b)"
  by (simp_all add: sync_params_def)

lemma adopted_ingest_ok:
  assumes "locate env (sync_params peer sch tbl b) = Inr meta"
    "validate_batch meta (sb_records b) = (parsed, rejected)" "\<not> (parsed = [] \<and> rejected \<noteq> [])"
    "ie_write env meta (sync_stamp b (ie_now env)) parsed (iw_store w) = (Inr counts, store)"
  shows "ingest_records env (sync_params peer sch tbl b) (sb_records b) w =
    (Some (Inr (adopted_result sch tbl b rejected counts)), w\<lparr>iw_store := store\<rparr>)"
  using assms
  by (cases counts)
    (auto simp: ingest_records_def begin_run_def write_parsed_def end_run_def adopted_result_def sync_stamp_def Let_def)

lemma adopted_ingest_cases:
  assumes "ingest_records env (sync_params peer sch tbl b) (sb_records b) w = (Some (Inr r), w')" "\<not> all_failed r"
  obtains meta parsed rejected counts store where
    "locate env (sync_params peer sch tbl b) = Inr meta" "validate_batch meta (sb_records b) = (parsed, rejected)"
    "\<not> (parsed = [] \<and> rejected \<noteq> [])"
    "ie_write env meta (sync_stamp b (ie_now env)) parsed (iw_store w) = (Inr counts, store)"
    "w' = w\<lparr>iw_store := store\<rparr>" "r = adopted_result sch tbl b rejected counts"
proof -
  from assms(1) obtain meta where l: "locate env (sync_params peer sch tbl b) = Inr meta"
    by (cases "locate env (sync_params peer sch tbl b)") (auto simp: ingest_records_def)
  obtain parsed rejected where v: "validate_batch meta (sb_records b) = (parsed, rejected)"
    by (cases "validate_batch meta (sb_records b)")
  have ne: "\<not> (parsed = [] \<and> rejected \<noteq> [])"
  proof
    assume e: "parsed = [] \<and> rejected \<noteq> []"
    with validate_lengths [OF v] l v assms(1) have "all_failed r" by (auto simp: ingest_records_def all_failed_def)
    with assms(2) show False by simp
  qed
  obtain res store where x: "ie_write env meta (sync_stamp b (ie_now env)) parsed (iw_store w) = (res, store)"
    by (cases "ie_write env meta (sync_stamp b (ie_now env)) parsed (iw_store w)")
  show thesis
  proof (cases res)
    case (Inl e)
    with l v ne x assms(1) show thesis
      by (auto simp: ingest_records_def begin_run_def write_parsed_def Let_def sync_stamp_def split: option.splits)
  next
    case (Inr counts)
    with adopted_ingest_ok [OF l v ne] x assms(1) that [OF l v ne] show thesis by auto
  qed
qed


lemma apply_batch_ok:
  assumes "apply_preamble env (sb_provenance b) w = (None, w1)" "ye_run_lookup env = None"
    "map_of (iw_runs (yw_ingest w1)) (sb_run_id b) \<noteq> None"
    "ingest_records (ye_ingest env) (sync_params peer sch tbl b) (sb_records b) (yw_ingest w1) = (Some (Inr r), i)"
  shows "apply_batch env peer sch tbl b w =
    (Some (fst (finish_apply env peer sch tbl b (w1\<lparr>yw_ingest := i\<rparr>) r)), snd (finish_apply env peer sch tbl b (w1\<lparr>yw_ingest := i\<rparr>) r))"
  using assms by (auto simp: apply_batch_def split: prod.splits)

lemma apply_batch_acked_cases:
  assumes "apply_batch env peer sch tbl b w = (Some (Inr ack), w')"
  obtains w1 r i where
    "apply_preamble env (sb_provenance b) w = (None, w1)" "ye_run_lookup env = None"
    "map_of (iw_runs (yw_ingest w1)) (sb_run_id b) \<noteq> None"
    "ingest_records (ye_ingest env) (sync_params peer sch tbl b) (sb_records b) (yw_ingest w1) = (Some (Inr r), i)"
    "finish_apply env peer sch tbl b (w1\<lparr>yw_ingest := i\<rparr>) r = (Inr ack, w')" "\<not> all_failed r"
proof -
  from assms obtain w1 where p: "apply_preamble env (sb_provenance b) w = (None, w1)" "ye_run_lookup env = None"
      "map_of (iw_runs (yw_ingest w1)) (sb_run_id b) \<noteq> None"
    by (auto simp: apply_batch_def split: prod.splits option.splits if_splits)
  from assms p obtain r i where r:
      "ingest_records (ye_ingest env) (sync_params peer sch tbl b) (sb_records b) (yw_ingest w1) = (Some (Inr r), i)"
    by (auto simp: apply_batch_def split: prod.splits option.splits sum.splits)
  have f: "finish_apply env peer sch tbl b (w1\<lparr>yw_ingest := i\<rparr>) r = (Inr ack, w')"
    using assms apply_batch_ok [OF p r] by (metis option.inject prod.collapse prod.inject)
  moreover from f have "\<not> all_failed r" by (auto simp: finish_apply_def)
  ultimately show thesis using that p r by blast
qed

lemma finish_apply_store:
  "\<not> all_failed r \<Longrightarrow> finish_apply env peer sch tbl b w r = (a, w') \<Longrightarrow>
     iw_store (yw_ingest w') = iw_store (yw_ingest w) \<and> iw_runs (yw_ingest w') = iw_runs (yw_ingest w) \<and>
     yw_sources w' = yw_sources w \<and> yw_endpoints w' = yw_endpoints w \<and>
     (ye_ledger_insert env \<noteq> None \<longrightarrow> yw_ledger w' = yw_ledger w)"
  by (cases "ye_ledger_insert env") (auto simp: finish_apply_def Let_def split: if_splits)

lemma finish_apply_store_snd [simp]:
  "\<not> all_failed r \<Longrightarrow> iw_store (yw_ingest (snd (finish_apply env peer sch tbl b w r))) = iw_store (yw_ingest w)"
  using finish_apply_store [OF _ surjective_pairing] by blast

lemma finish_apply_lost:
  "\<not> all_failed r \<Longrightarrow> ye_ledger_insert env = Some e \<Longrightarrow>
     fst (finish_apply env peer sch tbl b w r) = Inl (Internal (''ledger insert: '' @ e))"
  by (simp add: finish_apply_def Let_def)

lemma finish_apply_kept:
  "\<not> all_failed r \<Longrightarrow> ye_ledger_insert env = None \<Longrightarrow>
     fst (finish_apply env peer sch tbl b w r) =
       Inr \<lparr>sy_batch_id = sb_batch_id b, sy_inserted = ir_inserted r, sy_updated = ir_updated r,
            sy_failed = ir_failed r, sy_duplicate = False\<rparr>"
  by (simp add: finish_apply_def Let_def)

lemma locate_now [simp]: "locate (env\<lparr>ie_now := t\<rparr>) p = locate env p"
  by (simp add: locate_def cong: sum.case_cong option.case_cong)

lemma locate_meta: "locate env p = Inr m \<Longrightarrow> ie_meta env (ip_schema p) (ip_table p) = Inr (Some m)"
  by (auto simp: locate_def split: sum.splits option.splits)

definition redelivered :: "'st sync_env \<Rightarrow> string \<Rightarrow> 'st sync_env" where
  \<comment> \<open>the same environment later, its ledger writable again\<close>
  "redelivered env now = env\<lparr>ye_ledger_insert := None, ye_ingest := (ye_ingest env)\<lparr>ie_now := now\<rparr>\<rparr>"

lemma apply_preamble_ledger_env [simp]:
  "apply_preamble (env\<lparr>ye_ledger_insert := x\<rparr>) pre w = apply_preamble env pre w"
  by (simp add: apply_preamble_def Let_def cong: prod.case_cong option.case_cong)

lemma apply_again:
  fixes env :: "'v row list sync_env"
  assumes wr: "ie_write (ye_ingest env) = write_records pr db gen live sch tbl"
    and lost: "ye_ledger_insert env = Some e"
    and acked: "apply_batch (env\<lparr>ye_ledger_insert := None\<rparr>) peer sch tbl b w = (Some (Inr ack), w1)"
    and meta: "ie_meta (ye_ingest env) sch tbl = Inr (Some meta)" "natural_key live (tm_conflict_cols meta)"
    and acc: "stamps_accepted db (staging_cols gen live) (sync_stamp b now)"
  obtains w2 ack2 w3 where
    "apply_batch env peer sch tbl b w = (Some (Inl (Internal (''ledger insert: '' @ e))), w2)"
    "yw_ledger w2 = yw_ledger w"
    "apply_batch (redelivered env now) peer sch tbl b w2 = (Some (Inr ack2), w3)"
    "sy_inserted ack2 = 0" "sy_updated ack2 = 0" "sy_failed ack2 = sy_failed ack" "\<not> sy_duplicate ack2"
    "iw_store (yw_ingest w3) = iw_store (yw_ingest w1)"
proof -
  let ?env0 = "env\<lparr>ye_ledger_insert := None\<rparr>" and ?env1 = "redelivered env now"
  let ?p = "sync_params peer sch tbl b"
  from acked obtain wp r i where pre: "apply_preamble env (sb_provenance b) w = (None, wp)" and rl: "ye_run_lookup env = None"
    and run: "map_of (iw_runs (yw_ingest wp)) (sb_run_id b) \<noteq> None"
    and ing: "ingest_records (ye_ingest env) ?p (sb_records b) (yw_ingest wp) = (Some (Inr r), i)"
    and fin: "finish_apply ?env0 peer sch tbl b (wp\<lparr>yw_ingest := i\<rparr>) r = (Inr ack, w1)" and ok: "\<not> all_failed r"
    by (rule apply_batch_acked_cases) auto
  from ing ok obtain m parsed rejected counts store where loc: "locate (ye_ingest env) ?p = Inr m"
    and val: "validate_batch m (sb_records b) = (parsed, rejected)" "\<not> (parsed = [] \<and> rejected \<noteq> [])"
    and wrote: "ie_write (ye_ingest env) m (sync_stamp b (ie_now (ye_ingest env))) parsed (iw_store (yw_ingest wp)) = (Inr counts, store)"
    and i: "i = (yw_ingest wp)\<lparr>iw_store := store\<rparr>" and r: "r = adopted_result sch tbl b rejected counts"
    by (rule adopted_ingest_cases)
  have m: "m = meta" using locate_meta [OF loc] meta(1) by simp
  define w2 where "w2 = snd (finish_apply env peer sch tbl b (wp\<lparr>yw_ingest := i\<rparr>) r)"
  have first: "apply_batch env peer sch tbl b w = (Some (Inl (Internal (''ledger insert: '' @ e))), w2)"
    using apply_batch_ok [OF pre rl run ing] finish_apply_lost [OF ok lost] by (simp add: w2_def)
  have w2: "iw_store (yw_ingest w2) = store" "iw_runs (yw_ingest w2) = iw_runs (yw_ingest wp)"
      "yw_sources w2 = yw_sources wp" "yw_endpoints w2 = yw_endpoints wp" "yw_ledger w2 = yw_ledger w"
    using finish_apply_store [OF ok surjective_pairing, of env peer sch tbl b "wp\<lparr>yw_ingest := i\<rparr>"] apply_preamble_ledger [OF pre]
    by (simp_all add: w2_def i lost)
  have pre2: "apply_preamble ?env1 (sb_provenance b) w2 = (None, w2)"
    using w2 by (intro preamble_again [OF pre]) (simp_all add: redelivered_def)
  have again: "ie_write (ye_ingest ?env1) meta (sync_stamp b (ie_now (ye_ingest ?env1))) parsed (iw_store (yw_ingest w2)) = (Inr (0, 0), store)"
    using rewrite_unchanged [OF wrote [unfolded wr m] meta(2) _ acc] by (simp add: redelivered_def wr w2(1) sync_stamp_def)
  let ?r2 = "adopted_result sch tbl b rejected (0, 0)"
  have ing2: "ingest_records (ye_ingest ?env1) ?p (sb_records b) (yw_ingest w2) = (Some (Inr ?r2), (yw_ingest w2)\<lparr>iw_store := store\<rparr>)"
    using loc val again by (intro adopted_ingest_ok [of _ _ _ _ _ meta parsed]) (simp_all add: m redelivered_def)
  define w3 where "w3 = snd (finish_apply ?env1 peer sch tbl b (w2\<lparr>yw_ingest := (yw_ingest w2)\<lparr>iw_store := store\<rparr>\<rparr>) ?r2)"
  have second: "apply_batch ?env1 peer sch tbl b w2 =
      (Some (Inr \<lparr>sy_batch_id = sb_batch_id b, sy_inserted = 0, sy_updated = 0, sy_failed = length rejected, sy_duplicate = False\<rparr>), w3)"
    using apply_batch_ok [OF pre2 _ _ ing2] run w2(2) rl
      finish_apply_kept [OF adopted_not_failed, of ?env1 peer sch tbl b "w2\<lparr>yw_ingest := (yw_ingest w2)\<lparr>iw_store := store\<rparr>\<rparr>" sch tbl b rejected "(0, 0)"]
    by (simp add: w3_def redelivered_def adopted_result_def)
  have "iw_store (yw_ingest w3) = store"
    by (simp add: w3_def)
  moreover have "iw_store (yw_ingest w1) = store" "sy_failed ack = length rejected"
    using finish_apply_store [OF ok fin] finish_apply_kept [OF ok, of ?env0 peer sch tbl b "wp\<lparr>yw_ingest := i\<rparr>"] fin
    by (auto simp: i r adopted_result_def)
  ultimately show thesis using that [OF first w2(5) second] by simp
qed


section \<open>Samples\<close>

definition sample_sync_env :: "string row list sync_env" where
  "sample_sync_env =
     \<lparr>ye_ingest = sample_ingest_env, ye_pool = Inr (), ye_lookup = None, ye_pk = (\<lambda>t j. Inr ''r9''),
      ye_run = (\<lambda>j. \<lparr>rr_endpoint = ''ep'', rr_args = j, rr_status = ''ok'', rr_submitted_by = None, rr_inserted = 0,
                    rr_updated = 0, rr_failed = 0, rr_error = None, rr_ended = True\<rparr>),
      ye_run_lookup = None, ye_ledger_insert = None\<rparr>"

definition sample_batch :: sync_body where
  "sample_batch =
     \<lparr>sb_batch_id = ''b1'', sb_source = ''s'', sb_source_endpoint = ''e'', sb_run_id = ''r9'',
      sb_provenance = \<lparr>pr_api_sources = [], pr_endpoints = [], pr_runs = [JObject []]\<rparr>, sb_records = mixed_records\<rparr>"

definition sample_sync_world :: "string row list sync_world" where
  "sample_sync_world = \<lparr>yw_ingest = sample_ingest_world, yw_sources = [], yw_endpoints = [], yw_ledger = []\<rparr>"

definition sample_sync_settings :: settings where
  "sample_sync_settings = from_env (\<lambda>_. None)"

definition sample_peer :: identity where
  "sample_peer = local_identity ''sync:p''"

abbreviation "sample_apply env w \<equiv> post_sync_apply env sample_sync_settings sample_peer ''x'' ''y'' sample_batch w"

lemma sample_apply_acked:
  obtains ack w1 where "sample_apply sample_sync_env sample_sync_world = (Some (Inr ack), w1)"
    "sy_inserted ack = 1" "sy_failed ack = 1"
proof -
  let ?r = "sample_apply sample_sync_env sample_sync_world"
  have "map_option (map_sum (\<lambda>_. ()) (\<lambda>a. (sy_inserted a, sy_failed a))) (fst ?r) = Some (Inr (1, 1))" by code_simp
  then obtain ack where "fst ?r = Some (Inr ack)" "sy_inserted ack = 1" "sy_failed ack = 1" by (auto simp: map_sum_Inr)
  then show thesis using that [of ack "snd ?r"] by (metis prod.collapse)
qed

lemma sample_peer_id: "require_sync_peer sample_sync_settings sample_peer = Inr ''p''"
  by code_simp

theorem acknowledged_batch_applies_once_witness:
  "\<exists>ack w1. sample_apply sample_sync_env sample_sync_world = (Some (Inr ack), w1) \<and> sy_inserted ack = 1 \<and>
     sample_apply sample_sync_env w1 = (Some (Inr (ack\<lparr>sy_failed := 0, sy_duplicate := True\<rparr>)), w1)"
proof -
  obtain ack w1 where a: "sample_apply sample_sync_env sample_sync_world = (Some (Inr ack), w1)" "sy_inserted ack = 1"
    by (rule sample_apply_acked)
  have "ye_pool sample_sync_env = Inr ()" "ye_lookup sample_sync_env = None" by (simp_all add: sample_sync_env_def)
  from acknowledged_batch_applies_once [OF a(1) this, of "''x''" "''y''" "[]"] a show ?thesis
    by (simp add: deliver_all_def is_denied_schema_def)
qed


text \<open>The acknowledgement of a redelivered batch forgets the rejections of the first one.\<close>

lemma duplicate_forgets_rejections:
  "\<exists>ack w1. sample_apply sample_sync_env sample_sync_world = (Some (Inr ack), w1) \<and> sy_failed ack = 1 \<and>
     (\<exists>ack2. sample_apply sample_sync_env w1 = (Some (Inr ack2), w1) \<and> sy_failed ack2 = 0)"
proof -
  obtain ack w1 where a: "sample_apply sample_sync_env sample_sync_world = (Some (Inr ack), w1)" "sy_failed ack = 1"
    by (rule sample_apply_acked)
  from acked_is_recorded [OF a(1)] sample_peer_id
  have "sample_apply sample_sync_env w1 = (Some (Inr (ack\<lparr>sy_failed := 0, sy_duplicate := True\<rparr>)), w1)"
    by (auto simp: post_sync_apply_def sample_sync_env_def)
  with a show ?thesis by (intro exI [of _ ack] exI [of _ w1]) simp
qed

text \<open>Without a sync credential, or on a protected schema, nothing changes.\<close>

lemma unauthorized_push_changes_nothing:
  "(\<nexists>peer. peer_from (sync_peer_labels (s_sync st)) (i_role ident) (i_sub ident) = Some peer) \<or> is_denied_schema sch \<Longrightarrow>
     snd (post_sync_apply env st ident sch tbl b w) = w"
  by (auto simp: post_sync_apply_def require_sync_peer_def split: option.splits sum.splits)

lemma ordinary_callers_cannot_push:
  "role \<noteq> ''sync_peer'' \<Longrightarrow> role \<noteq> ''local'' \<Longrightarrow> peer_from labels role sub = None"
  by (simp add: peer_from_def)

end
