(* ===== verification/Sync_Push.thy ===== *)
theory Sync_Push
  imports Sync_Inbox Llm_Route "HOL-Library.Multiset" "HOL-Library.Product_Lexorder"
begin

text \<open>
  The push helper (\<open>sync/push.rs\<close>): it pages through a local table behind a durable
  keyset cursor, splits each page by run, sends each grp as one batch to the
  target's inbox, and advances the cursor when the whole page is acknowledged.

  The local database (\<open>push_env\<close>) answers the \<open>n\<close>-th page query from the table as it is
  then; a watermark is a number of microseconds.  SHA-256, the text of a JSON value, the
  text of a time and the target (\<open>post\<close>) are arguments.
\<close>

section \<open>Identifiers, lineage and batch ids\<close>

definition valid_ident :: "string \<Rightarrow> bool" where
  "valid_ident s \<longleftrightarrow> s \<noteq> [] \<and> length s \<le> 63 \<and> list_all (\<lambda>c. is_ascii_alphanumeric c \<or> c = CHR ''_'') s"

definition strip_server_side_cols :: "json \<Rightarrow> json" where
  "strip_server_side_cols rec =
     (case rec of JObject kvs \<Rightarrow> JObject (filter (\<lambda>(k, v). k \<notin> set SERVER_STAMPED_COLS) kvs) | other \<Rightarrow> other)"

definition text_field :: "json \<Rightarrow> string \<Rightarrow> string option" where
  "text_field rec name = (case json_field rec name of JString s \<Rightarrow> Some s | _ \<Rightarrow> None)"

definition lineage_of :: "(string \<Rightarrow> string option) \<Rightarrow> json \<Rightarrow> (string \<times> string \<times> string) api_result" where
  "lineage_of parse_uuid rec =
     (let src = or_else (text_field rec ''source'') []; ep = or_else (text_field rec ''source_endpoint'') []
      in case Option.bind (text_field rec ''source_run_id'') parse_uuid of
           None \<Rightarrow> Inl (BadRequest ''row has no valid source_run_id'')
         | Some run \<Rightarrow>
             if src = [] \<or> ep = [] then Inl (BadRequest ''row missing source/source_endpoint'')
             else Inr (src, ep, run))"

definition le_bytes :: "nat \<Rightarrow> string" where
  "le_bytes n = map (\<lambda>i. char_of (n div 256 ^ i mod 256)) [0..<8]"

definition batch_digest_input :: "(json \<Rightarrow> string) \<Rightarrow> string \<Rightarrow> string \<Rightarrow> string \<Rightarrow> string \<Rightarrow> json list \<Rightarrow> string" where
  "batch_digest_input to_text peer sch tbl run grp =
     peer @ ''|'' @ sch @ ''.'' @ tbl @ ''|'' @ run @ ''|'' @ le_bytes (length grp) @
     concat (map (\<lambda>r. CHR 0x1E # to_text r) grp)"

definition deterministic_batch_id ::
  "(string \<Rightarrow> string) \<Rightarrow> (json \<Rightarrow> string) \<Rightarrow> string \<Rightarrow> string \<Rightarrow> string \<Rightarrow> string \<Rightarrow> json list \<Rightarrow> string" where
  "deterministic_batch_id sha256 to_text peer sch tbl run grp =
     take 16 (sha256 (batch_digest_input to_text peer sch tbl run grp))"

section \<open>Groups\<close>

fun text_less :: "string \<Rightarrow> string \<Rightarrow> bool" where
  "text_less s [] = False"
| "text_less [] (b # bs) = True"
| "text_less (a # as) (b # bs) = (code a < code b \<or> a = b \<and> text_less as bs)"

fun group_insert :: "string \<Rightarrow> json \<Rightarrow> (string \<times> json list) list \<Rightarrow> (string \<times> json list) list" where
  \<comment> \<open>an ordered map from runs to their rows\<close>
  "group_insert run rec [] = [(run, [rec])]"
| "group_insert run rec ((r, g) # gs) =
     (if r = run then (r, g @ [rec]) # gs
      else if text_less run r then (run, [rec]) # (r, g) # gs
      else (r, g) # group_insert run rec gs)"

fun group_rows :: "string \<Rightarrow> json list \<Rightarrow> (string \<times> json list) list \<Rightarrow> (string \<times> json list) list api_result" where
  "group_rows name [] gs = Inr gs"
| "group_rows name (rec # recs) gs =
     (case text_field rec ''source_run_id'' of
        None \<Rightarrow> Inl (BadRequest (name @ '' row missing string source_run_id; not syncable''))
      | Some run \<Rightarrow> group_rows name recs (group_insert run rec gs))"

section \<open>The local side\<close>

record src_row =
  sr_wm :: "int option"
  sr_ctid :: "nat \<times> nat"
  sr_json :: json

record cursor_row =
  cu_watermark :: "string option"
  cu_key :: "(nat \<times> nat) option"
  cu_rows_pushed :: int
  cu_result :: string

type_synonym cursor = "(int \<times> (nat \<times> nat) option) option"

record push_env =
  pe_pool :: "unit api_result"
  pe_wm_type :: "string option api_result"
  pe_rows :: "nat \<Rightarrow> src_row list api_result"
  pe_run :: "string \<Rightarrow> (json \<times> string) option api_result"
  pe_endpoint :: "string \<Rightarrow> (json \<times> string) option api_result"
  pe_source :: "string \<Rightarrow> json option api_result"
  pe_save :: "unit api_result"
  pe_parse_uuid :: "string \<Rightarrow> string option"
  pe_parse_time :: "string \<Rightarrow> int option"
  pe_time_text :: "int \<Rightarrow> string"
  pe_to_text :: "json \<Rightarrow> string"
  pe_sha256 :: "string \<Rightarrow> string"

definition row_key :: "src_row \<Rightarrow> bool \<times> int \<times> nat \<times> nat" where
  \<comment> \<open>\<open>ORDER BY wm ASC, ctid ASC\<close>: rows without a watermark come last\<close>
  "row_key r = (case sr_wm r of Some t \<Rightarrow> (False, t, sr_ctid r) | None \<Rightarrow> (True, 0, sr_ctid r))"

definition after :: "cursor \<Rightarrow> src_row \<Rightarrow> bool" where
  \<comment> \<open>the condition of the page query; a comparison with NULL does not hold\<close>
  "after cur r =
     (case cur of
        None \<Rightarrow> True
      | Some (w, k) \<Rightarrow>
          (case sr_wm r of
             None \<Rightarrow> False
           | Some t \<Rightarrow> w < t \<or> t = w \<and> (case k of Some k \<Rightarrow> k < sr_ctid r | None \<Rightarrow> False)))"

definition pending :: "cursor \<Rightarrow> src_row list \<Rightarrow> src_row list" where
  "pending cur rows = sort_key row_key (filter (after cur) rows)"

definition batch_limit :: "settings \<Rightarrow> int" where
  \<comment> \<open>the setting, read as a signed number\<close>
  "batch_limit st = (let n = sync_batch_rows (s_sync st) in if n < 2 ^ 63 then n else n - 2 ^ 64)"

definition select_page :: "push_env \<Rightarrow> settings \<Rightarrow> nat \<Rightarrow> cursor \<Rightarrow> src_row list api_result" where
  "select_page env st i cur =
     (case pe_rows env i of
        Inl e \<Rightarrow> Inl e
      | Inr rows \<Rightarrow>
          if batch_limit st < 0 then Inl (Internal ''db error: LIMIT must not be negative'')
          else Inr (take (nat (batch_limit st)) (pending cur rows)))"

definition build_preamble :: "push_env \<Rightarrow> string \<Rightarrow> preamble api_result" where
  "build_preamble env run =
     bind_res (pe_run env run) (\<lambda>rr.
       (case rr of
          None \<Rightarrow> Inr \<lparr>pr_api_sources = [], pr_endpoints = [], pr_runs = []\<rparr>
        | Some (j, ep) \<Rightarrow>
            bind_res (pe_endpoint env ep) (\<lambda>er.
              (case er of
                 None \<Rightarrow> Inr \<lparr>pr_api_sources = [], pr_endpoints = [], pr_runs = [j]\<rparr>
               | Some (je, src) \<Rightarrow>
                   bind_res (pe_source env src) (\<lambda>s.
                     Inr \<lparr>pr_api_sources = (case s of Some js \<Rightarrow> [js] | None \<Rightarrow> []), pr_endpoints = [je],
                          pr_runs = [j]\<rparr>)))))"

section \<open>Posting a batch\<close>

datatype post_reply = SendError string | HttpReply nat string "int option"

definition is_success :: "nat \<Rightarrow> bool" where
  "is_success status \<longleftrightarrow> 200 \<le> status \<and> status < 300"

definition backoff_ms :: "settings \<Rightarrow> nat \<Rightarrow> int" where
  "backoff_ms st attempt = min (sync_backoff_ms (s_sync st) * 2 ^ min (attempt - 1) 16) (2 ^ 64 - 1)"

definition max_attempts :: "settings \<Rightarrow> nat" where
  "max_attempts st = max (nat (sync_max_attempts (s_sync st))) 1"

fun post_attempts ::
  "(sync_body \<Rightarrow> 't \<Rightarrow> post_reply \<times> 't) \<Rightarrow> sync_body \<Rightarrow> nat \<Rightarrow> 't \<Rightarrow> (string + int) \<times> 't" where
  \<comment> \<open>\<open>n\<close> further attempts are allowed after this one\<close>
  "post_attempts post b n t =
     (case post b t of
        (HttpReply status reason failed, t1) \<Rightarrow>
          if is_success status then (Inr (or_else failed 0), t1)
          else (case n of
                  0 \<Rightarrow> (Inl (''target HTTP '' @ show_nat status @ '': '' @ take_chars 200 reason), t1)
                | Suc k \<Rightarrow> post_attempts post b k t1)
      | (SendError e, t1) \<Rightarrow>
          (case n of 0 \<Rightarrow> (Inl (''send error: '' @ e), t1) | Suc k \<Rightarrow> post_attempts post b k t1))"


section \<open>The drain\<close>

record 't push_world =
  pw_target :: 't
  pw_cursors :: "(string \<times> string \<times> string, cursor_row) hash_map"
  pw_acked :: "sync_body list"  \<comment> \<open>an observation: the batches acknowledged so far\<close>

record push_summary =
  ps_schema :: string
  ps_table :: string
  ps_batches :: nat
  ps_rows_pushed :: int
  ps_status :: string
  ps_last_error :: "string option"

record push_job =
  pj_schema :: string
  pj_table :: string
  pj_wm_col :: string

definition cursor_key :: "settings \<Rightarrow> push_job \<Rightarrow> string \<times> string \<times> string" where
  "cursor_key st job = (sync_target_url (s_sync st), pj_schema job, pj_table job)"

definition push_peer :: "settings \<Rightarrow> string" where
  "push_peer st = (if sync_peer_id (s_sync st) = [] then ''default'' else sync_peer_id (s_sync st))"

definition save_cursor ::
  "push_env \<Rightarrow> settings \<Rightarrow> push_job \<Rightarrow> cursor \<Rightarrow> int \<Rightarrow> string \<Rightarrow> 't push_world \<Rightarrow> unit api_result \<times> 't push_world" where
  "save_cursor env st job cur pushed result w =
     (case pe_save env of
        Inl e \<Rightarrow> (Inl e, w)
      | Inr _ \<Rightarrow>
          (Inr (), w\<lparr>pw_cursors := hm_insert (cursor_key st job)
             \<lparr>cu_watermark = map_option (pe_time_text env \<circ> fst) cur, cu_key = Option.bind cur snd,
              cu_rows_pushed = pushed, cu_result = result\<rparr> (pw_cursors w)\<rparr>))"

definition load_cursor :: "push_env \<Rightarrow> settings \<Rightarrow> push_job \<Rightarrow> 't push_world \<Rightarrow> cursor api_result" where
  "load_cursor env st job w =
     (case map_of (pw_cursors w) (cursor_key st job) of
        None \<Rightarrow> Inr None
      | Some row \<Rightarrow>
          (case cu_watermark row of
             None \<Rightarrow> Inr None
           | Some s \<Rightarrow>
               (case pe_parse_time env s of
                  Some t \<Rightarrow> Inr (Some (t, cu_key row))
                | None \<Rightarrow> Inl (Internal (''corrupt push_cursor watermark '' @ debug_str s)))))"

definition make_batch ::
  "push_env \<Rightarrow> settings \<Rightarrow> push_job \<Rightarrow> string \<Rightarrow> json list \<Rightarrow> sync_body api_result" where
  "make_batch env st job run grp =
     bind_res (lineage_of (pe_parse_uuid env) (hd grp)) (\<lambda>(src, ep, rid).
     bind_res (build_preamble env rid) (\<lambda>pre.
       (let clean = map strip_server_side_cols grp
        in Inr \<lparr>sb_batch_id = deterministic_batch_id (pe_sha256 env) (pe_to_text env) (push_peer st) (pj_schema job)
                              (pj_table job) run clean,
                sb_source = src, sb_source_endpoint = ep, sb_run_id = rid, sb_provenance = pre, sb_records = clean\<rparr>)))"

datatype sent = Stopped api_error | Undelivered string | Delivered

fun send_groups ::
  "push_env \<Rightarrow> settings \<Rightarrow> (sync_body \<Rightarrow> 't \<Rightarrow> post_reply \<times> 't) \<Rightarrow> push_job \<Rightarrow> (string \<times> json list) list \<Rightarrow>
     nat \<Rightarrow> int \<Rightarrow> 't push_world \<Rightarrow> sent \<times> nat \<times> int \<times> 't push_world" where
  \<comment> \<open>the counts are those of the batches and of the rows delivered so far\<close>
  "send_groups env st post job [] nb tot w = (Delivered, nb, tot, w)"
| "send_groups env st post job ((run, grp) # gs) nb tot w =
     (case make_batch env st job run grp of
        Inl e \<Rightarrow> (Stopped e, nb, tot, w)
      | Inr b \<Rightarrow>
          (case post_attempts post b (max_attempts st - 1) (pw_target w) of
             (Inl msg, t) \<Rightarrow> (Undelivered msg, nb, tot, w\<lparr>pw_target := t\<rparr>)
           | (Inr failed, t) \<Rightarrow>
               send_groups env st post job gs (nb + 1) (tot + int (length grp))
                 (w\<lparr>pw_target := t, pw_acked := pw_acked w @ [b]\<rparr>)))"

datatype push_end = Unfinished | Panicked | Returned "push_summary api_result"

definition summary :: "push_job \<Rightarrow> nat \<Rightarrow> int \<Rightarrow> string \<Rightarrow> string option \<Rightarrow> push_summary" where
  "summary job nb tot status err =
     \<lparr>ps_schema = pj_schema job, ps_table = pj_table job, ps_batches = nb, ps_rows_pushed = tot, ps_status = status,
      ps_last_error = err\<rparr>"

datatype page_end = Stop push_end | Next cursor nat int

definition finish_page ::
  "push_env \<Rightarrow> settings \<Rightarrow> push_job \<Rightarrow> cursor \<Rightarrow> cursor \<Rightarrow> sent \<times> nat \<times> int \<times> 't push_world \<Rightarrow> page_end \<times> 't push_world" where
  \<comment> \<open>from the old cursor to the new one, when the whole page is delivered\<close>
  "finish_page env st job cur cur1 out =
     (case out of
        (Stopped e, nb, tot, w) \<Rightarrow> (Stop (Returned (Inl e)), w)
      | (Undelivered msg, nb, tot, w) \<Rightarrow>
          (case save_cursor env st job cur tot (''failed: '' @ msg) w of
             (Inl e, w1) \<Rightarrow> (Stop (Returned (Inl e)), w1)
           | (Inr _, w1) \<Rightarrow> (Stop (Returned (Inr (summary job nb tot ''failed'' (Some msg)))), w1))
      | (Delivered, nb, tot, w) \<Rightarrow>
          (case save_cursor env st job cur1 tot ''ok'' w of
             (Inl e, w1) \<Rightarrow> (Stop (Returned (Inl e)), w1)
           | (Inr _, w1) \<Rightarrow> (Next cur1 nb tot, w1)))"

definition push_page ::
  "push_env \<Rightarrow> settings \<Rightarrow> (sync_body \<Rightarrow> 't \<Rightarrow> post_reply \<times> 't) \<Rightarrow> push_job \<Rightarrow> bool \<Rightarrow> cursor \<Rightarrow> nat \<Rightarrow> int \<Rightarrow>
     src_row list \<Rightarrow> 't push_world \<Rightarrow> page_end \<times> 't push_world" where
  \<comment> \<open>\<open>tz\<close>: the watermark column carries a time zone, so its values can be read\<close>
  "push_page env st post job tz cur nb tot rows w =
     (if rows = [] then (Stop (Returned (Inr (summary job nb tot ''ok'' None))), w)
      else
        (case (if tz then sr_wm (last rows) else None) of
           None \<Rightarrow> (Stop Panicked, w)
         | Some page_wm \<Rightarrow>
             (case group_rows (pj_schema job @ ''.'' @ pj_table job) (map sr_json rows) [] of
                Inl e \<Rightarrow> (Stop (Returned (Inl e)), w)
              | Inr groups \<Rightarrow>
                  finish_page env st job cur (Some (page_wm, Some (sr_ctid (last rows))))
                    (send_groups env st post job groups nb tot w))))"

fun push_loop ::
  "push_env \<Rightarrow> settings \<Rightarrow> (sync_body \<Rightarrow> 't \<Rightarrow> post_reply \<times> 't) \<Rightarrow> push_job \<Rightarrow> bool \<Rightarrow> nat \<Rightarrow> nat \<Rightarrow> cursor \<Rightarrow> nat \<Rightarrow> int \<Rightarrow>
     't push_world \<Rightarrow> push_end \<times> 't push_world" where
  \<comment> \<open>the fuel bounds the pages\<close>
  "push_loop env st post job tz 0 i cur nb tot w = (Unfinished, w)"
| "push_loop env st post job tz (Suc fuel) i cur nb tot w =
     (case select_page env st i cur of
        Inl e \<Rightarrow> (Returned (Inl e), w)
      | Inr rows \<Rightarrow>
          (case push_page env st post job tz cur nb tot rows w of
             (Stop e, w1) \<Rightarrow> (e, w1)
           | (Next cur1 nb1 tot1, w1) \<Rightarrow> push_loop env st post job tz fuel (i + 1) cur1 nb1 tot1 w1))"

definition run_push ::
  "push_env \<Rightarrow> settings \<Rightarrow> (sync_body \<Rightarrow> 't \<Rightarrow> post_reply \<times> 't) \<Rightarrow> push_job \<Rightarrow> nat \<Rightarrow> 't push_world \<Rightarrow> push_end \<times> 't push_world" where
  "run_push env st post job fuel w =
     (if sync_target_url (s_sync st) = [] then (Returned (Inl (BadRequest ''LUMID_SYNC_TARGET_URL not configured'')), w)
      else if \<not> valid_ident (pj_schema job) \<or> \<not> valid_ident (pj_table job) \<or> \<not> valid_ident (pj_wm_col job) then
        (Returned (Inl (BadRequest ''invalid schema/table/watermark identifier'')), w)
      else
        (let col = pj_schema job @ ''.'' @ pj_table job @ ''.'' @ pj_wm_col job
         in case bind_res (pe_pool env) (\<lambda>_. pe_wm_type env) of
              Inl e \<Rightarrow> (Returned (Inl e), w)
            | Inr None \<Rightarrow> (Returned (Inl (BadRequest (''watermark column '' @ col @ '' does not exist''))), w)
            | Inr (Some ty) \<Rightarrow>
                if ty \<noteq> ''timestamp with time zone'' \<and> ty \<noteq> ''timestamp without time zone'' then
                  (Returned (Inl (BadRequest (''watermark column '' @ col @ '' is `'' @ ty @ ''`, must be a timestamp''))), w)
                else
                  (case load_cursor env st job w of
                     Inl e \<Rightarrow> (Returned (Inl e), w)
                   | Inr cur \<Rightarrow> push_loop env st post job (ty = ''timestamp with time zone'') fuel 0 cur 0 0 w)))"

definition admin_push ::
  "push_env \<Rightarrow> settings \<Rightarrow> (sync_body \<Rightarrow> 't \<Rightarrow> post_reply \<times> 't) \<Rightarrow> identity \<Rightarrow> push_job \<Rightarrow> nat \<Rightarrow> 't push_world \<Rightarrow>
     push_end \<times> 't push_world" where
  "admin_push env st post ident job fuel w =
     (case require_admin ident of Inl e \<Rightarrow> (Returned (Inl e), w) | Inr _ \<Rightarrow> run_push env st post job fuel w)"


section \<open>Groups keep every row\<close>

definition rows_of :: "(string \<times> json list) list \<Rightarrow> json list" where
  "rows_of gs = concat (map snd gs)"

definition by_run :: "(string \<times> json list) list \<Rightarrow> bool" where
  "by_run gs \<longleftrightarrow> (\<forall>(run, g) \<in> set gs. g \<noteq> [] \<and> (\<forall>r \<in> set g. text_field r ''source_run_id'' = Some run))"

lemma group_insert_rows: "mset (rows_of (group_insert run rec gs)) = add_mset rec (mset (rows_of gs))"
  by (induction run rec gs rule: group_insert.induct) (auto simp: rows_of_def)

lemma group_insert_by_run:
  "by_run gs \<Longrightarrow> text_field rec ''source_run_id'' = Some run \<Longrightarrow> by_run (group_insert run rec gs)"
  by (induction run rec gs rule: group_insert.induct) (auto simp: by_run_def)

lemma group_rows_keep:
  "group_rows name recs gs = Inr gs' \<Longrightarrow> by_run gs \<Longrightarrow>
     mset (rows_of gs') = mset (rows_of gs) + mset recs \<and> by_run gs'"
proof (induction name recs gs rule: group_rows.induct)
  case (2 name rec recs gs)
  from "2.prems"(1) obtain run where run: "text_field rec ''source_run_id'' = Some run"
      "group_rows name recs (group_insert run rec gs) = Inr gs'" by (auto split: option.splits)
  from "2.IH" [OF run] group_insert_by_run [OF "2.prems"(2) run(1)] show ?case
    by (simp add: group_insert_rows)
qed simp

section \<open>Pages\<close>

definition dated :: "src_row list \<Rightarrow> bool" where
  \<comment> \<open>distinct tuples, each with a watermark\<close>
  "dated rows \<longleftrightarrow> distinct (map sr_ctid rows) \<and> list_all (\<lambda>r. sr_wm r \<noteq> None) rows"

lemma filter_above_nth:
  fixes f :: "'a \<Rightarrow> 'k :: linorder"
  assumes "sorted_wrt (<) (map f xs)" "0 < m" "m \<le> length xs"
  shows "filter (\<lambda>x. f (xs ! (m - 1)) < f x) xs = drop m xs"
proof -
  have lt: "f (xs ! i) < f (xs ! j)" if "i < j" "j < length xs" for i j
    using sorted_wrt_nth_less [OF assms(1), of i j] that by simp
  have "filter (\<lambda>x. f (xs ! (m - 1)) < f x) (take m xs) = []"
  proof -
    have "\<not> f (xs ! (m - 1)) < f x" if x: "x \<in> set (take m xs)" for x
    proof -
      from x obtain i where i: "i < m" "x = xs ! i" "i < length xs" by (auto simp: in_set_conv_nth)
      show ?thesis
      proof (cases "i = m - 1")
        case True
        with i show ?thesis by simp
      next
        case False
        with i(1) assms(2,3) have "f (xs ! i) < f (xs ! (m - 1))" by (intro lt) auto
        with i(2) show ?thesis by simp
      qed
    qed
    then show ?thesis by (auto simp: filter_empty_conv)
  qed
  moreover have "filter (\<lambda>x. f (xs ! (m - 1)) < f x) (drop m xs) = drop m xs"
  proof (rule filter_True, rule ballI)
    fix x assume "x \<in> set (drop m xs)"
    then obtain i where "i < length xs - m" "x = xs ! (m + i)" by (auto simp: in_set_conv_nth)
    then show "f (xs ! (m - 1)) < f x" using lt [of "m - 1" "m + i"] assms(2) by simp
  qed
  moreover have "xs = take m xs @ drop m xs" by simp
  ultimately show ?thesis by (metis append_Nil filter_append)
qed

lemma row_key_dated: "sr_wm r = Some t \<Longrightarrow> row_key r = (False, t, sr_ctid r)"
  by (simp add: row_key_def)

lemma pending_strict:
  assumes "dated rows"
  shows "sorted_wrt (<) (map row_key (pending cur rows))"
proof -
  have "inj_on row_key (set rows)"
  proof (rule inj_onI)
    fix a b assume ab: "a \<in> set rows" "b \<in> set rows" "row_key a = row_key b"
    then have "sr_ctid a = sr_ctid b" by (auto simp: row_key_def split: option.splits)
    with ab(1,2) assms show "a = b" by (auto simp: dated_def distinct_map inj_on_def)
  qed
  moreover have "distinct rows" using assms by (auto simp: dated_def distinct_map)
  ultimately have "distinct (map row_key (pending cur rows))"
    by (auto simp: pending_def distinct_map intro: inj_on_subset)
  then show ?thesis by (simp add: strict_sorted_iff pending_def)
qed

lemma set_pending: "set (pending cur rows) = {r \<in> set rows. after cur r}"
  by (auto simp: pending_def)

lemma pending_next:
  assumes "dated rows" "0 < n" "pending cur rows \<noteq> []"
  defines "pg \<equiv> take n (pending cur rows)"
  assumes wm: "sr_wm (last pg) = Some t"
  shows "pending (Some (t, Some (sr_ctid (last pg)))) rows = drop n (pending cur rows)"
proof -
  let ?S = "pending cur rows" and ?cur = "Some (t, Some (sr_ctid (last pg)))"
  define m where "m = min n (length ?S)"
  have m: "0 < m" "m \<le> length ?S" using assms(2,3) by (auto simp: m_def)
  have pg: "pg = take m ?S" by (simp add: pg_def m_def min_def)
  have last: "last pg = ?S ! (m - 1)" 
  proof -
    have "take m ?S \<noteq> []" using m by auto
    then show ?thesis using m by (simp add: pg last_conv_nth min_def)
  qed
  have key: "row_key (last pg) = (False, t, sr_ctid (last pg))" using wm by (rule row_key_dated)
  have above: "after ?cur r \<longleftrightarrow> row_key (last pg) < row_key r" if "r \<in> set rows" for r
    using that assms(1) by (auto simp: dated_def list_all_iff after_def key wm row_key_def split: option.splits)
  have older: "after cur r" if r: "r \<in> set rows" "after ?cur r" for r
  proof -
    have "last pg \<in> set ?S" using m by (simp add: last)
    then have "after cur (last pg)" by (simp add: set_pending)
    with r wm show ?thesis by (fastforce simp: after_def split: option.splits)
  qed
  have "filter (after ?cur) rows = filter (after ?cur) (filter (after cur) rows)"
    using older by (auto simp: intro!: filter_cong)
  then have "pending ?cur rows = filter (after ?cur) ?S"
    by (simp add: pending_def filter_sort)
  also have "\<dots> = filter (\<lambda>r. row_key (?S ! (m - 1)) < row_key r) ?S"
    using above by (intro filter_cong) (auto simp: set_pending last)
  also have "\<dots> = drop m ?S"
    by (rule filter_above_nth [OF pending_strict [OF assms(1)] m])
  also have "\<dots> = drop n ?S" by (simp add: m_def min_def)
  finally show ?thesis .
qed

section \<open>Sending\<close>

definition sent_records :: "sync_body list \<Rightarrow> json list" where
  "sent_records bs = concat (map sb_records bs)"

lemma sent_records_simps [simp]:
  "sent_records [] = []" "sent_records (b # bs) = sb_records b @ sent_records bs"
  "sent_records (bs @ cs) = sent_records bs @ sent_records cs"
  by (simp_all add: sent_records_def)

lemma make_batch_records:
  "make_batch env st job run grp = Inr b \<Longrightarrow> sb_records b = map strip_server_side_cols grp"
  by (auto simp: make_batch_def Let_def bind_res_Inr)

lemma send_groups_acks:
  "send_groups env st post job gs nb tot w = (r, nb1, tot1, w1) \<Longrightarrow>
     pw_cursors w1 = pw_cursors w \<and>
     (\<exists>acks. pw_acked w1 = pw_acked w @ acks \<and>
        (r = Delivered \<longrightarrow> sent_records acks = map strip_server_side_cols (rows_of gs) \<and>
           tot1 = tot + int (length (rows_of gs))))"
proof (induction env st post job gs nb tot w rule: send_groups.induct)
  case (1 env st post job nb tot w)
  then show ?case by (simp add: rows_of_def)
next
  case (2 env st post job run grp gs nb tot w)
  show ?case
  proof (cases "make_batch env st job run grp")
    case (Inl e)
    with "2.prems" show ?thesis by auto
  next
    case (Inr b)
    obtain res t where p: "post_attempts post b (max_attempts st - 1) (pw_target w) = (res, t)"
      by (cases "post_attempts post b (max_attempts st - 1) (pw_target w)")
    show ?thesis
    proof (cases res)
      case (Inl msg)
      with "2.prems" Inr p show ?thesis by auto
    next
      case (Inr failed)
      let ?w = "w\<lparr>pw_target := t, pw_acked := pw_acked w @ [b]\<rparr>"
      from "2.prems" \<open>make_batch env st job run grp = Inr b\<close> p Inr
      have "send_groups env st post job gs (nb + 1) (tot + int (length grp)) ?w = (r, nb1, tot1, w1)" by simp
      from "2.IH" [OF \<open>make_batch env st job run grp = Inr b\<close> p [symmetric] Inr this]
      obtain acks where "pw_acked w1 = pw_acked w @ b # acks" "pw_cursors w1 = pw_cursors w"
          "r = Delivered \<longrightarrow> sent_records acks = map strip_server_side_cols (rows_of gs) \<and>
             tot1 = tot + int (length grp) + int (length (rows_of gs))" by auto
      with make_batch_records [OF \<open>make_batch env st job run grp = Inr b\<close>] show ?thesis
        by (auto simp: rows_of_def intro!: exI [of _ "b # acks"])
    qed
  qed
qed


section \<open>The cursor covers only delivered rows\<close>

definition times_roundtrip :: "push_env \<Rightarrow> bool" where
  "times_roundtrip env \<longleftrightarrow> (\<forall>t. pe_parse_time env (pe_time_text env t) = Some t)"

lemma save_cursor_Inr:
  assumes "save_cursor env st job cur pushed res w = (Inr u, w1)" "times_roundtrip env"
  shows "load_cursor env st job w1 = Inr cur \<and> pw_acked w1 = pw_acked w \<and> pw_target w1 = pw_target w"
  using assms
  by (cases cur) (auto simp: save_cursor_def load_cursor_def times_roundtrip_def split: sum.splits)

lemma save_cursor_Inl: "save_cursor env st job cur pushed res w = (Inl e, w1) \<Longrightarrow> w1 = w"
  by (auto simp: save_cursor_def split: sum.splits)

lemma load_cursor_cong: "pw_cursors w1 = pw_cursors w \<Longrightarrow> load_cursor env st job w1 = load_cursor env st job w"
  by (simp add: load_cursor_def)

definition outgoing :: "src_row list \<Rightarrow> json multiset" where
  "outgoing rows = mset (map (\<lambda>r. strip_server_side_cols (sr_json r)) rows)"

lemma outgoing_append [simp]: "outgoing (a @ b) = outgoing a + outgoing b"
  by (simp add: outgoing_def)

lemma outgoing_Nil [simp]: "outgoing [] = {#}"
  by (simp add: outgoing_def)

lemma outgoing_groups:
  assumes "group_rows name (map sr_json pg) [] = Inr gs"
  shows "mset (map strip_server_side_cols (rows_of gs)) = outgoing pg \<and> by_run gs \<and> length (rows_of gs) = length pg"
proof -
  have "by_run []" by (simp add: by_run_def)
  from group_rows_keep [OF assms this] have m: "mset (rows_of gs) = mset (map sr_json pg)" "by_run gs"
    by (simp_all add: rows_of_def)
  then have "mset (map strip_server_side_cols (rows_of gs)) = image_mset strip_server_side_cols (mset (map sr_json pg))"
    by (metis mset_map)
  moreover have "length (rows_of gs) = length pg" using m(1) by (metis length_map mset_eq_length)
  ultimately show ?thesis using m(2) by (simp add: outgoing_def image_mset.compositionality comp_def)
qed

definition covered ::
  "push_env \<Rightarrow> settings \<Rightarrow> push_job \<Rightarrow> src_row list \<Rightarrow> cursor \<Rightarrow> 't push_world \<Rightarrow> 't push_world \<Rightarrow> bool" where
  \<comment> \<open>between the two worlds the cursor moved on over rows that were all acknowledged\<close>
  "covered env st job rows cur w w' \<longleftrightarrow>
     (\<exists>cur' n acks. load_cursor env st job w' = Inr cur' \<and> pw_acked w' = pw_acked w @ acks \<and>
        pending cur' rows = drop n (pending cur rows) \<and>
        outgoing (take n (pending cur rows)) \<subseteq># mset (sent_records acks))"

lemma covered_still:
  "load_cursor env st job w' = Inr cur \<Longrightarrow> pw_acked w' = pw_acked w @ acks \<Longrightarrow> covered env st job rows cur w w'"
  unfolding covered_def by (intro exI [of _ cur] exI [of _ 0] exI [of _ acks]) simp

lemma covered_trans:
  assumes "pw_acked w1 = pw_acked w @ acks" "outgoing (take n (pending cur rows)) \<subseteq># mset (sent_records acks)"
    "pending cur1 rows = drop n (pending cur rows)" "covered env st job rows cur1 w1 w'"
  shows "covered env st job rows cur w w'"
proof -
  from assms(4) obtain cur' k more where c: "load_cursor env st job w' = Inr cur'" "pw_acked w' = pw_acked w1 @ more"
      "pending cur' rows = drop k (pending cur1 rows)" "outgoing (take k (pending cur1 rows)) \<subseteq># mset (sent_records more)"
    unfolding covered_def by blast
  have "outgoing (take (n + k) (pending cur rows)) \<subseteq># mset (sent_records (acks @ more))"
    using assms(2,3) c(4) by (simp add: take_add subset_mset.add_mono)
  with c(1-3) assms(1,3) show ?thesis
    unfolding covered_def by (intro exI [of _ cur'] exI [of _ "n + k"] exI [of _ "acks @ more"]) (simp add: add.commute)
qed

lemma finish_page_cases:
  assumes "finish_page env st job cur cur1 (r, nb, tot, w) = (e, w')" "times_roundtrip env"
  shows "pw_acked w' = pw_acked w \<and>
    (case e of
       Stop x \<Rightarrow> load_cursor env st job w = Inr cur \<longrightarrow> load_cursor env st job w' = Inr cur
     | Next c nb' tot' \<Rightarrow> r = Delivered \<and> c = cur1 \<and> nb' = nb \<and> tot' = tot \<and> load_cursor env st job w' = Inr cur1)"
  using assms
  by (cases r) (auto simp: finish_page_def split: prod.splits sum.splits dest: save_cursor_Inr save_cursor_Inl)

lemma push_page_cases:
  assumes page: "push_page env st post job tz cur nb tot pg w = (e, w')" and times: "times_roundtrip env"
    and loaded: "load_cursor env st job w = Inr cur"
  obtains (stop) x acks where "e = Stop x" "load_cursor env st job w' = Inr cur" "pw_acked w' = pw_acked w @ acks"
  | (move) t nb1 tot1 acks where "e = Next (Some (t, Some (sr_ctid (last pg)))) nb1 tot1" "pg \<noteq> []" "sr_wm (last pg) = Some t"
      "load_cursor env st job w' = Inr (Some (t, Some (sr_ctid (last pg))))" "pw_acked w' = pw_acked w @ acks"
      "mset (sent_records acks) = outgoing pg" "tot1 = tot + int (length pg)"
proof (cases "pg = [] \<or> (if tz then sr_wm (last pg) else None) = None")
  case True
  then have "(\<exists>x. e = Stop x) \<and> w' = w" using page by (auto simp: push_page_def split: if_splits)
  with stop [where acks = "[]"] loaded show thesis by auto
next
  case False
  then obtain t where ne: "pg \<noteq> []" "sr_wm (last pg) = Some t" "(if tz then sr_wm (last pg) else None) = Some t"
    by (auto split: if_splits)
  show thesis
  proof (cases "group_rows (pj_schema job @ ''.'' @ pj_table job) (map sr_json pg) []")
    case (Inl x)
    then have "(\<exists>x. e = Stop x) \<and> w' = w" using page ne by (auto simp: push_page_def)
    with stop [where acks = "[]"] loaded show thesis by auto
  next
    case (Inr gs)
    obtain r nb1 tot1 w1 where snd: "send_groups env st post job gs nb tot w = (r, nb1, tot1, w1)"
      by (cases "send_groups env st post job gs nb tot w")
    from send_groups_acks [OF snd] obtain acks where acks: "pw_cursors w1 = pw_cursors w" "pw_acked w1 = pw_acked w @ acks"
        "r = Delivered \<longrightarrow> sent_records acks = map strip_server_side_cols (rows_of gs) \<and> tot1 = tot + int (length (rows_of gs))"
      by blast
    from page ne Inr snd
    have f: "finish_page env st job cur (Some (t, Some (sr_ctid (last pg)))) (r, nb1, tot1, w1) = (e, w')"
      by (simp add: push_page_def)
    note fin = finish_page_cases [OF f times]
    show thesis
    proof (cases e)
      case (Stop x)
      have "load_cursor env st job w1 = Inr cur" using loaded load_cursor_cong [OF acks(1)] by simp
      with fin Stop have "load_cursor env st job w' = Inr cur" "pw_acked w' = pw_acked w @ acks"
        using acks(2) by simp_all
      with Stop show thesis by (rule stop)
    next
      case (Next c nb' tot')
      with fin have n: "r = Delivered" "c = Some (t, Some (sr_ctid (last pg)))" "pw_acked w' = pw_acked w1"
          "load_cursor env st job w' = Inr (Some (t, Some (sr_ctid (last pg))))" "e = Next c nb1 tot1" by simp_all
      from n(1) acks(3) outgoing_groups [OF Inr]
      have "mset (sent_records acks) = outgoing pg" "tot1 = tot + int (length pg)" by simp_all
      with n acks(2) ne(1,2) show thesis by (intro move [of t nb1 tot1 acks]) simp_all
    qed
  qed
qed

lemma push_loop_covered:
  assumes static: "\<forall>i. pe_rows env i = Inr rows" and dated: "dated rows" and times: "times_roundtrip env"
  shows "push_loop env st post job tz fuel i cur nb tot w = (e, w') \<Longrightarrow> load_cursor env st job w = Inr cur \<Longrightarrow>
    covered env st job rows cur w w'"
proof (induction fuel arbitrary: i cur nb tot w)
  case 0
  then show ?case by (intro covered_still [where acks = "[]"]) auto
next
  case (Suc fuel)
  show ?case
  proof (cases "select_page env st i cur")
    case (Inl x)
    with Suc.prems show ?thesis by (intro covered_still [where acks = "[]"]) auto
  next
    case (Inr pg)
    then obtain lim where pg: "pg = take lim (pending cur rows)"
      using static by (auto simp: select_page_def split: if_splits)
    obtain q w1 where q: "push_page env st post job tz cur nb tot pg w = (q, w1)"
      by (cases "push_page env st post job tz cur nb tot pg w")
    from q times Suc.prems(2) show ?thesis
    proof (cases rule: push_page_cases)
      case (stop x acks)
      with Suc.prems(1) Inr q show ?thesis by (auto intro: covered_still)
    next
      case (move t nb1 tot1 acks)
      let ?cur1 = "Some (t, Some (sr_ctid (last pg)))"
      have "push_loop env st post job tz fuel (i + 1) ?cur1 nb1 tot1 w1 = (e, w')"
        using Suc.prems(1) Inr q move(1) by simp
      from Suc.IH [OF this move(4)] move(5,6) pending_next [OF dated, of lim cur t] move(2,3) show ?thesis
        by (intro covered_trans [of w1 w acks lim cur rows ?cur1]) (auto simp: pg)
    qed
  qed
qed


lemma run_push_covered:
  assumes "\<forall>i. pe_rows env i = Inr rows" "dated rows" "times_roundtrip env" "load_cursor env st job w = Inr cur"
    "admin_push env st post ident job fuel w = (e, w')"
  shows "covered env st job rows cur w w'"
proof -
  note still = covered_still [OF assms(4), where acks = "[]" and w = w, simplified]
  have "w' = w \<or> (\<exists>tz. push_loop env st post job tz fuel 0 cur 0 0 w = (e, w'))"
    using assms(4,5)
    by (auto simp: admin_push_def run_push_def Let_def split: sum.splits option.splits if_splits)
  then show ?thesis using still push_loop_covered [OF assms(1-3) _ assms(4)] by blast
qed

section \<open>The target records what it acknowledges\<close>

locale batch_sink =
  fixes post :: "sync_body \<Rightarrow> 't \<Rightarrow> post_reply \<times> 't" and recorded :: "'t \<Rightarrow> sync_body \<Rightarrow> bool"
  assumes acked_recorded: "post b t = (HttpReply s reason f, t') \<Longrightarrow> is_success s \<Longrightarrow> recorded t' b"
    and recorded_stays: "recorded t c \<Longrightarrow> post b t = (r, t') \<Longrightarrow> recorded t' c"
begin

lemma attempts_recorded:
  "post_attempts post b n t = (r, t') \<Longrightarrow> (recorded t c \<longrightarrow> recorded t' c) \<and> (\<forall>f. r = Inr f \<longrightarrow> recorded t' b)"
proof (induction n arbitrary: t)
  case 0
  obtain p t1 where p: "post b t = (p, t1)" by (cases "post b t")
  with 0 recorded_stays [OF _ p] acked_recorded show ?case by (cases p) (auto split: if_splits)
next
  case (Suc n)
  obtain p t1 where p: "post b t = (p, t1)" by (cases "post b t")
  show ?case
  proof (cases p)
    case (SendError e)
    with Suc p recorded_stays [OF _ p] show ?thesis by auto
  next
    case (HttpReply s reason f)
    show ?thesis
    proof (cases "is_success s")
      case True
      with Suc.prems p HttpReply recorded_stays [OF _ p] acked_recorded [of b t s reason f t1] show ?thesis by auto
    next
      case False
      with Suc p HttpReply recorded_stays [OF _ p] show ?thesis by auto
    qed
  qed
qed

definition all_recorded :: "'t push_world \<Rightarrow> bool" where
  "all_recorded w \<longleftrightarrow> (\<forall>b \<in> set (pw_acked w). recorded (pw_target w) b)"

lemma send_groups_recorded:
  "send_groups env st post job gs nb tot w = (r, nb1, tot1, w1) \<Longrightarrow> all_recorded w \<Longrightarrow> all_recorded w1"
proof (induction gs arbitrary: nb tot w)
  case (Cons g gs)
  obtain run grp where g: "g = (run, grp)" by (cases g)
  show ?case
  proof (cases "make_batch env st job run grp")
    case (Inl e)
    with Cons.prems g show ?thesis by auto
  next
    case (Inr b)
    obtain res t where p: "post_attempts post b (max_attempts st - 1) (pw_target w) = (res, t)"
      by (cases "post_attempts post b (max_attempts st - 1) (pw_target w)")
    note stays = attempts_recorded [OF p]
    show ?thesis
    proof (cases res)
      case (Inl msg)
      with Cons.prems g Inr p have "w1 = w\<lparr>pw_target := t\<rparr>" by auto
      with stays Cons.prems(2) show ?thesis by (auto simp: all_recorded_def)
    next
      case (Inr failed)
      let ?w = "w\<lparr>pw_target := t, pw_acked := pw_acked w @ [b]\<rparr>"
      have "send_groups env st post job gs (nb + 1) (tot + int (length grp)) ?w = (r, nb1, tot1, w1)"
        using Cons.prems(1) g \<open>make_batch env st job run grp = Inr b\<close> p Inr by simp
      moreover have "all_recorded ?w" using stays Inr Cons.prems(2) by (auto simp: all_recorded_def)
      ultimately show ?thesis by (rule Cons.IH)
    qed
  qed
qed simp

lemma save_cursor_recorded: "save_cursor env st job cur n res w = (r, w1) \<Longrightarrow> all_recorded w1 = all_recorded w"
  by (auto simp: save_cursor_def all_recorded_def split: sum.splits)

lemma push_page_recorded:
  assumes "push_page env st post job tz cur nb tot pg w = (q, w1)" "all_recorded w"
  shows "all_recorded w1"
proof (cases "\<exists>gs t. w1 \<noteq> w \<and> group_rows (pj_schema job @ ''.'' @ pj_table job) (map sr_json pg) [] = Inr gs \<and>
    (if tz then sr_wm (last pg) else None) = Some t \<and> pg \<noteq> []")
  case True
  then obtain gs t where gs: "group_rows (pj_schema job @ ''.'' @ pj_table job) (map sr_json pg) [] = Inr gs" "pg \<noteq> []"
      "(if tz then sr_wm (last pg) else None) = Some t" by blast
  obtain r nb1 tot1 w0 where s: "send_groups env st post job gs nb tot w = (r, nb1, tot1, w0)"
    by (cases "send_groups env st post job gs nb tot w")
  have "finish_page env st job cur (Some (t, Some (sr_ctid (last pg)))) (r, nb1, tot1, w0) = (q, w1)"
    using assms(1) gs s by (simp add: push_page_def)
  then have "all_recorded w1 = all_recorded w0"
    by (cases r) (auto simp: finish_page_def split: prod.splits sum.splits dest: save_cursor_recorded)
  with send_groups_recorded [OF s assms(2)] show ?thesis by simp
next
  case False
  with assms show ?thesis by (auto simp: push_page_def split: if_splits sum.splits option.splits)
qed

lemma push_loop_recorded:
  "push_loop env st post job tz fuel i cur nb tot w = (e, w') \<Longrightarrow> all_recorded w \<Longrightarrow> all_recorded w'"
proof (induction fuel arbitrary: i cur nb tot w)
  case (Suc fuel)
  show ?case
  proof (cases "select_page env st i cur")
    case (Inl x)
    with Suc.prems show ?thesis by auto
  next
    case (Inr pg)
    obtain q w1 where q: "push_page env st post job tz cur nb tot pg w = (q, w1)"
      by (cases "push_page env st post job tz cur nb tot pg w")
    from push_page_recorded [OF q Suc.prems(2)] Suc.prems(1) Inr q Suc.IH show ?thesis
      by (cases q) auto
  qed
qed simp

lemma admin_push_recorded:
  "admin_push env st post ident job fuel w = (e, w') \<Longrightarrow> all_recorded w \<Longrightarrow> all_recorded w'"
  by (auto simp: admin_push_def run_push_def Let_def split: sum.splits option.splits if_splits intro: push_loop_recorded)

end

definition inbox_post ::
  "'st sync_env \<Rightarrow> settings \<Rightarrow> identity \<Rightarrow> string \<Rightarrow> string \<Rightarrow> sync_body \<Rightarrow> 'st sync_world \<Rightarrow> post_reply \<times> 'st sync_world" where
  \<comment> \<open>the inbox as the producer sees it; a panic closes the connection\<close>
  "inbox_post env st ident sch tbl b w =
     (case post_sync_apply env st ident sch tbl b w of
        (None, w1) \<Rightarrow> (SendError ''connection closed'', w1)
      | (Some (Inl e), w1) \<Rightarrow> (HttpReply (status_of e) (display e) None, w1)
      | (Some (Inr ack), w1) \<Rightarrow> (HttpReply 200 [] (Some (int (sy_failed ack))), w1))"

definition in_ledger :: "settings \<Rightarrow> identity \<Rightarrow> 'st sync_world \<Rightarrow> sync_body \<Rightarrow> bool" where
  "in_ledger st ident w b \<longleftrightarrow>
     (case require_sync_peer st ident of
        Inl e \<Rightarrow> False
      | Inr peer \<Rightarrow> (\<exists>row. map_of (yw_ledger w) (peer, sb_batch_id b) = Some row))"

lemma error_is_no_success: "\<not> is_success (status_of e)"
  by (cases e) (simp_all add: is_success_def)

interpretation inbox_sink: batch_sink "inbox_post env st ident sch tbl" "in_ledger st ident" for env st ident sch tbl
proof
  show "in_ledger st ident t' b"
    if "inbox_post env st ident sch tbl b t = (HttpReply s reason f, t')" "is_success s" for b t s reason f t'
    using that
    by (auto simp: inbox_post_def in_ledger_def error_is_no_success split: prod.splits option.splits sum.splits
        dest!: acked_is_recorded)
  show "in_ledger st ident t' c"
    if "in_ledger st ident t c" "inbox_post env st ident sch tbl b t = (r, t')" for t c b r t'
  proof -
    let ?d = "\<lparr>dv_env = env, dv_identity = ident, dv_schema = sch, dv_table = tbl, dv_body = b\<rparr>"
    have "t' = snd (deliver st ?d t)"
      using that(2) by (auto simp: inbox_post_def deliver_def split: prod.splits option.splits sum.splits)
    with that(1) show ?thesis by (auto simp: in_ledger_def split: sum.splits intro: deliver_ledger)
  qed
qed



section \<open>A push against a willing target completes\<close>

definition syncable :: "push_env \<Rightarrow> json \<Rightarrow> bool" where
  \<comment> \<open>the row carries its lineage and the provenance tables can be read\<close>
  "syncable env rec \<longleftrightarrow>
     (case lineage_of (pe_parse_uuid env) rec of
        Inl e \<Rightarrow> False
      | Inr (src, ep, rid) \<Rightarrow> \<not> isl (build_preamble env rid))"

definition always_acks :: "(sync_body \<Rightarrow> 't \<Rightarrow> post_reply \<times> 't) \<Rightarrow> settings \<Rightarrow> bool" where
  \<comment> \<open>every batch is acknowledged within the allowed attempts\<close>
  "always_acks post st \<longleftrightarrow>
     (\<forall>b t. \<exists>failed t'. post_attempts post b (max_attempts st - 1) t = (Inr failed, t'))"

lemma syncable_run: "syncable env rec \<Longrightarrow> \<exists>run. text_field rec ''source_run_id'' = Some run"
  by (cases "text_field rec ''source_run_id''") (auto simp: syncable_def lineage_of_def Let_def)

lemma syncable_batch:
  assumes "syncable env (hd grp)"
  shows "\<exists>b. make_batch env st job run grp = Inr b"
proof -
  from assms obtain src ep rid pre where "lineage_of (pe_parse_uuid env) (hd grp) = Inr (src, ep, rid)"
      "build_preamble env rid = Inr pre"
    by (auto simp: syncable_def isl_def split: sum.splits) (metis sum.exhaust)
  then show ?thesis by (simp add: make_batch_def Let_def)
qed

lemma group_rows_ok: "list_all (syncable env) recs \<Longrightarrow> \<exists>gs'. group_rows name recs gs = Inr gs'"
proof (induction recs arbitrary: gs)
  case (Cons rec recs)
  then obtain run where "text_field rec ''source_run_id'' = Some run" using syncable_run by fastforce
  with Cons show ?case by simp
qed simp

lemma send_groups_ok:
  assumes "always_acks post st"
  shows "list_all (\<lambda>(run, g). syncable env (hd g)) gs \<Longrightarrow>
    \<exists>nb1 tot1 w1. send_groups env st post job gs nb tot w = (Delivered, nb1, tot1, w1)"
proof (induction gs arbitrary: nb tot w)
  case (Cons g gs)
  obtain run grp where g: "g = (run, grp)" by (cases g)
  with Cons.prems syncable_batch obtain b where b: "make_batch env st job run grp = Inr b" by fastforce
  from assms obtain f t' where "post_attempts post b (max_attempts st - 1) (pw_target w) = (Inr f, t')"
    unfolding always_acks_def by blast
  with b g Cons show ?case by simp
qed simp

lemma push_page_ok:
  assumes "always_acks post st" "times_roundtrip env" "pe_save env = Inr ()" "tz" "pg \<noteq> []" "sr_wm (last pg) = Some t"
    "list_all (syncable env \<circ> sr_json) pg" "load_cursor env st job w = Inr cur"
  obtains nb1 w1 acks where
    "push_page env st post job tz cur nb tot pg w =
       (Next (Some (t, Some (sr_ctid (last pg)))) nb1 (tot + int (length pg)), w1)"
    "load_cursor env st job w1 = Inr (Some (t, Some (sr_ctid (last pg))))" "pw_acked w1 = pw_acked w @ acks"
    "mset (sent_records acks) = outgoing pg"
proof -
  have "list_all (syncable env) (map sr_json pg)" using assms(7) by (simp add: list_all_iff)
  from group_rows_ok [OF this] obtain gs where gs:
      "group_rows (pj_schema job @ ''.'' @ pj_table job) (map sr_json pg) [] = Inr gs" by blast
  have "by_run []" by (simp add: by_run_def)
  from group_rows_keep [OF gs this] have m: "mset (rows_of gs) = mset (map sr_json pg)" "by_run gs"
    by (simp_all add: rows_of_def)
  have "syncable env (hd g)" if "(run, g) \<in> set gs" for run g
  proof -
    from that m(2) have "hd g \<in> set g" by (auto simp: by_run_def)
    with that have "hd g \<in># mset (rows_of gs)" by (auto simp: rows_of_def intro!: bexI [of _ "(run, g)"])
    with m(1) assms(7) show ?thesis by (auto simp: list_all_iff)
  qed
  then have "list_all (\<lambda>(run, g). syncable env (hd g)) gs" by (auto simp: list_all_iff)
  from send_groups_ok [OF assms(1) this] obtain nb1 tot1 w0 where
    snd: "send_groups env st post job gs nb tot w = (Delivered, nb1, tot1, w0)" by blast
  obtain w1 where save: "save_cursor env st job (Some (t, Some (sr_ctid (last pg)))) tot1 ''ok'' w0 = (Inr (), w1)"
    using assms(3) by (auto simp: save_cursor_def)
  have p: "push_page env st post job tz cur nb tot pg w = (Next (Some (t, Some (sr_ctid (last pg)))) nb1 tot1, w1)"
    using assms(4-6) gs snd save by (simp add: push_page_def finish_page_def)
  from p assms(2,8) show thesis
  proof (cases rule: push_page_cases)
    case (move t' nb' tot' acks)
    with p assms(6) show thesis by (intro that [of nb1 w1 acks]) simp_all
  qed simp
qed

lemma push_loop_completes:
  assumes env: "always_acks post st" "times_roundtrip env" "pe_save env = Inr ()" "0 < batch_limit st"
    and static: "\<forall>i. pe_rows env i = Inr rows" "dated rows" "list_all (syncable env \<circ> sr_json) rows"
  shows "length (pending cur rows) < fuel \<Longrightarrow> load_cursor env st job w = Inr cur \<Longrightarrow>
    \<exists>s w' cur' acks. push_loop env st post job True fuel i cur nb tot w = (Returned (Inr s), w') \<and>
      ps_status s = ''ok'' \<and> ps_rows_pushed s = tot + int (length (pending cur rows)) \<and>
      pw_acked w' = pw_acked w @ acks \<and> mset (sent_records acks) = outgoing (pending cur rows) \<and>
      load_cursor env st job w' = Inr cur' \<and> pending cur' rows = []"
proof (induction fuel arbitrary: i cur nb tot w)
  case (Suc fuel)
  define lim where "lim = nat (batch_limit st)"
  have lim: "0 < lim" using env(4) by (simp add: lim_def)
  define pg where "pg = take lim (pending cur rows)"
  have sel: "select_page env st i cur = Inr pg"
    using static(1) env(4) by (simp add: select_page_def pg_def lim_def)
  show ?case
  proof (cases "pending cur rows = []")
    case True
    with sel Suc.prems(2) show ?thesis
      by (intro exI [of _ "summary job nb tot ''ok'' None"] exI [of _ w] exI [of _ cur] exI [of _ "[]"])
        (simp add: pg_def push_page_def summary_def)
  next
    case False
    then have ne: "pg \<noteq> []" using lim by (simp add: pg_def)
    have sub: "set pg \<subseteq> set rows" by (auto simp: pg_def set_pending dest: in_set_takeD)
    with static(2) obtain t where t: "sr_wm (last pg) = Some t"
      using last_in_set [OF ne] by (auto simp: dated_def list_all_iff)
    have sync: "list_all (syncable env \<circ> sr_json) pg" using static(3) sub by (auto simp: list_all_iff)
    let ?cur1 = "Some (t, Some (sr_ctid (last pg)))"
    obtain nb1 w1 acks where pgok: "push_page env st post job True cur nb tot pg w = (Next ?cur1 nb1 (tot + int (length pg)), w1)"
        "load_cursor env st job w1 = Inr ?cur1" "pw_acked w1 = pw_acked w @ acks" "mset (sent_records acks) = outgoing pg"
      by (rule push_page_ok [OF env(1-3) TrueI ne t sync Suc.prems(2)])
    have next_: "pending ?cur1 rows = drop lim (pending cur rows)"
      using pending_next [OF static(2) lim False, of t] t by (simp add: pg_def)
    have "length (pending ?cur1 rows) < fuel" using Suc.prems(1) next_ lim False by (cases "pending cur rows") auto
    from Suc.IH [OF this pgok(2), of "i + 1" nb1 "tot + int (length pg)"]
    obtain s w' cur' more where r: "push_loop env st post job True fuel (i + 1) ?cur1 nb1 (tot + int (length pg)) w1 = (Returned (Inr s), w')"
        "ps_status s = ''ok''" "ps_rows_pushed s = tot + int (length pg) + int (length (pending ?cur1 rows))"
        "pw_acked w' = pw_acked w1 @ more" "mset (sent_records more) = outgoing (pending ?cur1 rows)"
        "load_cursor env st job w' = Inr cur'" "pending cur' rows = []" by blast
    have split: "pending cur rows = pg @ pending ?cur1 rows" unfolding next_ by (simp add: pg_def)
    have "push_loop env st post job True (Suc fuel) i cur nb tot w = (Returned (Inr s), w')"
      using sel pgok(1) r(1) by simp
    moreover have "ps_rows_pushed s = tot + int (length (pending cur rows))" using r(3) by (subst split) simp
    moreover have "mset (sent_records (acks @ more)) = outgoing (pending cur rows)"
      using pgok(4) r(5) by (subst split) simp
    ultimately show ?thesis using r(2,4,6,7) pgok(3)
      by (intro exI [of _ s] exI [of _ w'] exI [of _ cur'] exI [of _ "acks @ more"]) simp
  qed
qed simp

definition push_allowed :: "push_env \<Rightarrow> settings \<Rightarrow> push_job \<Rightarrow> identity \<Rightarrow> bool" where
  \<comment> \<open>an administrator, a configured target, clean identifiers and a watermark column that carries a time zone\<close>
  "push_allowed env st job ident \<longleftrightarrow>
     require_admin ident = Inr () \<and> sync_target_url (s_sync st) \<noteq> [] \<and> valid_ident (pj_schema job) \<and>
     valid_ident (pj_table job) \<and> valid_ident (pj_wm_col job) \<and> pe_pool env = Inr () \<and>
     pe_wm_type env = Inr (Some ''timestamp with time zone'') \<and> pe_save env = Inr () \<and> 0 < batch_limit st"

text \<open>C13: A push completes.  On a table that stays as it is, whose rows carry a watermark and their lineage, an allowed push
  to a target that acknowledges every batch within the allowed attempts returns after at most one page per row,
  with status ok and the number of rows behind the cursor; the records it had acknowledged are exactly those rows, each once, and no row is left behind the cursor.\<close>

theorem push_completes:
  assumes "push_allowed env st job ident" "always_acks post st" "times_roundtrip env"
    and "\<forall>i. pe_rows env i = Inr rows" "dated rows" "list_all (syncable env \<circ> sr_json) rows"
    and "load_cursor env st job w = Inr cur" "length (pending cur rows) < fuel"
  shows "\<exists>s w' cur' acks. admin_push env st post ident job fuel w = (Returned (Inr s), w') \<and>
    ps_status s = ''ok'' \<and> ps_rows_pushed s = int (length (pending cur rows)) \<and>
    pw_acked w' = pw_acked w @ acks \<and> mset (sent_records acks) = outgoing (pending cur rows) \<and>
    load_cursor env st job w' = Inr cur' \<and> pending cur' rows = []"
proof -
  have "admin_push env st post ident job fuel w = push_loop env st post job True fuel 0 cur 0 0 w"
    using assms(1,7) by (simp add: admin_push_def run_push_def push_allowed_def)
  have g: "pe_save env = Inr ()" "0 < batch_limit st" using assms(1) by (simp_all add: push_allowed_def)
  show ?thesis
    unfolding \<open>admin_push env st post ident job fuel w = push_loop env st post job True fuel 0 cur 0 0 w\<close>
    using push_loop_completes [OF assms(2,3) g assms(4-6,8,7), where tot = 0] by simp
qed


section \<open>Samples\<close>

definition tally :: "int \<Rightarrow> string" where
  "tally t = (if t < 0 then CHR ''-'' # replicate (nat (- t)) (CHR ''I'') else replicate (nat t) (CHR ''I''))"

definition untally :: "string \<Rightarrow> int option" where
  "untally s = Some (if s \<noteq> [] \<and> hd s = CHR ''-'' then - int (length (tl s)) else int (length s))"

definition sample_row :: "nat \<Rightarrow> string \<Rightarrow> src_row" where
  "sample_row i k =
     \<lparr>sr_wm = Some 5, sr_ctid = (0, i),
      sr_json = JObject [(''id'', JNumber (NInt (int i))), (''source'', JString ''s''), (''source_endpoint'', JString ''e''),
                         (''source_run_id'', JString ''r9''), (''k'', JString k), (''v'', JString ''1'')]\<rparr>"

definition sample_rows :: "src_row list" where
  "sample_rows = [sample_row 2 ''b'', sample_row 1 ''a'']"

definition push_sample :: "src_row list \<Rightarrow> push_env" where
  "push_sample rows =
     \<lparr>pe_pool = Inr (), pe_wm_type = Inr (Some ''timestamp with time zone''), pe_rows = (\<lambda>i. Inr rows),
      pe_run = (\<lambda>r. Inr (Some (JObject [], ''ep''))), pe_endpoint = (\<lambda>e. Inr None), pe_source = (\<lambda>s. Inr None),
      pe_save = Inr (), pe_parse_uuid = Some, pe_parse_time = untally, pe_time_text = tally,
      pe_to_text = (\<lambda>j. case text_field j ''k'' of Some k \<Rightarrow> k | None \<Rightarrow> []), pe_sha256 = rev\<rparr>"

definition sample_push_settings :: settings where
  "sample_push_settings =
     from_env (\<lambda>n. if n = ''LUMID_SYNC_TARGET_URL'' then Some ''http://hq'' else if n = ''LUMID_SYNC_BATCH_ROWS'' then Some ''1'' else None)"

definition sample_job :: push_job where
  "sample_job = \<lparr>pj_schema = ''x'', pj_table = ''y'', pj_wm_col = ''ingest_ts''\<rparr>"

definition start_push :: "'t \<Rightarrow> 't push_world" where
  "start_push t = \<lparr>pw_target = t, pw_cursors = [], pw_acked = []\<rparr>"

definition willing :: "sync_body \<Rightarrow> unit \<Rightarrow> post_reply \<times> unit" where
  "willing b t = (HttpReply 200 [] (Some 0), t)"

abbreviation "sample_admin \<equiv> local_identity ''ops''"

lemma sample_times: "times_roundtrip (push_sample rows)"
  by (auto simp: times_roundtrip_def push_sample_def tally_def untally_def hd_replicate)

lemma sample_dated: "dated sample_rows"
  by code_simp

lemma sample_start: "load_cursor env st job (start_push t) = Inr None"
  by (simp add: load_cursor_def start_push_def)

lemma willing_acks: "always_acks willing st"
  by (auto simp: always_acks_def willing_def is_success_def or_else_def post_attempts.simps(1) split: nat.splits)

lemma sample_allowed: "push_allowed (push_sample rows) sample_push_settings sample_job sample_admin"
proof -
  have "sync_target_url (s_sync sample_push_settings) \<noteq> []" "batch_limit sample_push_settings = 1"
    "valid_ident ''x''" "valid_ident ''y''" "valid_ident ''ingest_ts''" "require_admin sample_admin = Inr ()" by code_simp+
  then show ?thesis by (simp add: push_allowed_def push_sample_def sample_job_def)
qed

theorem push_completes_witness:
  "\<exists>s w'. admin_push (push_sample sample_rows) sample_push_settings willing sample_admin sample_job 3 (start_push ()) = (Returned (Inr s), w') \<and>
     ps_status s = ''ok'' \<and> ps_rows_pushed s = 2 \<and> mset (sent_records (pw_acked w')) = outgoing sample_rows"
proof -
  have static: "\<forall>i. pe_rows (push_sample sample_rows) i = Inr sample_rows" by (simp add: push_sample_def)
  have sync: "list_all (syncable (push_sample sample_rows) \<circ> sr_json) sample_rows" by code_simp
  have len: "length (pending None sample_rows) < 3" "length (pending None sample_rows) = 2"
    by (simp_all add: pending_def after_def sample_rows_def)
  have out: "outgoing (pending None sample_rows) = outgoing sample_rows"
    by (simp add: outgoing_def pending_def after_def)
  from push_completes [OF sample_allowed willing_acks sample_times static sample_dated sync sample_start len(1), of "()"] len(2) out
  show ?thesis by (auto simp: start_push_def)
qed

abbreviation "sample_inbox \<equiv> inbox_post sample_sync_env sample_sync_settings sample_peer ''x'' ''y''"


section \<open>What a push leaves behind\<close>

text \<open>A row committed late, with a watermark below the cursor, is never sent.\<close>

lemma late_row_is_never_pending:
  "sr_wm r = Some t \<Longrightarrow> t < w \<Longrightarrow> r \<notin> set (pending (Some (w, k)) rows)"
  by (simp add: set_pending after_def)

text \<open>A row without a watermark is skipped once the cursor is set; as the last row of a page it aborts the push.\<close>

lemma undated_row_is_skipped: "sr_wm r = None \<Longrightarrow> r \<notin> set (pending (Some (w, k)) rows)"
  by (simp add: set_pending after_def)

lemma undated_page_panics:
  "rows \<noteq> [] \<Longrightarrow> sr_wm (last rows) = None \<Longrightarrow> push_page env st post job tz cur nb tot rows w = (Stop Panicked, w)"
  by (simp add: push_page_def)

text \<open>A watermark column without a time zone passes the check of its type and then aborts the push on the first row.\<close>

lemma zoneless_watermark_panics:
  "rows \<noteq> [] \<Longrightarrow> push_page env st post job False cur nb tot rows w = (Stop Panicked, w)"
  by (simp add: push_page_def)

text \<open>A batch size of zero reports success and sends nothing.\<close>

lemma zero_batch_sends_nothing:
  assumes "sync_batch_rows (s_sync st) = 0" "pe_rows env i = Inr rows"
  shows "push_loop env st post job tz (Suc fuel) i cur nb tot w = (Returned (Inr (summary job nb tot ''ok'' None)), w)"
  using assms by (simp add: select_page_def batch_limit_def push_page_def)

text \<open>Waiting times stay within a word.\<close>

lemma backoff_bounded: "0 \<le> sync_backoff_ms (s_sync st) \<Longrightarrow> 0 \<le> backoff_ms st a \<and> backoff_ms st a < 2 ^ 64"
  by (simp add: backoff_ms_def min_def)

text \<open>
  Batches of one peer with different tables, runs or rows have different digest inputs: with a collision-free
  digest, a batch is never taken for an already applied one.
\<close>

lemma split_at:
  assumes "c \<notin> set a" "c \<notin> set a'" "a @ c # x = a' @ c # x'"
  shows "a = a' \<and> x = x'"
proof -
  have "takeWhile (\<lambda>d. d \<noteq> c) (a @ c # x) = a" "takeWhile (\<lambda>d. d \<noteq> c) (a' @ c # x') = a'"
    using assms(1,2) by (auto simp: takeWhile_append)
  with assms(3) show ?thesis by simp
qed

lemma records_inject:
  assumes "inj f" "\<forall>r. CHR 0x1E \<notin> set (f r)"
  shows "concat (map (\<lambda>r. CHR 0x1E # f r) xs) = concat (map (\<lambda>r. CHR 0x1E # f r) ys) \<Longrightarrow> xs = ys"
proof (induction xs arbitrary: ys)
  case Nil
  then show ?case by (cases ys) auto
next
  case (Cons x xs)
  then obtain y zs where ys: "ys = y # zs" by (cases ys) auto
  let ?rest = "\<lambda>zs. concat (map (\<lambda>r. CHR 0x1E # f r) zs)"
  have eq: "f x @ ?rest xs = f y @ ?rest zs" using Cons.prems ys by simp
  have head: "takeWhile (\<lambda>d. d \<noteq> CHR 0x1E) (f r @ ?rest us) = f r" for r us
    using assms(2) by (cases us) (auto simp: takeWhile_append)
  from eq have "f x = f y" using head by metis
  with eq assms(1) Cons.IH [of zs] ys show ?case by (auto dest: injD)
qed

lemma valid_ident_clean: "valid_ident s \<Longrightarrow> CHR ''.'' \<notin> set s \<and> CHR ''|'' \<notin> set s"
  by (auto simp: valid_ident_def list_all_iff is_ascii_alphanumeric_def is_ascii_alphabetic_def is_ascii_upper_def
      is_ascii_lower_def is_ascii_digit_def code_def)

lemma length_le_bytes [simp]: "length (le_bytes n) = 8"
  by (simp add: le_bytes_def)

lemma batch_id_separates:
  assumes "valid_ident sch" "valid_ident tbl" "valid_ident sch'" "valid_ident tbl'"
    and "CHR ''|'' \<notin> set run" "CHR ''|'' \<notin> set run'"
    and "inj to_text" "\<forall>r. CHR 0x1E \<notin> set (to_text r)"
    and "batch_digest_input to_text peer sch tbl run grp = batch_digest_input to_text peer sch' tbl' run' grp'"
  shows "sch = sch' \<and> tbl = tbl' \<and> run = run' \<and> grp = grp'"
proof -
  let ?tail = "\<lambda>g. le_bytes (length g) @ concat (map (\<lambda>r. CHR 0x1E # to_text r) g)"
  have "sch @ CHR ''.'' # tbl @ CHR ''|'' # run @ CHR ''|'' # ?tail grp =
      sch' @ CHR ''.'' # tbl' @ CHR ''|'' # run' @ CHR ''|'' # ?tail grp'"
    using assms(9) by (simp add: batch_digest_input_def)
  from split_at [OF _ _ this] valid_ident_clean assms(1,3)
  have 1: "sch = sch'" "tbl @ CHR ''|'' # run @ CHR ''|'' # ?tail grp = tbl' @ CHR ''|'' # run' @ CHR ''|'' # ?tail grp'" by blast+
  from split_at [OF _ _ 1(2)] valid_ident_clean assms(2,4)
  have 2: "tbl = tbl'" "run @ CHR ''|'' # ?tail grp = run' @ CHR ''|'' # ?tail grp'" by blast+
  from split_at [OF assms(5,6) 2(2)] have 3: "run = run'" "?tail grp = ?tail grp'" by blast+
  from 3(2) have "concat (map (\<lambda>r. CHR 0x1E # to_text r) grp) = concat (map (\<lambda>r. CHR 0x1E # to_text r) grp')"
    by (simp add: append_eq_append_conv)
  with records_inject [OF assms(7,8)] 1 2 3 show ?thesis by blast
qed

end
