(* ===== verification/Table_Plan.thy ===== *)
theory Table_Plan
  imports Ingest_Routes Read_Exec
begin

text \<open>
  Tables to be created (\<open>backend/mod.rs\<close>): identifiers, the types a proposal may
  name, and the \<open>CREATE TABLE\<close> text of the two engines (\<open>backend/postgres.rs\<close>,
  \<open>backend/clickhouse.rs\<close>); and the registry that knows which engine owns a table
  (\<open>backend/registry.rs\<close>).

  The order of the columns in a created table is that of the JSON object; no
  statement depends on it.
\<close>

section \<open>Identifiers\<close>

text \<open>
  Here the Unicode cases of \<open>trim\<close> and \<open>to_lowercase\<close> matter: the white space beyond
  ASCII, and the Kelvin sign, the one other character whose lower case is ASCII.
  Every other byte above 127 stays one, and is refused.
\<close>

definition bytes :: "nat list \<Rightarrow> string" where
  "bytes ns = map char_of ns"

definition WIDE_SPACES :: "string list" where
  "WIDE_SPACES = map bytes
     ([[0xC2, 0x85], [0xC2, 0xA0], [0xE1, 0x9A, 0x80], [0xE2, 0x80, 0xA8], [0xE2, 0x80, 0xA9], [0xE2, 0x80, 0xAF],
       [0xE2, 0x81, 0x9F], [0xE3, 0x80, 0x80]] @ map (\<lambda>n. [0xE2, 0x80, n]) [0x80..<0x8B])"

function drop_spaces :: "string list \<Rightarrow> string \<Rightarrow> string" where
  "drop_spaces wide s =
     (case s of
        [] \<Rightarrow> []
      | c # r \<Rightarrow>
          if is_whitespace c then drop_spaces wide r
          else if 2 \<le> length s \<and> take 2 s \<in> set wide then drop_spaces wide (drop 2 s)
          else if 3 \<le> length s \<and> take 3 s \<in> set wide then drop_spaces wide (drop 3 s)
          else s)"
  by pat_completeness auto
termination by (relation "measure (length \<circ> snd)") auto

declare drop_spaces.simps [simp del]

definition unicode_trim :: "string \<Rightarrow> string" where
  "unicode_trim s = rev (drop_spaces (map rev WIDE_SPACES) (rev (drop_spaces WIDE_SPACES s)))"

definition KELVIN :: string where "KELVIN = bytes [0xE2, 0x84, 0xAA]"

fun unicode_lower :: "string \<Rightarrow> string" where
  "unicode_lower (a # b # c # s) =
     (if [a, b, c] = KELVIN then CHR ''k'' # unicode_lower s else to_lower_byte a # unicode_lower (b # c # s))"
| "unicode_lower (a # s) = to_lower_byte a # unicode_lower s"
| "unicode_lower [] = []"

definition ident_char :: "char \<Rightarrow> bool" where
  "ident_char c \<longleftrightarrow> is_ascii_lower c \<or> is_ascii_digit c \<or> c = CHR ''_''"

definition clean_ident :: "string \<Rightarrow> bool" where
  "clean_ident l \<longleftrightarrow>
     l \<noteq> [] \<and> length l \<le> 63 \<and> (is_ascii_lower (hd l) \<or> hd l = CHR ''_'') \<and> list_all ident_char l"

definition norm_ident :: "string \<Rightarrow> string option" where
  "norm_ident s = (let l = unicode_lower (unicode_trim s) in if clean_ident l then Some l else None)"

subsection \<open>Clean identifiers\<close>

lemma norm_ident_clean: "norm_ident s = Some l \<Longrightarrow> clean_ident l"
  by (auto simp: norm_ident_def Let_def split: if_splits)

lemma code_of_byte: "n < 256 \<Longrightarrow> code (char_of n) = int n"
  unfolding code_def by (subst of_nat_of_char [symmetric]) simp

lemma ident_char_code: "ident_char c \<Longrightarrow> 48 \<le> code c \<and> code c \<le> 122"
  by (auto simp: ident_char_def is_ascii_lower_def is_ascii_digit_def code_def)

definition plain_char :: "char \<Rightarrow> bool" where
  "plain_char c \<longleftrightarrow> 32 < code c \<and> code c < 127"

lemma ident_char_plain: "ident_char c \<Longrightarrow> plain_char c"
  by (drule ident_char_code) (simp add: plain_char_def)

lemma wide_bytes: "w \<in> set WIDE_SPACES \<Longrightarrow> \<forall>c \<in> set w. 127 < code c"
  by (auto simp: WIDE_SPACES_def bytes_def code_of_byte)

lemma drop_spaces_plain:
  assumes "list_all plain_char s" and "\<forall>w \<in> set wide. \<forall>c \<in> set w. 127 < code c"
  shows "drop_spaces wide s = s"
proof (cases s)
  case (Cons c r)
  have "take n s \<notin> set wide" if "0 < n" for n
  proof
    assume "take n s \<in> set wide"
    with assms(2) Cons that have "127 < code c" by (cases n) auto
    with assms(1) Cons show False by (simp add: plain_char_def)
  qed
  then have "take 2 s \<notin> set wide" "take 3 s \<notin> set wide" by simp_all
  moreover have "\<not> is_whitespace c" using assms(1) Cons by (simp add: is_whitespace_def plain_char_def)
  ultimately show ?thesis by (subst drop_spaces.simps) (simp add: Cons)
qed (simp add: drop_spaces.simps)

lemma unicode_lower_plain: "list_all plain_char s \<Longrightarrow> unicode_lower s = map to_lower_byte s"
proof (induction s rule: unicode_lower.induct)
  case (1 a b c s)
  have "a \<noteq> char_of (0xE2 :: nat)" using 1(3) code_of_byte [of "0xE2"] by (auto simp: plain_char_def)
  then have "[a, b, c] \<noteq> KELVIN" by (simp add: KELVIN_def bytes_def)
  then show ?case using 1 by auto
qed auto

lemma norm_ident_plain:
  assumes "list_all plain_char s"
  shows "norm_ident s = (if clean_ident (map to_lower_byte s) then Some (map to_lower_byte s) else None)"
proof -
  have "list_all plain_char (rev s)" using assms by simp
  moreover have "\<forall>w \<in> set WIDE_SPACES. \<forall>c \<in> set w. 127 < code c" using wide_bytes by blast
  moreover from this have "\<forall>w \<in> set (map rev WIDE_SPACES). \<forall>c \<in> set w. 127 < code c" by auto
  ultimately have "unicode_trim s = s" using assms by (simp add: unicode_trim_def drop_spaces_plain)
  with assms show ?thesis by (simp add: norm_ident_def unicode_lower_plain Let_def)
qed

lemma lower_ident_char: "ident_char c \<Longrightarrow> to_lower_byte c = c"
  by (auto simp: ident_char_def to_lower_byte_def is_ascii_lower_def is_ascii_upper_def is_ascii_digit_def code_def)

lemma norm_ident_idem: "clean_ident l \<Longrightarrow> norm_ident l = Some l"
proof -
  assume l: "clean_ident l"
  then have a: "list_all ident_char l" by (simp add: clean_ident_def)
  then have "list_all plain_char l" by (auto simp: list_all_iff ident_char_plain)
  moreover have "map to_lower_byte l = l" using a by (simp add: list_all_iff lower_ident_char map_idI)
  ultimately show ?thesis using l by (simp add: norm_ident_plain)
qed

lemma norm_ident_again: "norm_ident s = Some l \<Longrightarrow> norm_ident l = Some l"
  by (intro norm_ident_idem norm_ident_clean)

section \<open>The plan of a table\<close>

definition ALLOWED_TYPES :: "string list" where
  "ALLOWED_TYPES = [''text'', ''bigint'', ''integer'', ''double precision'', ''numeric'', ''boolean'', ''jsonb'',
     ''timestamptz'', ''date'', ''uuid'']"

record create_plan =
  cp_schema :: string
  cp_table :: string
  cp_inferred :: "(string \<times> json) list"
  cp_key :: "string list"

record table_ddl =
  td_columns :: "(string \<times> string) list"
  td_key :: "string list"

definition type_text :: "json \<Rightarrow> string" where
  "type_text ty = (case ty of JString s \<Rightarrow> s | _ \<Rightarrow> ''text'')"

definition pg_type :: "json \<Rightarrow> string" where
  "pg_type ty = (if type_text ty \<in> set ALLOWED_TYPES then type_text ty else ''text'')"

definition pg_type_to_ch :: "string \<Rightarrow> string" where
  "pg_type_to_ch t =
     (if t = ''bigint'' then ''Int64'' else if t = ''double precision'' then ''Float64''
      else if t = ''boolean'' then ''Bool'' else ''String'')"

fun plan_columns :: "(json \<Rightarrow> string) \<Rightarrow> (string \<times> json) list \<Rightarrow> (string \<times> string) list api_result" where
  "plan_columns conv [] = Inr []"
| "plan_columns conv ((c, ty) # cs) =
     (case norm_ident c of
        None \<Rightarrow> Inl (BadRequest (''bad column '' @ debug_str c))
      | Some n \<Rightarrow> (case plan_columns conv cs of Inl e \<Rightarrow> Inl e | Inr r \<Rightarrow> Inr ((n, conv ty) # r)))"

definition plan_key :: "create_plan \<Rightarrow> string list" where
  "plan_key plan = filter (\<lambda>k. k \<in> fst ` set (cp_inferred plan)) (List.map_filter norm_ident (cp_key plan))"

definition plan_table :: "(json \<Rightarrow> string) \<Rightarrow> create_plan \<Rightarrow> (string \<times> string \<times> table_ddl) api_result" where
  "plan_table conv plan =
     (case norm_ident (cp_schema plan) of
        None \<Rightarrow> Inl (BadRequest ''bad schema'')
      | Some s \<Rightarrow>
          (case norm_ident (cp_table plan) of
             None \<Rightarrow> Inl (BadRequest ''bad table'')
           | Some t \<Rightarrow>
               (case plan_columns conv (cp_inferred plan) of
                  Inl e \<Rightarrow> Inl e
                | Inr cols \<Rightarrow> Inr (s, t, \<lparr>td_columns = cols, td_key = plan_key plan\<rparr>))))"

subsection \<open>The statements\<close>

definition nl :: string where "nl = [CHR 0x0A]"

definition in_quotes :: "char \<Rightarrow> string \<Rightarrow> string" where
  "in_quotes q s = [q] @ s @ [q]"

abbreviation "dquoted \<equiv> in_quotes (CHR 0x22)"
abbreviation "backticked \<equiv> in_quotes (CHR 0x60)"

definition pg_ddl :: "string \<Rightarrow> string \<Rightarrow> table_ddl \<Rightarrow> string" where
  "pg_ddl s t d =
     ''CREATE TABLE IF NOT EXISTS '' @ dquoted s @ ''.'' @ dquoted t @ '' ('' @ nl @
     (if td_key d = [] then ''  id bigint GENERATED ALWAYS AS IDENTITY PRIMARY KEY,'' @ nl else []) @
     ''  '' @ join ('','' @ nl @ ''  '') (map (\<lambda>(c, ty). dquoted c @ '' '' @ ty) (td_columns d)) @ '','' @ nl @
     ''source text NOT NULL,'' @ nl @ ''  source_endpoint text NOT NULL,'' @ nl @
     ''source_run_id uuid NOT NULL REFERENCES provenance.runs(run_id),'' @ nl @
     ''  ingest_ts timestamptz NOT NULL DEFAULT now(),'' @ nl @ ''  raw jsonb'' @
     (if td_key d = [] then []
      else '','' @ nl @ ''  PRIMARY KEY ('' @ join '', '' (map dquoted (td_key d @ [''source''])) @ '')'') @ nl @ '')''"

definition ch_ddl :: "string \<Rightarrow> string \<Rightarrow> table_ddl \<Rightarrow> string" where
  "ch_ddl s t d =
     ''CREATE TABLE IF NOT EXISTS '' @ backticked s @ ''.'' @ backticked t @ '' ('' @ nl @
     ''  '' @ join ('','' @ nl @ ''  '') (map (\<lambda>(c, ty). backticked c @ '' '' @ ty) (td_columns d)) @ '','' @ nl @
     backticked ''source'' @ '' String,'' @ nl @ ''  '' @ backticked ''source_endpoint'' @ '' String,'' @ nl @
     backticked ''source_run_id'' @ '' String,'' @ nl @ ''  '' @ backticked ''ingest_ts'' @ '' DateTime64(6),'' @ nl @
     ''  '' @ backticked ''raw'' @ '' String'' @ nl @ '')'' @ nl @ ''ENGINE = ReplacingMergeTree(ingest_ts)'' @ nl @
     ''ORDER BY ('' @ join '', '' (map backticked (td_key d) @ [''source'']) @ '')''"

definition build_create_table_ddl :: "create_plan \<Rightarrow> (string \<times> string \<times> string) api_result" where
  "build_create_table_ddl plan = map_sum id (\<lambda>(s, t, d). (s, t, pg_ddl s t d)) (plan_table pg_type plan)"

definition ch_build_create_table_ddl :: "create_plan \<Rightarrow> (string \<times> string \<times> string) api_result" where
  "ch_build_create_table_ddl plan =
     map_sum id (\<lambda>(s, t, d). (s, t, ch_ddl s t d)) (plan_table (pg_type_to_ch \<circ> type_text) plan)"

definition ch_create_table :: "(string \<Rightarrow> unit api_result) \<Rightarrow> create_plan \<Rightarrow> unit api_result" where
  \<comment> \<open>the function runs a statement, its errors being the code's\<close>
  "ch_create_table exec plan =
     (case ch_build_create_table_ddl plan of
        Inl e \<Rightarrow> Inl e
      | Inr (s, t, ddl) \<Rightarrow>
          bind_res (exec (''CREATE DATABASE IF NOT EXISTS '' @ backticked s)) (\<lambda>_. exec ddl))"

subsection \<open>No caller text reaches a statement\<close>

lemma plan_columns_clean:
  "plan_columns conv cs = Inr r \<Longrightarrow> (c, ty) \<in> set r \<Longrightarrow> clean_ident c \<and> (\<exists>j. ty = conv j)"
proof (induction cs arbitrary: r)
  case (Cons x cs)
  obtain a b where x: "x = (a, b)" by fastforce
  from Cons.prems(1) obtain n r' where n: "norm_ident a = Some n" "plan_columns conv cs = Inr r'" "r = (n, conv b) # r'"
    by (auto simp: x split: option.splits sum.splits)
  show ?case
  proof (cases "(c, ty) \<in> set r'")
    case True
    with Cons.IH n(2) show ?thesis by blast
  next
    case False
    with Cons.prems(2) n(3) have "c = n" "ty = conv b" by auto
    with norm_ident_clean [OF n(1)] show ?thesis by blast
  qed
qed simp

lemma plan_columns_names:
  "plan_columns conv cs = Inr r \<Longrightarrow> map Some (map fst r) = map (norm_ident \<circ> fst) cs"
  by (induction cs arbitrary: r) (auto split: option.splits sum.splits)

lemma plan_columns_ok:
  "(\<And>c. c \<in> fst ` set cs \<Longrightarrow> clean_ident c) \<Longrightarrow> plan_columns conv cs = Inr (map (\<lambda>(c, ty). (c, conv ty)) cs)"
  by (induction cs) (auto simp: norm_ident_idem)

lemma plan_key_clean: "k \<in> set (plan_key plan) \<Longrightarrow> clean_ident k \<and> k \<in> fst ` set (cp_inferred plan)"
  by (auto simp: plan_key_def map_filter_def norm_ident_clean)

lemma plan_table_Inr:
  "plan_table conv plan = Inr (s, t, d) \<longleftrightarrow>
     norm_ident (cp_schema plan) = Some s \<and> norm_ident (cp_table plan) = Some t \<and>
     (\<exists>cols. plan_columns conv (cp_inferred plan) = Inr cols \<and> d = \<lparr>td_columns = cols, td_key = plan_key plan\<rparr>)"
  by (auto simp: plan_table_def split: option.splits sum.splits)

definition injection_free :: "string list \<Rightarrow> string \<Rightarrow> string \<Rightarrow> table_ddl \<Rightarrow> bool" where
  \<comment> \<open>every part of a statement that varies is an identifier or one of the given types\<close>
  "injection_free types s t d \<longleftrightarrow>
     clean_ident s \<and> clean_ident t \<and> list_all (\<lambda>(c, ty). clean_ident c \<and> ty \<in> set types) (td_columns d) \<and>
     list_all (\<lambda>k. clean_ident k \<and> k \<in> fst ` set (td_columns d)) (td_key d)"

definition CH_TYPES :: "string list" where "CH_TYPES = [''Int64'', ''Float64'', ''Bool'', ''String'']"

lemma pg_type_allowed: "pg_type j \<in> set ALLOWED_TYPES"
  by (simp add: pg_type_def ALLOWED_TYPES_def)

lemma ch_type_allowed: "pg_type_to_ch t \<in> set CH_TYPES"
  by (simp add: pg_type_to_ch_def CH_TYPES_def)

lemma key_in_columns:
  assumes "plan_columns conv (cp_inferred plan) = Inr cols" and "k \<in> set (plan_key plan)"
  shows "k \<in> fst ` set cols"
proof -
  from plan_key_clean [OF assms(2)] have k: "norm_ident k = Some k" "k \<in> fst ` set (cp_inferred plan)"
    by (auto simp: norm_ident_idem)
  have "norm_ident k \<in> set (map (norm_ident \<circ> fst) (cp_inferred plan))" using k(2) by auto
  then have "Some k \<in> set (map Some (map fst cols))" using plan_columns_names [OF assms(1)] k(1) by metis
  then show ?thesis by auto
qed

lemma plan_injection_free:
  assumes "plan_table conv plan = Inr (s, t, d)" and types: "\<And>j. conv j \<in> set types"
  shows "injection_free types s t d"
proof -
  from assms(1) obtain cols where c: "norm_ident (cp_schema plan) = Some s" "norm_ident (cp_table plan) = Some t"
      "plan_columns conv (cp_inferred plan) = Inr cols" "d = \<lparr>td_columns = cols, td_key = plan_key plan\<rparr>"
    by (auto simp: plan_table_Inr)
  have "list_all (\<lambda>(c, ty). clean_ident c \<and> ty \<in> set types) cols"
    using plan_columns_clean [OF c(3)] types by (fastforce simp: list_all_iff)
  moreover have "list_all (\<lambda>k. clean_ident k \<and> k \<in> fst ` set cols) (plan_key plan)"
    using key_in_columns [OF c(3)] plan_key_clean by (simp add: list_all_iff)
  ultimately show ?thesis using c norm_ident_clean by (simp add: injection_free_def)
qed

lemma created_statements_are_injection_free:
  "(case build_create_table_ddl plan of
      Inl e \<Rightarrow> (\<exists>m. e = BadRequest m)
    | Inr (s, t, txt) \<Rightarrow> (\<exists>d. txt = pg_ddl s t d \<and> injection_free ALLOWED_TYPES s t d)) \<and>
   (case ch_build_create_table_ddl plan of
      Inl e \<Rightarrow> (\<exists>m. e = BadRequest m)
    | Inr (s, t, txt) \<Rightarrow> (\<exists>d. txt = ch_ddl s t d \<and> injection_free CH_TYPES s t d))"
proof -
  have bad: "plan_columns conv cs = Inl e \<Longrightarrow> \<exists>m. e = BadRequest m" for conv cs e
    by (induction cs) (auto split: option.splits sum.splits)
  then have bad_plan: "plan_table conv plan = Inl e \<Longrightarrow> \<exists>m. e = BadRequest m" for conv e
    by (auto simp: plan_table_def split: option.splits sum.splits)
  have shape: "(case map_sum id (\<lambda>(s, t, d). (s, t, f s t d)) (plan_table conv plan) of
      Inl e \<Rightarrow> (\<exists>m. e = BadRequest m)
    | Inr (s, t, txt) \<Rightarrow> (\<exists>d. txt = f s t d \<and> injection_free types s t d))"
    if "\<And>j. conv j \<in> set types" for conv types and f :: "string \<Rightarrow> string \<Rightarrow> table_ddl \<Rightarrow> string"
    using plan_injection_free [of conv plan _ _ _ types] that bad_plan [of conv]
    by (cases "plan_table conv plan") auto
  show ?thesis unfolding build_create_table_ddl_def ch_build_create_table_ddl_def
    by (intro conjI shape) (simp_all add: pg_type_allowed ch_type_allowed)
qed

section \<open>Which engine owns a table\<close>

definition backend_str :: "backend_kind \<Rightarrow> string" where
  "backend_str k = (case k of Postgres \<Rightarrow> ''postgres'' | ClickHouse \<Rightarrow> ''clickhouse'')"

definition from_str_or_pg :: "string \<Rightarrow> backend_kind" where
  "from_str_or_pg s = (if to_lowercase (trim s) = ''clickhouse'' then ClickHouse else Postgres)"

type_synonym backend_rows = "string \<times> string \<Rightarrow> string option"
type_synonym kind_cache = "string \<Rightarrow> backend_kind option"

definition reg_key :: "string \<Rightarrow> string \<Rightarrow> string" where
  "reg_key sch tbl = sch @ ''.'' @ tbl"

definition row_kind :: "string option \<Rightarrow> backend_kind" where
  "row_kind r = (case r of Some s \<Rightarrow> from_str_or_pg s | None \<Rightarrow> Postgres)"

definition note_backend_cached :: "string \<Rightarrow> string \<Rightarrow> backend_kind \<Rightarrow> kind_cache \<Rightarrow> kind_cache" where
  "note_backend_cached sch tbl k c = c(reg_key sch tbl \<mapsto> k)"

definition refresh_kinds :: "kind_cache \<Rightarrow> kind_cache" where
  "refresh_kinds c = Map.empty"

definition registry_resolve ::
  "(string \<times> string \<Rightarrow> string option api_result) \<Rightarrow> string \<Rightarrow> string \<Rightarrow> kind_cache \<Rightarrow> backend_kind api_result \<times> kind_cache" where
  \<comment> \<open>the function reads the row of \<open>provenance.table_backend\<close>\<close>
  "registry_resolve rd sch tbl c =
     (case c (reg_key sch tbl) of
        Some k \<Rightarrow> (Inr k, c)
      | None \<Rightarrow>
          (case rd (sch, tbl) of
             Inl e \<Rightarrow> (Inl e, c)
           | Inr row \<Rightarrow> (Inr (row_kind row), note_backend_cached sch tbl (row_kind row) c)))"

definition registry_get ::
  "bool \<Rightarrow> (string \<times> string \<Rightarrow> string option api_result) \<Rightarrow> string \<Rightarrow> string \<Rightarrow> kind_cache \<Rightarrow> backend_kind api_result \<times> kind_cache" where
  \<comment> \<open>the engine that is handed out; without a ClickHouse it is Postgres\<close>
  "registry_get clickhouse_configured rd sch tbl c =
     (case registry_resolve rd sch tbl c of
        (Inl e, c1) \<Rightarrow> (Inl e, c1)
      | (Inr ClickHouse, c1) \<Rightarrow> (Inr (if clickhouse_configured then ClickHouse else Postgres), c1)
      | (Inr Postgres, c1) \<Rightarrow> (Inr Postgres, c1))"

definition upsert_backend :: "string \<Rightarrow> string \<Rightarrow> string \<Rightarrow> backend_rows \<Rightarrow> backend_rows" where
  "upsert_backend sch tbl b rows = rows((sch, tbl) \<mapsto> b)"

definition record_backend ::
  "unit api_result \<Rightarrow> string \<Rightarrow> string \<Rightarrow> backend_kind \<Rightarrow> backend_rows \<times> kind_cache \<Rightarrow> unit api_result \<times> backend_rows \<times> kind_cache" where
  "record_backend db sch tbl k s =
     (case db of
        Inl e \<Rightarrow> (Inl e, s)
      | Inr _ \<Rightarrow> (Inr (), upsert_backend sch tbl (backend_str k) (fst s), note_backend_cached sch tbl k (snd s)))"

lemma kind_names: "from_str_or_pg ''postgres'' = Postgres" "from_str_or_pg ''clickhouse'' = ClickHouse"
  by code_simp+

lemma kind_roundtrip [simp]: "from_str_or_pg (backend_str k) = k"
  by (cases k) (simp_all add: backend_str_def kind_names)

definition dotless :: "string \<Rightarrow> bool" where "dotless s \<longleftrightarrow> CHR ''.'' \<notin> set s"

lemma reg_key_inj:
  "dotless s \<Longrightarrow> dotless s' \<Longrightarrow> reg_key s t = reg_key s' t' \<longleftrightarrow> s = s' \<and> t = t'"
  unfolding reg_key_def dotless_def
  by (auto simp: append_eq_append_conv2 append_eq_Cons_conv Cons_eq_append_conv)

definition coherent :: "backend_rows \<Rightarrow> kind_cache \<Rightarrow> bool" where
  \<comment> \<open>the cache says of every table with a plain schema name what its row says\<close>
  "coherent rows c \<longleftrightarrow> (\<forall>s t k. dotless s \<longrightarrow> c (reg_key s t) = Some k \<longrightarrow> k = row_kind (rows (s, t)))"

lemma coherent_note: "coherent rows c \<Longrightarrow> dotless s \<Longrightarrow>
   coherent (upsert_backend s t (backend_str k) rows) (note_backend_cached s t k c)"
  by (auto simp: coherent_def upsert_backend_def note_backend_cached_def row_kind_def reg_key_inj)

lemma coherent_fill: "coherent rows c \<Longrightarrow> dotless s \<Longrightarrow> coherent rows (note_backend_cached s t (row_kind (rows (s, t))) c)"
  by (auto simp: coherent_def note_backend_cached_def reg_key_inj)

lemma registry_operations_keep_coherence:
  assumes "coherent rows c" and "dotless s" and rd: "\<And>p. rd p = Inr (rows p) \<or> (\<exists>e. rd p = Inl e)"
  shows "coherent rows (snd (registry_get cfg rd s t c))" (is ?a)
    and "fst (registry_get cfg rd s t c) = Inr k \<Longrightarrow>
           k = (if cfg then row_kind (rows (s, t)) else Postgres)"
    and "coherent (fst (snd (record_backend db s t k (rows, c)))) (snd (snd (record_backend db s t k (rows, c))))"
    and "coherent rows (refresh_kinds c)"
    and "coherent rows (c(x := None))"
proof -
  show ?a
    using assms(1,2) rd [of "(s, t)"] coherent_fill [OF assms(1,2), of t]
    by (cases "row_kind (rows (s, t))") (auto simp: registry_get_def registry_resolve_def split: option.split sum.split backend_kind.split)
  show "k = (if cfg then row_kind (rows (s, t)) else Postgres)" if "fst (registry_get cfg rd s t c) = Inr k"
    using that assms(1,2) rd [of "(s, t)"]
    by (cases "row_kind (rows (s, t))")
      (auto simp: registry_get_def registry_resolve_def coherent_def split: option.splits sum.splits backend_kind.splits if_splits)
  show "coherent (fst (snd (record_backend db s t k (rows, c)))) (snd (snd (record_backend db s t k (rows, c))))"
    using assms(1,2) by (simp add: record_backend_def coherent_note split: sum.split)
  show "coherent rows (refresh_kinds c)" by (simp add: coherent_def refresh_kinds_def)
  show "coherent rows (c(x := None))" using assms(1) by (auto simp: coherent_def)
qed

lemma stale_resolution:
  \<comment> \<open>a resolution that read before a table was recorded and stores after it leaves the old kind in the
    cache, which has no expiry\<close>
  "let rows = (\<lambda>_. None);
       seen = row_kind (rows (''obs'', ''ticks''));
       (_, rows1, c1) = record_backend (Inr ()) ''obs'' ''ticks'' ClickHouse (rows, Map.empty);
       c2 = note_backend_cached ''obs'' ''ticks'' seen c1
   in fst (registry_get True (\<lambda>p. Inr (rows1 p)) ''obs'' ''ticks'' c2) = Inr Postgres \<and> \<not> coherent rows1 c2"
  by (simp add: record_backend_def upsert_backend_def registry_get_def registry_resolve_def note_backend_cached_def
      row_kind_def coherent_def dotless_def kind_names backend_str_def)

lemma dotted_tables_share_a_key: "reg_key ''a.b'' ''c'' = reg_key ''a'' ''b.c''"
  by (simp add: reg_key_def)

end
