(* ===== verification/Proposals.thy ===== *)
theory Proposals
  imports Table_Plan Config
begin

text \<open>
  Proposals for unknown tables (\<open>ingest/proposals.rs\<close>, \<open>ingest/schema_suggest.rs\<close>,
  the DDL of \<open>backend/postgres.rs\<close>, the handlers of \<open>handlers/ingest.rs\<close>): inference of
  columns and key from records, the negotiation, and the approval that creates
  the table, records its backend and grants the proposer's role.

  The database is the state \<open>proposal_world\<close>; whether a statement succeeds, the id of
  a new row, the ClickHouse engine and the answer of the LLM are arguments.
\<close>

section \<open>Inference\<close>

definition PROPOSAL_PROV :: "string list" where
  "PROPOSAL_PROV = [''source'', ''source_endpoint'', ''source_run_id'', ''ingest_ts'', ''raw'']"

definition SUGGEST_PROV :: "string list" where
  "SUGGEST_PROV = [''source'', ''source_endpoint'', ''source_run_id'', ''ingest_ts'', ''raw'', ''id'']"

fun is_json_composite :: "json \<Rightarrow> bool" where
  "is_json_composite (JArray xs) = True"
| "is_json_composite (JObject kvs) = True"
| "is_json_composite v = False"

fun is_json_string :: "json \<Rightarrow> bool" where
  "is_json_string (JString s) = True"
| "is_json_string v = False"

fun is_json_float :: "json \<Rightarrow> bool" where
  "is_json_float (JNumber (NFloat f)) = True"
| "is_json_float v = False"

fun is_json_int :: "json \<Rightarrow> bool" where
  "is_json_int (JNumber (NInt i)) = True"
| "is_json_int v = False"

fun is_json_bool :: "json \<Rightarrow> bool" where
  "is_json_bool (JBool b) = True"
| "is_json_bool v = False"

definition infer_type :: "json list \<Rightarrow> string" where
  "infer_type vs =
     (if list_ex is_json_composite vs then ''jsonb''
      else if list_ex is_json_string vs then ''text''
      else if list_ex is_json_float vs then ''double precision''
      else if list_ex is_json_int vs then ''bigint''
      else if list_ex is_json_bool vs then ''boolean''
      else ''text'')"

type_synonym columns = "(string \<times> json list) list"  \<comment> \<open>sorted by name\<close>

fun col_push :: "string \<Rightarrow> json \<Rightarrow> columns \<Rightarrow> columns" where
  "col_push c v [] = [(c, [v])]"
| "col_push c v ((d, vs) # cs) =
     (if c = d then (d, vs @ [v]) # cs else if c < d then (c, [v]) # (d, vs) # cs else (d, vs) # col_push c v cs)"

definition collect_entry :: "string list \<Rightarrow> string \<times> json \<Rightarrow> columns \<times> string list \<Rightarrow> columns \<times> string list" where
  "collect_entry prov kv acc =
     (case norm_ident (fst kv) of
        Some c \<Rightarrow> if c \<in> set prov then acc else (col_push c (snd kv) (fst acc), snd acc)
      | None \<Rightarrow> if fst kv \<in> set (snd acc) then acc else (fst acc, snd acc @ [fst kv]))"

definition collect_columns :: "string list \<Rightarrow> json list \<Rightarrow> columns \<times> string list" where
  \<comment> \<open>the union of the records' columns, and the keys that are no identifiers\<close>
  "collect_columns prov records =
     fold (\<lambda>rec acc. case rec of JObject kvs \<Rightarrow> fold (collect_entry prov) kvs acc | _ \<Rightarrow> acc) records ([], [])"

definition column_types :: "columns \<Rightarrow> (string \<times> json) list" where
  "column_types cs = map (\<lambda>(c, vs). (c, JString (infer_type vs))) cs"

definition identity_shaped :: "string \<Rightarrow> bool" where
  "identity_shaped c \<longleftrightarrow> c = ''id'' \<or> ends_with c ''_id'' \<or> c = ''key'' \<or> c = ''code''"

definition TIME_NAMES :: "string list" where
  "TIME_NAMES = [''ts_event_ns'', ''ts_event'', ''ts'', ''timestamp'', ''date'', ''time'']"

definition infer_natural_key :: "string list \<Rightarrow> string list" where
  "infer_natural_key names =
     (let entity = filter (\<lambda>c. identity_shaped (to_lowercase c)) names
      in if entity = [] then names
         else entity @ (case find (\<lambda>t. t \<in> set names) TIME_NAMES of Some t \<Rightarrow> [t] | None \<Rightarrow> []))"

definition suggest_backend :: "string list \<Rightarrow> backend_kind" where
  "suggest_backend key =
     (if list_ex (\<lambda>k. let l = to_lowercase k in starts_with l ''ts'' \<or> l \<in> {''timestamp'', ''date'', ''time''}) key
      then ClickHouse else Postgres)"

subsection \<open>The negotiation's own rules (\<open>schema_suggest\<close>)\<close>

definition SUGGEST_TIMES :: "string list" where
  "SUGGEST_TIMES = [''ts'', ''timestamp'', ''time'', ''date'', ''created_at'']"

definition rules_suggest ::
  "json list \<Rightarrow> (string \<times> json) list \<times> string list \<times> string list \<times> string option" where
  "rules_suggest records =
     (case collect_columns SUGGEST_PROV records of
        (cols, skipped) \<Rightarrow>
          (let names = map fst cols;
               shaped = filter (\<lambda>c. let l = to_lowercase c in ends_with l ''_id'' \<or> l = ''key'' \<or> l = ''code'') names;
               time = find (\<lambda>t. t \<in> set names) SUGGEST_TIMES
           in (column_types cols,
               (if shaped = [] then [] else shaped @ (case time of Some t \<Rightarrow> [t] | None \<Rightarrow> [])),
               skipped, time)))"

definition clamp_type :: "json \<Rightarrow> string" where
  "clamp_type ty =
     (let t = to_lowercase (trim (case ty of JString s \<Rightarrow> s | _ \<Rightarrow> ''text''))
      in if t \<in> set ALLOWED_TYPES then t else ''text'')"

fun validate_columns :: "(string \<times> json) list \<Rightarrow> (string \<times> json) list \<Rightarrow> (string \<times> json) list" where
  "validate_columns [] out = out"
| "validate_columns ((c, ty) # cs) out =
     (case norm_ident c of
        None \<Rightarrow> validate_columns cs out
      | Some cn \<Rightarrow>
          if cn \<in> set SUGGEST_PROV then validate_columns cs out
          else validate_columns cs (insert_key cn (JString (clamp_type ty)) out))"

definition validate_schema :: "json \<Rightarrow> string list \<Rightarrow> string + (string \<times> json) list \<times> string list" where
  "validate_schema columns key =
     (case columns of
        JObject obj \<Rightarrow>
          (let out = validate_columns obj []
           in if out = [] then Inl ''no usable columns after validation''
              else Inr (out, filter (\<lambda>k. k \<in> fst ` set out) (List.map_filter norm_ident key)))
      | _ \<Rightarrow> Inl ''columns must be an object {name: pgtype}'')"

fun strip_repeat :: "nat \<Rightarrow> string \<Rightarrow> string \<Rightarrow> string" where
  \<comment> \<open>\<open>trim_start_matches\<close> of a non-empty pattern; the number bounds the repetitions\<close>
  "strip_repeat 0 p s = s"
| "strip_repeat (Suc n) p s = (case strip_prefix p s of Some r \<Rightarrow> strip_repeat n p r | None \<Rightarrow> s)"

definition trim_start_matches :: "string \<Rightarrow> string \<Rightarrow> string" where
  "trim_start_matches p s = strip_repeat (length s) p s"

definition trim_end_matches :: "string \<Rightarrow> string \<Rightarrow> string" where
  "trim_end_matches p s = rev (trim_start_matches (rev p) (rev s))"

definition obj_get :: "string \<Rightarrow> json \<Rightarrow> json option" where
  "obj_get k v = (case v of JObject kvs \<Rightarrow> map_of kvs k | _ \<Rightarrow> None)"

definition json_head :: "json \<Rightarrow> json option" where
  "json_head v = (case v of JArray (x # xs) \<Rightarrow> Some x | _ \<Rightarrow> None)"

definition json_text :: "json \<Rightarrow> string option" where
  "json_text v = (case v of JString s \<Rightarrow> Some s | _ \<Rightarrow> None)"

definition reply_content :: "json \<Rightarrow> string option" where
  "reply_content v =
     Option.bind (obj_get ''choices'' v) (\<lambda>c. Option.bind (json_head c) (\<lambda>h.
     Option.bind (obj_get ''message'' h) (\<lambda>m. Option.bind (obj_get ''content'' m) json_text)))"

definition json_texts :: "json \<Rightarrow> string list" where
  "json_texts v = (case v of JArray xs \<Rightarrow> List.map_filter json_text xs | _ \<Rightarrow> [])"

definition llm_refine ::
  "settings \<Rightarrow> ((string \<times> json) list \<Rightarrow> string list \<Rightarrow> json list \<Rightarrow> json option) \<Rightarrow> (string \<Rightarrow> json option) \<Rightarrow>
     (string \<times> json) list \<Rightarrow> string list \<Rightarrow> json list \<Rightarrow> ((string \<times> json) list \<times> string list) option" where
  \<comment> \<open>the first function is the chat completion (\<open>None\<close> when it fails), the second reads JSON text\<close>
  "llm_refine st ask from_str columns key records =
     (if trim (llm_backend_url (s_llm st)) = [] then None
      else
        Option.bind (ask columns key (take 5 records)) (\<lambda>v.
        Option.bind (reply_content v) (\<lambda>content.
          (let c = trim (trim_end_matches ''```'' (trim_start_matches ''```'' (trim_start_matches ''```json'' (trim content))))
           in Option.bind (from_str c) (\<lambda>parsed.
              Option.bind (obj_get ''columns'' parsed) (\<lambda>cols.
                (case validate_schema cols (case obj_get ''key'' parsed of Some k \<Rightarrow> json_texts k | None \<Rightarrow> []) of
                   Inr r \<Rightarrow> Some r | Inl e \<Rightarrow> None)))))))"

section \<open>Proposals and the tables they make\<close>

record proposal =
  pr_schema :: string
  pr_table :: string
  pr_sub :: string
  pr_role :: string
  pr_columns :: json
  pr_key :: "string list"
  pr_sample :: "json list"
  pr_dropped :: nat
  pr_backend :: string
  pr_status :: string
  pr_rounds :: "json list"
  pr_applied :: "string option"
  pr_reviewer :: "string option"
  pr_notes :: "string option"
  pr_created :: int

type_synonym table_name = "string \<times> string"

record proposal_world =
  pw_props :: "(string, proposal) hash_map"
  pw_tables :: "table_name \<Rightarrow> table_ddl option"   \<comment> \<open>of Postgres\<close>
  pw_ch :: "table_name \<Rightarrow> table_ddl option"       \<comment> \<open>of ClickHouse\<close>
  pw_backends :: backend_rows
  pw_acl :: acl_map
  pw_acl_cache :: acl_cache
  pw_kinds :: kind_cache

datatype stmt = SConn | SInsert | SSelect | SProposer | SUpdate | SBegin | SSchema | STable | SBackend | SGrant | SStatus | SCommit

record proposal_env =
  pe_stmt :: "stmt \<Rightarrow> unit api_result"
  pe_new_id :: string
  pe_now :: int
  pe_refused :: string  \<comment> \<open>what Postgres says of a table it cannot create\<close>
  pe_ch :: "(string \<Rightarrow> unit api_result) option"  \<comment> \<open>runs a statement on the configured ClickHouse\<close>
  pe_settings :: settings
  pe_ask :: "(string \<times> json) list \<Rightarrow> string list \<Rightarrow> json list \<Rightarrow> json option"
  pe_from_str :: "string \<Rightarrow> json option"

definition update_proposal :: "string \<Rightarrow> (proposal \<Rightarrow> proposal) \<Rightarrow> proposal_world \<Rightarrow> proposal_world" where
  "update_proposal pid f w = w\<lparr>pw_props := map (\<lambda>(k, p). (k, if k = pid then f p else p)) (pw_props w)\<rparr>"

definition still_pending :: "string \<Rightarrow> proposal_world \<Rightarrow> proposal option" where
  "still_pending pid w = (case map_of (pw_props w) pid of Some p \<Rightarrow> if pr_status p = ''pending'' then Some p else None | None \<Rightarrow> None)"

definition string_array :: "string list \<Rightarrow> json" where
  "string_array xs = JArray (map JString xs)"

subsection \<open>Opening a proposal\<close>

definition round_of :: "string \<Rightarrow> string \<Rightarrow> string option \<Rightarrow> (string \<times> json) list \<Rightarrow> string list \<Rightarrow> json" where
  "round_of author kind reason cols key =
     JObject ([(''author'', JString author), (''kind'', JString kind)] @
       (case reason of Some r \<Rightarrow> [(''reason'', JString r)] | None \<Rightarrow> []) @
       [(''columns'', JObject cols), (''key'', string_array key)])"

definition fresh_proposal ::
  "int \<Rightarrow> string \<Rightarrow> string \<Rightarrow> string \<Rightarrow> string \<Rightarrow> json list \<Rightarrow> columns \<Rightarrow> string list \<Rightarrow> proposal" where
  "fresh_proposal at s t role sub records cols skipped =
     (let key = infer_natural_key (map fst cols)
      in \<lparr>pr_schema = s, pr_table = t, pr_sub = sub, pr_role = role, pr_columns = JObject (column_types cols), pr_key = key,
          pr_sample = take 5 records, pr_dropped = length skipped, pr_backend = backend_str (suggest_backend key),
          pr_status = ''pending'',
          pr_rounds = [round_of ''platform'' ''suggestion'' (Some ''rules-inferred'') (column_types cols) key],
          pr_applied = None, pr_reviewer = None, pr_notes = None, pr_created = at\<rparr>)"

definition proposed_json :: "string \<Rightarrow> proposal \<Rightarrow> string list \<Rightarrow> json" where
  "proposed_json pid p skipped =
     JObject [(''status'', JString ''proposed''), (''proposal_id'', JString pid),
              (''target'', JString (pr_schema p @ ''.'' @ pr_table p)), (''suggested_columns'', pr_columns p),
              (''suggested_key'', string_array (pr_key p)), (''skipped_keys'', string_array skipped),
              (''suggested_backend'', JString (pr_backend p)),
              (''note'', JString (''net-new table '' @ bytes [0xE2, 0x80, 0x94] @
                 '' negotiate the schema: GET /catalog/ingress/proposals/{id}, then approve / reject / counter '' @
                 ''(POST /ingress/proposals/{id}/{approve,reject,counter}).''))]"

definition create_proposal ::
  "proposal_env \<Rightarrow> string \<Rightarrow> string \<Rightarrow> string \<Rightarrow> string \<Rightarrow> json list \<Rightarrow> proposal_world \<Rightarrow> json api_result \<times> proposal_world" where
  \<comment> \<open>the new row's id is a generated UUID\<close>
  "create_proposal env sch tbl role sub records w =
     (case norm_ident sch of
        None \<Rightarrow> (Inl (BadRequest (''invalid schema '' @ debug_str sch)), w)
      | Some s \<Rightarrow>
          (case norm_ident tbl of
             None \<Rightarrow> (Inl (BadRequest (''invalid table '' @ debug_str tbl)), w)
           | Some t \<Rightarrow>
               (case collect_columns PROPOSAL_PROV records of
                  (cols, skipped) \<Rightarrow>
                    if cols = [] then (Inl (BadRequest ''no usable columns inferred from records''), w)
                    else
                      (case bind_res (pe_stmt env SConn) (\<lambda>_. pe_stmt env SInsert) of
                         Inl e \<Rightarrow> (Inl e, w)
                       | Inr _ \<Rightarrow>
                           (let p = fresh_proposal (pe_now env) s t role sub records cols skipped
                            in (Inr (proposed_json (pe_new_id env) p skipped),
                                w\<lparr>pw_props := (pe_new_id env, p) # pw_props w\<rparr>))))))"

subsection \<open>Countering and rejecting\<close>

definition is_proposer :: "proposal_env \<Rightarrow> string \<Rightarrow> string \<Rightarrow> proposal_world \<Rightarrow> bool api_result" where
  "is_proposer env pid sub w =
     bind_res (bind_res (pe_stmt env SConn) (\<lambda>_. pe_stmt env SProposer))
       (\<lambda>_. Inr (case map_of (pw_props w) pid of Some p \<Rightarrow> pr_sub p = sub | None \<Rightarrow> False))"

definition no_pending :: api_error where
  "no_pending = NotFound ''no pending proposal with that id''"

definition refined ::
  "proposal_env \<Rightarrow> (string \<times> json) list \<Rightarrow> string list \<Rightarrow> json list \<Rightarrow> (string \<times> json) list \<times> string list \<times> string" where
  "refined env bcols bkey hint =
     (case llm_refine (pe_settings env) (pe_ask env) (pe_from_str env) bcols bkey hint of
        Some (c, k) \<Rightarrow> (c, k, ''rules+ai'')
      | None \<Rightarrow> (bcols, bkey, ''rules''))"

definition counter ::
  "proposal_env \<Rightarrow> string \<Rightarrow> json \<Rightarrow> string list \<Rightarrow> json list \<Rightarrow> proposal_world \<Rightarrow> json api_result \<times> proposal_world" where
  "counter env pid columns key hint w =
     (case validate_schema columns key of
        Inl m \<Rightarrow> (Inl (BadRequest m), w)
      | Inr (bcols, bkey) \<Rightarrow>
          (case refined env bcols bkey hint of
             (cols, k, by_whom) \<Rightarrow>
               (case bind_res (pe_stmt env SConn) (\<lambda>_. pe_stmt env SUpdate) of
                  Inl e \<Rightarrow> (Inl e, w)
                | Inr _ \<Rightarrow>
                    (if still_pending pid w = None then (Inl no_pending, w)
                     else
                       (Inr (JObject [(''status'', JString ''countered''), (''proposal_id'', JString pid),
                                      (''refined_by'', JString by_whom), (''current_columns'', JObject cols),
                                      (''current_key'', string_array k),
                                      (''note'', JString (''schema updated '' @ bytes [0xE2, 0x80, 0x94] @
                                         '' approve to apply, or counter again.''))]),
                        update_proposal pid
                          (\<lambda>p. p\<lparr>pr_columns := JObject cols, pr_key := k,
                                 pr_rounds := pr_rounds p @ [round_of ''builder'' ''counter'' None bcols bkey,
                                   round_of ''platform'' ''suggestion'' (Some by_whom) cols k]\<rparr>) w)))))"

definition reject ::
  "proposal_env \<Rightarrow> string \<Rightarrow> string \<Rightarrow> string option \<Rightarrow> proposal_world \<Rightarrow> json api_result \<times> proposal_world" where
  "reject env pid reviewer notes w =
     (case bind_res (pe_stmt env SConn) (\<lambda>_. pe_stmt env SUpdate) of
        Inl e \<Rightarrow> (Inl e, w)
      | Inr _ \<Rightarrow>
          (if still_pending pid w = None then (Inl no_pending, w)
           else
             (Inr (JObject [(''status'', JString ''rejected''), (''proposal_id'', JString pid)]),
              update_proposal pid
                (\<lambda>p. p\<lparr>pr_status := ''rejected'', pr_reviewer := Some reviewer, pr_notes := notes\<rparr>) w)))"

subsection \<open>Approving\<close>

record approval =
  av_plan :: create_plan
  av_role :: string
  av_chosen :: backend_kind
  av_schema :: string
  av_table :: string
  av_ddl :: table_ddl

definition approval_for :: "proposal_env \<Rightarrow> backend_kind \<Rightarrow> proposal \<Rightarrow> approval api_result" where
  "approval_for env chosen p =
     (if chosen = ClickHouse \<and> pe_ch env = None then
        Inl (Unavailable (''ClickHouse backend is not configured on this deployment '' @
          ''(set LUMID_CLICKHOUSE_URL); cannot approve onto ClickHouse''))
      else
        (case pr_columns p of
           JObject obj \<Rightarrow>
             (let plan = \<lparr>cp_schema = pr_schema p, cp_table = pr_table p, cp_inferred = obj, cp_key = pr_key p\<rparr>
              in case plan_table pg_type plan of
                   Inl e \<Rightarrow> Inl e
                 | Inr (s, t, d) \<Rightarrow>
                     Inr \<lparr>av_plan = plan, av_role = pr_role p, av_chosen = chosen, av_schema = s, av_table = t, av_ddl = d\<rparr>)
         | _ \<Rightarrow> Inl (Internal ''bad inferred_schema'')))"

definition chosen_backend :: "backend_kind option \<Rightarrow> proposal \<Rightarrow> backend_kind" where
  "chosen_backend override p = (case override of Some k \<Rightarrow> k | None \<Rightarrow> from_str_or_pg (pr_backend p))"

definition approve_read ::
  "proposal_env \<Rightarrow> string \<Rightarrow> backend_kind option \<Rightarrow> proposal_world \<Rightarrow> approval api_result" where
  \<comment> \<open>what \<open>approve\<close> does before its transaction\<close>
  "approve_read env pid override w =
     bind_res (bind_res (pe_stmt env SConn) (\<lambda>_. pe_stmt env SSelect)) (\<lambda>_.
       (case still_pending pid w of
          None \<Rightarrow> Inl no_pending
        | Some p \<Rightarrow> approval_for env (chosen_backend override p) p))"

definition create_if_absent :: "table_name \<Rightarrow> table_ddl \<Rightarrow> (table_name \<Rightarrow> table_ddl option) \<Rightarrow> table_name \<Rightarrow> table_ddl option" where
  \<comment> \<open>\<open>CREATE TABLE IF NOT EXISTS\<close>\<close>
  "create_if_absent n d tables = (if tables n = None then tables(n \<mapsto> d) else tables)"

definition pg_accepts :: "table_ddl \<Rightarrow> bool" where
  \<comment> \<open>Postgres refuses a column or a key column that is named twice\<close>
  "pg_accepts d \<longleftrightarrow>
     distinct ((if td_key d = [] then [''id''] else []) @ map fst (td_columns d) @ PROPOSAL_PROV) \<and>
     distinct (td_key d @ [''source''])"

definition booked :: "approval \<Rightarrow> string \<Rightarrow> string \<Rightarrow> string \<Rightarrow> proposal_world \<Rightarrow> proposal_world" where
  "booked a backend pid reviewer w =
     update_proposal pid
       (\<lambda>p. p\<lparr>pr_status := ''applied'', pr_applied := Some (av_schema a @ ''.'' @ av_table a), pr_reviewer := Some reviewer\<rparr>)
       (w\<lparr>pw_backends := upsert_backend (av_schema a) (av_table a) backend (pw_backends w),
          pw_acl := hm_insert (av_role a, av_schema a, av_table a) True (pw_acl w)\<rparr>)"

definition record_backend_acl_status ::
  "proposal_env \<Rightarrow> approval \<Rightarrow> string \<Rightarrow> string \<Rightarrow> string \<Rightarrow> proposal_world \<Rightarrow> unit api_result \<times> proposal_world" where
  "record_backend_acl_status env a backend pid reviewer w =
     (case bind_res (pe_stmt env SBackend) (\<lambda>_. bind_res (pe_stmt env SGrant) (\<lambda>_. pe_stmt env SStatus)) of
        Inl e \<Rightarrow> (Inl e, w)
      | Inr _ \<Rightarrow> (Inr (), booked a backend pid reviewer w))"

definition applied_json :: "approval \<Rightarrow> json" where
  "applied_json a =
     JObject [(''status'', JString ''applied''), (''table'', JString (av_schema a @ ''.'' @ av_table a)),
              (''granted_role'', JString (av_role a)), (''backend'', JString (backend_str (av_chosen a)))]"

definition after_commit :: "approval \<Rightarrow> proposal_world \<Rightarrow> proposal_world" where
  "after_commit a w =
     w\<lparr>pw_kinds := note_backend_cached (av_schema a) (av_table a) (av_chosen a) (pw_kinds w),
       pw_acl_cache := acl_invalidate (pw_acl_cache w)\<rparr>"

definition book_and_commit ::
  "proposal_env \<Rightarrow> approval \<Rightarrow> string \<Rightarrow> string \<Rightarrow> proposal_world \<Rightarrow> proposal_world \<Rightarrow> json api_result \<times> proposal_world" where
  \<comment> \<open>the first world is the one a failed transaction falls back to\<close>
  "book_and_commit env a pid reviewer w0 w =
     (case record_backend_acl_status env a (backend_str (av_chosen a)) pid reviewer w of
        (Inl e, _) \<Rightarrow> (Inl e, w0)
      | (Inr _, w1) \<Rightarrow>
          (case pe_stmt env SCommit of
             Inl e \<Rightarrow> (Inl e, w0)
           | Inr _ \<Rightarrow> (Inr (applied_json a), after_commit a w1)))"

definition approve_apply ::
  "proposal_env \<Rightarrow> approval \<Rightarrow> string \<Rightarrow> string \<Rightarrow> proposal_world \<Rightarrow> json api_result run \<times> proposal_world" where
  "approve_apply env a pid reviewer w =
     (let n = (av_schema a, av_table a)
      in case av_chosen a of
           ClickHouse \<Rightarrow>
             (case pe_ch env of
                None \<Rightarrow> (None, w)
              | Some exec \<Rightarrow>
                  (case ch_create_table exec (av_plan a) of
                     Inl e \<Rightarrow> (Some (Inl e), w)
                   | Inr _ \<Rightarrow>
                       (let w1 = (case plan_table (pg_type_to_ch \<circ> type_text) (av_plan a) of
                                    Inl e \<Rightarrow> w
                                  | Inr (s, t, d) \<Rightarrow> w\<lparr>pw_ch := create_if_absent (s, t) d (pw_ch w)\<rparr>)
                        in case pe_stmt env SBegin of
                             Inl e \<Rightarrow> (Some (Inl e), w1)
                           | Inr _ \<Rightarrow> apfst Some (book_and_commit env a pid reviewer w1 w1))))
         | Postgres \<Rightarrow>
             (case bind_res (pe_stmt env SBegin) (\<lambda>_. bind_res (pe_stmt env SSchema) (\<lambda>_. pe_stmt env STable)) of
                Inl e \<Rightarrow> (Some (Inl e), w)
              | Inr _ \<Rightarrow>
                  (if pw_tables w n = None \<and> \<not> pg_accepts (av_ddl a) then
                     (Some (Inl (Internal (''create table: '' @ pe_refused env))), w)
                   else
                     apfst Some (book_and_commit env a pid reviewer w
                       (w\<lparr>pw_tables := create_if_absent n (av_ddl a) (pw_tables w)\<rparr>)))))"

definition approve ::
  "proposal_env \<Rightarrow> string \<Rightarrow> string \<Rightarrow> backend_kind option \<Rightarrow> proposal_world \<Rightarrow> json api_result run \<times> proposal_world" where
  "approve env pid reviewer override w =
     (case approve_read env pid override w of
        Inl e \<Rightarrow> (Some (Inl e), w)
      | Inr a \<Rightarrow> approve_apply env a pid reviewer w)"

subsection \<open>Listing and detail\<close>

definition opt_text :: "string option \<Rightarrow> json" where
  "opt_text x = (case x of Some s \<Rightarrow> JString s | None \<Rightarrow> JNull)"

definition get_detail :: "proposal_env \<Rightarrow> (int \<Rightarrow> string) \<Rightarrow> string \<Rightarrow> proposal_world \<Rightarrow> json api_result" where
  "get_detail env show_time pid w =
     bind_res (bind_res (pe_stmt env SConn) (\<lambda>_. pe_stmt env SSelect)) (\<lambda>_.
       (case map_of (pw_props w) pid of
          None \<Rightarrow> Inl (NotFound ''no such proposal'')
        | Some p \<Rightarrow>
            Inr (JObject [(''proposal_id'', JString pid), (''target'', JString (pr_schema p @ ''.'' @ pr_table p)),
                          (''proposer'', JString (pr_sub p)), (''proposer_role'', JString (pr_role p)),
                          (''current_columns'', pr_columns p), (''current_key'', string_array (pr_key p)),
                          (''status'', JString (pr_status p)), (''applied_table'', opt_text (pr_applied p)),
                          (''rounds'', JArray (pr_rounds p)), (''sample_records'', JArray (pr_sample p)),
                          (''created_at'', JString (show_time (pr_created p)))])))"

definition listed_json :: "string \<times> proposal \<Rightarrow> json" where
  "listed_json = (\<lambda>(pid, p).
     JObject [(''proposal_id'', JString pid), (''schema'', JString (pr_schema p)), (''table'', JString (pr_table p)),
              (''proposer_role'', JString (pr_role p)), (''inferred_schema'', pr_columns p),
              (''inferred_key'', string_array (pr_key p)), (''status'', JString (pr_status p)),
              (''applied_table'', opt_text (pr_applied p)), (''suggested_backend'', JString (pr_backend p))])"

definition list_page :: "string option \<Rightarrow> proposal_world \<Rightarrow> (string \<times> proposal) list" where
  "list_page status w =
     take 200 (sort_key (\<lambda>(pid, p). - pr_created p)
       (filter (\<lambda>(pid, p). case status of Some s \<Rightarrow> pr_status p = s | None \<Rightarrow> True) (pw_props w)))"

definition list_proposals :: "proposal_env \<Rightarrow> string option \<Rightarrow> proposal_world \<Rightarrow> json api_result" where
  "list_proposals env query w =
     (let status = Option.bind query (\<lambda>q. first_some (strip_prefix ''status='') (split_on (CHR ''&'') q))
      in bind_res (bind_res (pe_stmt env SConn) (\<lambda>_. pe_stmt env SSelect)) (\<lambda>_.
           (let rows = list_page status w
            in Inr (JObject [(''count'', JNumber (NInt (int (length rows)))), (''proposals'', JArray (map listed_json rows))]))))"

section \<open>The handlers\<close>

definition is_admin :: "identity \<Rightarrow> bool" where
  "is_admin ident \<longleftrightarrow> i_role ident = ''super_admin'' \<or> i_role ident = ''local''"

definition allow_proposer_or_admin :: "proposal_env \<Rightarrow> identity \<Rightarrow> string \<Rightarrow> proposal_world \<Rightarrow> unit api_result" where
  "allow_proposer_or_admin env ident pid w =
     (if is_admin ident then Inr ()
      else
        bind_res (is_proposer env pid (i_sub ident) w)
          (\<lambda>yes. if yes then Inr () else Inl (Forbidden ''not the proposer (or an admin) of this proposal'')))"

definition parse_override :: "string option \<Rightarrow> backend_kind option api_result" where
  "parse_override body =
     (case body of
        None \<Rightarrow> Inr None
      | Some s \<Rightarrow>
          (let want = to_lowercase (trim s)
           in if want = ''postgres'' then Inr (Some Postgres)
              else if want = ''clickhouse'' then Inr (Some ClickHouse)
              else Inl (BadRequest (''backend must be '' @ [CHR 0x27] @ ''postgres'' @ [CHR 0x27] @ '' or '' @ [CHR 0x27] @
                     ''clickhouse'' @ [CHR 0x27] @ '' (got '' @ debug_str s @ '')''))))"

definition admin_approval :: "proposal_env \<Rightarrow> identity \<Rightarrow> string \<Rightarrow> string option \<Rightarrow> proposal_world \<Rightarrow> approval api_result" where
  "admin_approval env ident pid body w =
     bind_res (require_admin ident) (\<lambda>_. bind_res (parse_override body) (\<lambda>k. approve_read env pid k w))"

definition builder_approval :: "proposal_env \<Rightarrow> identity \<Rightarrow> string \<Rightarrow> proposal_world \<Rightarrow> approval api_result" where
  "builder_approval env ident pid w =
     bind_res (allow_proposer_or_admin env ident pid w) (\<lambda>_. approve_read env pid None w)"

definition carry_out :: "proposal_env \<Rightarrow> approval api_result \<Rightarrow> string \<Rightarrow> identity \<Rightarrow> proposal_world \<Rightarrow> json api_result run \<times> proposal_world" where
  "carry_out env r pid ident w = (case r of Inl e \<Rightarrow> (Some (Inl e), w) | Inr a \<Rightarrow> approve_apply env a pid (i_sub ident) w)"

definition approve_proposal ::
  "proposal_env \<Rightarrow> identity \<Rightarrow> string \<Rightarrow> string option \<Rightarrow> proposal_world \<Rightarrow> json api_result run \<times> proposal_world" where
  "approve_proposal env ident pid body w = carry_out env (admin_approval env ident pid body w) pid ident w"

definition builder_approve_proposal ::
  "proposal_env \<Rightarrow> identity \<Rightarrow> string \<Rightarrow> proposal_world \<Rightarrow> json api_result run \<times> proposal_world" where
  "builder_approve_proposal env ident pid w = carry_out env (builder_approval env ident pid w) pid ident w"

definition reject_proposal :: "proposal_env \<Rightarrow> identity \<Rightarrow> string \<Rightarrow> proposal_world \<Rightarrow> json api_result \<times> proposal_world" where
  "reject_proposal env ident pid w =
     (case require_admin ident of Inl e \<Rightarrow> (Inl e, w) | Inr _ \<Rightarrow> reject env pid (i_sub ident) None w)"

definition builder_reject_proposal ::
  "proposal_env \<Rightarrow> identity \<Rightarrow> string \<Rightarrow> proposal_world \<Rightarrow> json api_result \<times> proposal_world" where
  "builder_reject_proposal env ident pid w =
     (case allow_proposer_or_admin env ident pid w of Inl e \<Rightarrow> (Inl e, w) | Inr _ \<Rightarrow> reject env pid (i_sub ident) None w)"

definition counter_proposal ::
  "proposal_env \<Rightarrow> identity \<Rightarrow> string \<Rightarrow> json \<Rightarrow> string list \<Rightarrow> json list \<Rightarrow> proposal_world \<Rightarrow> json api_result \<times> proposal_world" where
  "counter_proposal env ident pid columns key hint w =
     (case allow_proposer_or_admin env ident pid w of
        Inl e \<Rightarrow> (Inl e, w)
      | Inr _ \<Rightarrow> counter env pid columns key hint w)"

definition get_proposal :: "proposal_env \<Rightarrow> (int \<Rightarrow> string) \<Rightarrow> identity \<Rightarrow> string \<Rightarrow> proposal_world \<Rightarrow> json api_result" where
  "get_proposal env show_time ident pid w =
     bind_res (allow_proposer_or_admin env ident pid w) (\<lambda>_. get_detail env show_time pid w)"

section \<open>Shapes of proposals\<close>

definition well_shaped :: "json \<Rightarrow> string list \<Rightarrow> bool" where
  \<comment> \<open>distinct clean names, none of them stamped, with allowed types; the key among them\<close>
  "well_shaped columns key \<longleftrightarrow>
     (case columns of
        JObject cols \<Rightarrow>
          cols \<noteq> [] \<and> distinct (map fst cols) \<and>
          list_all (\<lambda>(c, ty). clean_ident c \<and> c \<notin> set PROPOSAL_PROV \<and> (\<exists>t \<in> set ALLOWED_TYPES. ty = JString t)) cols \<and>
          set key \<subseteq> fst ` set cols
      | _ \<Rightarrow> False)"

subsection \<open>Inferred shapes\<close>

definition good_columns :: "columns \<Rightarrow> bool" where
  "good_columns cs \<longleftrightarrow> distinct (map fst cs) \<and> list_all (\<lambda>(c, vs). clean_ident c \<and> c \<notin> set PROPOSAL_PROV) cs"

lemma col_push_names: "fst ` set (col_push c v cs) = insert c (fst ` set cs)"
  by (induction c v cs rule: col_push.induct) auto

lemma col_push_sorted:
  "sorted_wrt (<) (map fst cs) \<Longrightarrow> sorted_wrt (<) (map fst (col_push c v cs))"
proof (induction c v cs rule: col_push.induct)
  case (2 c v d vs cs)
  have "\<forall>e \<in> fst ` set (col_push c v cs). d < e" if "c \<noteq> d" "\<not> c < d"
    using 2(2) that by (auto simp: col_push_names)
  with 2 show ?case by (auto simp: image_iff)
qed simp

lemma collect_entry_inv:
  assumes "sorted_wrt (<) (map fst (fst acc))" and "list_all (\<lambda>(c, vs). clean_ident c \<and> c \<notin> set prov) (fst acc)"
  shows "sorted_wrt (<) (map fst (fst (collect_entry prov kv acc))) \<and>
         list_all (\<lambda>(c, vs). clean_ident c \<and> c \<notin> set prov) (fst (collect_entry prov kv acc))"
proof (cases "norm_ident (fst kv)")
  case None
  with assms show ?thesis by (simp add: collect_entry_def)
next
  case (Some c)
  have "list_all (\<lambda>(e, vs). clean_ident e \<and> e \<notin> set prov) (col_push c v (fst acc))" if "c \<notin> set prov" for v
  proof -
    have "clean_ident e \<and> e \<notin> set prov" if "e \<in> fst ` set (col_push c v (fst acc))" for e
      using that \<open>c \<notin> set prov\<close> assms(2) norm_ident_clean [OF Some] by (auto simp: col_push_names list_all_iff)
    then show ?thesis by (simp add: list_all_iff case_prod_beta)
  qed
  with assms show ?thesis by (simp add: collect_entry_def Some col_push_sorted)
qed

lemma collect_columns_inv:
  "sorted_wrt (<) (map fst (fst (collect_columns prov records))) \<and>
   list_all (\<lambda>(c, vs). clean_ident c \<and> c \<notin> set prov) (fst (collect_columns prov records))"
proof -
  let ?I = "\<lambda>acc. sorted_wrt (<) (map fst (fst acc)) \<and> list_all (\<lambda>(c, vs). clean_ident c \<and> c \<notin> set prov) (fst acc)"
  have entries: "?I acc \<Longrightarrow> ?I (fold (collect_entry prov) kvs acc)" for kvs and acc :: "columns \<times> string list"
    by (induction kvs arbitrary: acc) (simp_all add: collect_entry_inv del: sorted_wrt_map)
  have "?I acc \<Longrightarrow> ?I (fold (\<lambda>rec acc. case rec of JObject kvs \<Rightarrow> fold (collect_entry prov) kvs acc | _ \<Rightarrow> acc) rs acc)"
    for rs and acc :: "columns \<times> string list"
    by (induction rs arbitrary: acc) (simp_all add: entries del: sorted_wrt_map split: json.split)
  then show ?thesis by (simp add: collect_columns_def)
qed

lemma collect_good: "collect_columns PROPOSAL_PROV records = (cols, skipped) \<Longrightarrow> good_columns cols"
  using collect_columns_inv [of PROPOSAL_PROV records]
  by (simp add: good_columns_def strict_sorted_iff)

lemma infer_type_allowed: "infer_type vs \<in> set ALLOWED_TYPES"
  by (simp add: infer_type_def ALLOWED_TYPES_def)

lemma time_name_not_identity: "t \<in> set TIME_NAMES \<Longrightarrow> \<not> identity_shaped (to_lowercase t)"
  unfolding TIME_NAMES_def by (auto; code_simp)

lemma infer_natural_key_ok:
  assumes "names \<noteq> []" and "distinct names"
  shows "infer_natural_key names \<noteq> [] \<and> distinct (infer_natural_key names) \<and> set (infer_natural_key names) \<subseteq> set names"
proof (cases "filter (\<lambda>c. identity_shaped (to_lowercase c)) names = []")
  case True
  with assms show ?thesis by (simp add: infer_natural_key_def)
next
  case False
  show ?thesis
  proof (cases "find (\<lambda>t. t \<in> set names) TIME_NAMES")
    case None
    with False assms show ?thesis by (simp add: infer_natural_key_def Let_def)
  next
    case (Some t)
    then have "t \<in> set names" "t \<in> set TIME_NAMES" by (auto simp: find_Some_iff)
    with Some False assms time_name_not_identity show ?thesis by (auto simp: infer_natural_key_def Let_def)
  qed
qed

lemma column_types_names: "map fst (column_types cs) = map fst cs"
  by (simp add: column_types_def case_prod_beta comp_def)

lemma fresh_shape:
  assumes "collect_columns PROPOSAL_PROV records = (cols, skipped)" and "cols \<noteq> []"
  shows "well_shaped (JObject (column_types cols)) (infer_natural_key (map fst cols))"
proof -
  have g: "good_columns cols" using collect_good [OF assms(1)] .
  then have "set (infer_natural_key (map fst cols)) \<subseteq> fst ` set cols"
    using infer_natural_key_ok [of "map fst cols"] assms(2) by (simp add: good_columns_def)
  moreover have "fst ` set (column_types cols) = fst ` set cols"
    using column_types_names [of cols] by (metis list.set_map)
  moreover have "column_types cols \<noteq> []" using assms(2) by (simp add: column_types_def)
  moreover have "distinct (map fst (column_types cols))" using g by (simp add: column_types_names good_columns_def)
  moreover have "list_all (\<lambda>(c, ty). clean_ident c \<and> c \<notin> set PROPOSAL_PROV \<and> (\<exists>t \<in> set ALLOWED_TYPES. ty = JString t))
      (column_types cols)"
    using g by (auto simp: good_columns_def list_all_iff column_types_def infer_type_allowed)
  ultimately show ?thesis by (simp add: well_shaped_def)
qed

subsection \<open>Negotiated shapes\<close>

lemma insert_key_names: "fst ` set (insert_key k v r) = insert k (fst ` set r)"
  by (induction k v r rule: insert_key.induct) (simp_all add: insert_commute)

lemma insert_key_distinct: "distinct (map fst r) \<Longrightarrow> distinct (map fst (insert_key k v r))"
proof (induction r)
  case (Cons x r)
  obtain n w where x: "x = (n, w)" by fastforce
  have "n \<notin> fst ` set (insert_key k v r)" if "n \<noteq> k" using Cons.prems that by (auto simp: x insert_key_names)
  with Cons show ?case by (auto simp: x)
qed simp

lemma insert_key_entries: "e \<in> set (insert_key k v r) \<Longrightarrow> e = (k, v) \<or> e \<in> set r"
  by (induction r) (auto split: if_splits)

lemma clamp_allowed: "clamp_type ty \<in> set ALLOWED_TYPES"
  by (simp add: clamp_type_def Let_def ALLOWED_TYPES_def)

definition usable_entry :: "string \<times> json \<Rightarrow> bool" where
  "usable_entry = (\<lambda>(c, ty). clean_ident c \<and> c \<notin> set PROPOSAL_PROV \<and> (\<exists>t \<in> set ALLOWED_TYPES. ty = JString t))"

definition usable :: "(string \<times> json) list \<Rightarrow> bool" where
  "usable cols \<longleftrightarrow> distinct (map fst cols) \<and> list_all usable_entry cols"

lemma prov_subset: "set PROPOSAL_PROV \<subseteq> set SUGGEST_PROV"
  by (simp add: PROPOSAL_PROV_def SUGGEST_PROV_def)

lemma usable_insert: "usable out \<Longrightarrow> usable_entry (c, v) \<Longrightarrow> usable (insert_key c v out)"
  by (auto simp: usable_def insert_key_distinct list_all_iff dest!: insert_key_entries)

lemma validate_columns_usable: "usable out \<Longrightarrow> usable (validate_columns cs out)"
proof (induction cs out rule: validate_columns.induct)
  case (2 c ty cs out)
  show ?case
  proof (cases "norm_ident c")
    case (Some cn)
    have "usable_entry (cn, JString (clamp_type ty))" if "cn \<notin> set SUGGEST_PROV"
      using that prov_subset norm_ident_clean [OF Some] clamp_allowed [of ty] by (auto simp: usable_entry_def)
    with "2.prems" have "usable (insert_key cn (JString (clamp_type ty)) out)" if "cn \<notin> set SUGGEST_PROV"
      using that by (simp add: usable_insert)
    with 2 Some show ?thesis by simp
  qed (use 2 in simp)
qed simp

lemma validate_schema_shape:
  assumes "validate_schema columns key = Inr (cols, k)"
  shows "well_shaped (JObject cols) k"
proof -
  obtain obj where o: "columns = JObject obj" "cols = validate_columns obj []" "cols \<noteq> []"
      "k = filter (\<lambda>k. k \<in> fst ` set cols) (List.map_filter norm_ident key)"
    using assms by (auto simp: validate_schema_def Let_def split: json.splits if_splits)
  have "usable cols" using validate_columns_usable [of "[]" obj] o(2) by (simp add: usable_def)
  with o(3,4) show ?thesis by (auto simp: well_shaped_def usable_def usable_entry_def)
qed

lemma llm_refine_shape:
  assumes "llm_refine st ask from_str c k hint = Some (c', k')"
  shows "well_shaped (JObject c') k'"
proof -
  have result: "(case r of Inr x \<Rightarrow> Some x | Inl e \<Rightarrow> None) = Some y \<longleftrightarrow> r = Inr y" for r :: "string + 'a" and y
    by (cases r) auto
  from assms obtain cols key where "validate_schema cols key = Inr (c', k')"
    by (auto simp: llm_refine_def Let_def bind_eq_Some_conv result split: if_split_asm)
  then show ?thesis by (rule validate_schema_shape)
qed

lemma refined_shape:
  "validate_schema columns key = Inr (b, k) \<Longrightarrow> refined env b k hint = (c', k', who) \<Longrightarrow> well_shaped (JObject c') k'"
  by (auto simp: refined_def dest: llm_refine_shape validate_schema_shape split: option.splits)

section \<open>What an approval does\<close>

lemma map_of_update: "map_of (pw_props (update_proposal pid f w)) k =
   map_option (if k = pid then f else id) (map_of (pw_props w) k)"
proof -
  have "map_of (map (\<lambda>(k, p). (k, if k = pid then f p else p)) ps) k = map_option (if k = pid then f else id) (map_of ps k)"
    for ps by (induction ps) auto
  then show ?thesis by (simp add: update_proposal_def)
qed

lemma update_proposal_rest [simp]:
  "pw_tables (update_proposal pid f w) = pw_tables w" "pw_ch (update_proposal pid f w) = pw_ch w"
  "pw_backends (update_proposal pid f w) = pw_backends w" "pw_acl (update_proposal pid f w) = pw_acl w"
  "pw_kinds (update_proposal pid f w) = pw_kinds w"
  by (simp_all add: update_proposal_def)

lemma create_if_absent_le: "f \<subseteq>\<^sub>m create_if_absent n d f"
  by (auto simp: create_if_absent_def map_le_def)

lemma create_if_absent_exists: "create_if_absent n d f n \<noteq> None"
  by (simp add: create_if_absent_def)

definition well_planned :: "approval \<Rightarrow> bool" where
  "well_planned a \<longleftrightarrow> plan_table pg_type (av_plan a) = Inr (av_schema a, av_table a, av_ddl a)"

lemma plan_table_same_name:
  "plan_table f plan = Inr (s, t, d) \<Longrightarrow> plan_table g plan = Inr (s', t', d') \<Longrightarrow> s' = s \<and> t' = t"
  by (auto simp: plan_table_Inr)

definition engine_effect :: "approval \<Rightarrow> proposal_world \<Rightarrow> (table_name \<Rightarrow> table_ddl option) \<Rightarrow> (table_name \<Rightarrow> table_ddl option) \<Rightarrow> bool" where
  \<comment> \<open>the tables after an approval: the chosen engine has the table, which is the old one if there was one\<close>
  "engine_effect a w tb ch \<longleftrightarrow>
     (case av_chosen a of
        Postgres \<Rightarrow>
          tb = create_if_absent (av_schema a, av_table a) (av_ddl a) (pw_tables w) \<and> ch = pw_ch w
      | ClickHouse \<Rightarrow>
          tb = pw_tables w \<and> (\<exists>d. plan_table (pg_type_to_ch \<circ> type_text) (av_plan a) = Inr (av_schema a, av_table a, d) \<and>
             ch = create_if_absent (av_schema a, av_table a) d (pw_ch w)))"

lemma engine_effect_le: "engine_effect a w tb ch \<Longrightarrow> pw_tables w \<subseteq>\<^sub>m tb \<and> pw_ch w \<subseteq>\<^sub>m ch"
  by (auto simp: engine_effect_def create_if_absent_le split: backend_kind.splits)

lemma engine_effect_exists:
  "engine_effect a w tb ch \<Longrightarrow> tb (av_schema a, av_table a) \<noteq> None \<or> ch (av_schema a, av_table a) \<noteq> None"
  using create_if_absent_exists [of "(av_schema a, av_table a)"]
  by (auto simp: engine_effect_def split: backend_kind.splits)

definition done_world :: "approval \<Rightarrow> string \<Rightarrow> string \<Rightarrow> (table_name \<Rightarrow> table_ddl option) \<Rightarrow> (table_name \<Rightarrow> table_ddl option) \<Rightarrow>
    proposal_world \<Rightarrow> proposal_world" where
  "done_world a pid reviewer tb ch w =
     after_commit a (booked a (backend_str (av_chosen a)) pid reviewer (w\<lparr>pw_tables := tb, pw_ch := ch\<rparr>))"

lemma done_world_tables: "pw_tables (done_world a pid reviewer tb ch w) = tb" "pw_ch (done_world a pid reviewer tb ch w) = ch"
  by (simp_all add: done_world_def after_commit_def booked_def)

lemma done_world_props: "pw_props (done_world a pid reviewer tb ch w) =
    pw_props (update_proposal pid (\<lambda>p. p\<lparr>pr_status := ''applied'', pr_applied := Some (av_schema a @ ''.'' @ av_table a),
      pr_reviewer := Some reviewer\<rparr>) w)"
  by (simp add: done_world_def after_commit_def booked_def update_proposal_def)

lemma book_and_commit_cases:
  "book_and_commit env a pid reviewer w0 w = (r, w') \<Longrightarrow>
     (\<exists>e. r = Inl e \<and> w' = w0) \<or>
     (r = Inr (applied_json a) \<and> w' = after_commit a (booked a (backend_str (av_chosen a)) pid reviewer w))"
  by (auto simp: book_and_commit_def record_backend_acl_status_def split: sum.splits)

lemma approve_apply_cases:
  assumes "approve_apply env a pid reviewer w = (r, w')" and "well_planned a"
  obtains (failed) ch where "r = None \<or> (\<exists>e. r = Some (Inl e))" "w' = w\<lparr>pw_ch := ch\<rparr>" "pw_ch w \<subseteq>\<^sub>m ch"
      "av_chosen a = Postgres \<Longrightarrow> ch = pw_ch w"
    | (applied) tb ch where "r = Some (Inr (applied_json a))" "w' = done_world a pid reviewer tb ch w"
      "engine_effect a w tb ch"
proof (cases "av_chosen a")
  case Postgres
  let ?w = "w\<lparr>pw_tables := create_if_absent (av_schema a, av_table a) (av_ddl a) (pw_tables w)\<rparr>"
  consider (no) e where "r = Some (Inl e)" "w' = w"
    | (go) r1 where "book_and_commit env a pid reviewer w ?w = (r1, w')" "r = Some r1"
    using assms(1) Postgres
    by (auto simp: approve_apply_def Let_def apfst_def map_prod_def split: sum.splits if_splits prod.splits)
  then show ?thesis
  proof cases
    case no
    then show ?thesis using failed [of "pw_ch w"] by simp
  next
    case go
    from book_and_commit_cases [OF go(1)] show ?thesis
    proof (elim disjE exE conjE)
      fix e assume "r1 = Inl e" "w' = w"
      then show ?thesis using failed [of "pw_ch w"] go(2) by simp
    next
      assume "r1 = Inr (applied_json a)" "w' = after_commit a (booked a (backend_str (av_chosen a)) pid reviewer ?w)"
      then show ?thesis
        using applied [of "pw_tables ?w" "pw_ch w"] go(2) Postgres by (simp add: done_world_def engine_effect_def)
    qed
  qed
next
  case ClickHouse
  consider (no) "r = None \<or> (\<exists>e. r = Some (Inl e))" "w' = w"
    | (go) exec where "pe_ch env = Some exec" "ch_create_table exec (av_plan a) = Inr ()"
    using assms(1) ClickHouse by (auto simp: approve_apply_def Let_def split: option.splits sum.splits)
  then show ?thesis
  proof cases
    case no
    then show ?thesis using failed [of "pw_ch w"] by simp
  next
    case go
    from go(2) obtain s t d where d: "plan_table (pg_type_to_ch \<circ> type_text) (av_plan a) = Inr (s, t, d)"
      by (cases "plan_table (pg_type_to_ch \<circ> type_text) (av_plan a)")
        (auto simp: ch_create_table_def ch_build_create_table_ddl_def)
    have st: "s = av_schema a" "t = av_table a" using plan_table_same_name [OF _ d] assms(2) by (auto simp: well_planned_def)
    let ?ch = "create_if_absent (s, t) d (pw_ch w)"
    consider (stop) e where "r = Some (Inl e)" "w' = w\<lparr>pw_ch := ?ch\<rparr>"
      | (on) r1 where "book_and_commit env a pid reviewer (w\<lparr>pw_ch := ?ch\<rparr>) (w\<lparr>pw_ch := ?ch\<rparr>) = (r1, w')" "r = Some r1"
      using assms(1) ClickHouse go d
      by (auto simp: approve_apply_def Let_def apfst_def map_prod_def split: sum.splits prod.splits)
    then show ?thesis
    proof cases
      case stop
      then show ?thesis using failed [of ?ch] ClickHouse by (simp add: create_if_absent_le)
    next
      case on
      from book_and_commit_cases [OF on(1)] show ?thesis
      proof (elim disjE exE conjE)
        fix e assume "r1 = Inl e" "w' = w\<lparr>pw_ch := ?ch\<rparr>"
        then show ?thesis using failed [of ?ch] on(2) ClickHouse by (simp add: create_if_absent_le)
      next
        assume "r1 = Inr (applied_json a)"
          "w' = after_commit a (booked a (backend_str (av_chosen a)) pid reviewer (w\<lparr>pw_ch := ?ch\<rparr>))"
        then show ?thesis
          using applied [of "pw_tables w" ?ch] on(2) ClickHouse st d by (auto simp: done_world_def engine_effect_def)
      qed
    qed
  qed
qed

section \<open>The life of a proposal\<close>

definition proposal_ok :: "proposal_world \<Rightarrow> proposal \<Rightarrow> bool" where
  "proposal_ok w p \<longleftrightarrow>
     clean_ident (pr_schema p) \<and> clean_ident (pr_table p) \<and> well_shaped (pr_columns p) (pr_key p) \<and>
     pr_status p \<in> {''pending'', ''applied'', ''rejected''} \<and>
     (pr_status p = ''applied'' \<longrightarrow>
        pr_applied p = Some (pr_schema p @ ''.'' @ pr_table p) \<and> pw_backends w (pr_schema p, pr_table p) \<noteq> None \<and>
        (pw_tables w (pr_schema p, pr_table p) \<noteq> None \<or> pw_ch w (pr_schema p, pr_table p) \<noteq> None))"

definition same_proposal :: "proposal \<Rightarrow> proposal \<Rightarrow> bool" where
  \<comment> \<open>what never changes; once closed, the agreed shape neither\<close>
  "same_proposal p p' \<longleftrightarrow>
     (pr_schema p', pr_table p', pr_sub p', pr_role p', pr_sample p', pr_backend p', pr_created p') =
     (pr_schema p, pr_table p, pr_sub p, pr_role p, pr_sample p, pr_backend p, pr_created p) \<and>
     (pr_status p \<noteq> ''pending'' \<longrightarrow>
        pr_status p' \<noteq> ''pending'' \<and> (pr_columns p', pr_key p', pr_rounds p') = (pr_columns p, pr_key p, pr_rounds p)) \<and>
     (pr_status p = ''applied'' \<longrightarrow> pr_status p' = ''applied'')"

definition evolves :: "proposal_world \<Rightarrow> proposal_world \<Rightarrow> bool" where
  "evolves w w' \<longleftrightarrow>
     pw_tables w \<subseteq>\<^sub>m pw_tables w' \<and> pw_ch w \<subseteq>\<^sub>m pw_ch w' \<and> dom (pw_backends w) \<subseteq> dom (pw_backends w') \<and>
     (\<forall>pid p. map_of (pw_props w) pid = Some p \<longrightarrow>
        (\<exists>p'. map_of (pw_props w') pid = Some p' \<and> same_proposal p p'))"

definition flight_ok :: "proposal_world \<Rightarrow> string \<times> identity \<times> approval \<Rightarrow> bool" where
  "flight_ok w = (\<lambda>(pid, ident, a). well_planned a \<and>
     (\<exists>p. map_of (pw_props w) pid = Some p \<and> pr_schema p = av_schema a \<and> pr_table p = av_table a \<and> pr_role p = av_role a))"

definition props_ok :: "proposal_world \<Rightarrow> bool" where
  "props_ok w \<longleftrightarrow> (\<forall>pid p. map_of (pw_props w) pid = Some p \<longrightarrow> proposal_ok w p)"

text \<open>Requests interleave; an approval waits between its reading and its transaction.\<close>

type_synonym proposal_sys = "proposal_world \<times> (string \<times> identity \<times> approval) list"

inductive prop_step :: "proposal_sys \<Rightarrow> proposal_sys \<Rightarrow> bool" where
  opened: "map_of (pw_props w) (pe_new_id env) = None \<Longrightarrow>
    create_proposal env sch tbl role sub records w = (r, w') \<Longrightarrow> prop_step (w, fl) (w', fl)"
| countered: "counter_proposal env ident pid cols key hint w = (r, w') \<Longrightarrow> prop_step (w, fl) (w', fl)"
| rejected: "reject_proposal env ident pid w = (r, w') \<or> builder_reject_proposal env ident pid w = (r, w') \<Longrightarrow>
    prop_step (w, fl) (w', fl)"
| approving: "admin_approval env ident pid body w = Inr a \<or> builder_approval env ident pid w = Inr a \<Longrightarrow>
    prop_step (w, fl) (w, (pid, ident, a) # fl)"
| finished: "(pid, ident, a) \<in> set fl \<Longrightarrow> approve_apply env a pid (i_sub ident) w = (r, w') \<Longrightarrow>
    prop_step (w, fl) (w', remove1 (pid, ident, a) fl)"
| administered: "prop_step (w, fl) (w\<lparr>pw_acl := acl, pw_acl_cache := c, pw_kinds := kinds\<rparr>, fl)"

subsection \<open>Single operations\<close>

lemma pending_Some: "still_pending pid w = Some p \<longleftrightarrow> map_of (pw_props w) pid = Some p \<and> pr_status p = ''pending''"
  by (auto simp: still_pending_def split: option.splits)

lemma same_refl [simp]: "same_proposal p p"
  by (simp add: same_proposal_def)

lemma evolves_refl [simp]: "evolves w w"
  by (auto simp: evolves_def)

lemma same_trans: "same_proposal p q \<Longrightarrow> same_proposal q r \<Longrightarrow> same_proposal p r"
  by (simp add: same_proposal_def)

lemma evolves_trans:
  assumes "evolves w1 w2" and "evolves w2 w3"
  shows "evolves w1 w3"
  using assms unfolding evolves_def by (meson map_le_trans same_trans subset_trans)

lemma create_cases:
  assumes "create_proposal env sch tbl role sub records w = (r, w')"
  obtains "w' = w" "\<exists>e. r = Inl e"
    | s t cols skipped where "norm_ident sch = Some s" "norm_ident tbl = Some t"
      "collect_columns PROPOSAL_PROV records = (cols, skipped)" "cols \<noteq> []"
      "r = Inr (proposed_json (pe_new_id env) (fresh_proposal (pe_now env) s t role sub records cols skipped) skipped)"
      "w' = w\<lparr>pw_props := (pe_new_id env, fresh_proposal (pe_now env) s t role sub records cols skipped) # pw_props w\<rparr>"
proof (cases "norm_ident sch")
  case None
  with assms that(1) show ?thesis by (auto simp: create_proposal_def)
next
  case s: (Some s)
  show ?thesis
  proof (cases "norm_ident tbl")
    case None
    with assms s that(1) show ?thesis by (auto simp: create_proposal_def)
  next
    case t: (Some t)
    obtain cols skipped where c: "collect_columns PROPOSAL_PROV records = (cols, skipped)" by fastforce
    show ?thesis
      using assms that(1) that(2) [OF s t c]
      by (cases "bind_res (pe_stmt env SConn) (\<lambda>_. pe_stmt env SInsert)")
        (auto simp: create_proposal_def s t c Let_def split: if_split_asm)
  qed
qed

lemma counter_cases:
  assumes "counter env pid columns key hint w = (r, w')"
  obtains "w' = w" "\<exists>e. r = Inl e"
    | p cols k rounds where "still_pending pid w = Some p" "well_shaped (JObject cols) k"
      "w' = update_proposal pid (\<lambda>p. p\<lparr>pr_columns := JObject cols, pr_key := k, pr_rounds := pr_rounds p @ rounds\<rparr>) w"
proof (cases "validate_schema columns key")
  case (Inl m)
  with assms that(1) show ?thesis by (auto simp: counter_def)
next
  case (Inr bk)
  obtain b k where bk: "bk = (b, k)" by fastforce
  obtain c' k' who where f: "refined env b k hint = (c', k', who)" by (cases "refined env b k hint") auto
  have shape: "well_shaped (JObject c') k'" using refined_shape [OF _ f] Inr bk by blast
  show ?thesis
  proof (cases "(\<exists>e. bind_res (pe_stmt env SConn) (\<lambda>_. pe_stmt env SUpdate) = Inl e) \<or> still_pending pid w = None")
    case True
    then have "w' = w" "\<exists>e. r = Inl e" using assms by (auto simp: counter_def Inr bk f split: sum.splits)
    then show ?thesis by (rule that(1))
  next
    case False
    then obtain p where p: "still_pending pid w = Some p" by auto
    have "w' = update_proposal pid (\<lambda>p. p\<lparr>pr_columns := JObject c', pr_key := k', pr_rounds := pr_rounds p @
        [round_of ''builder'' ''counter'' None b k, round_of ''platform'' ''suggestion'' (Some who) c' k']\<rparr>) w"
      using assms False p by (cases "bind_res (pe_stmt env SConn) (\<lambda>_. pe_stmt env SUpdate)") (simp_all add: counter_def Inr bk f)
    then show ?thesis by (rule that(2) [OF p shape])
  qed
qed

lemma reject_cases:
  assumes "reject env pid reviewer notes w = (r, w')"
  obtains "w' = w" "\<exists>e. r = Inl e"
    | p where "still_pending pid w = Some p"
      "w' = update_proposal pid (\<lambda>p. p\<lparr>pr_status := ''rejected'', pr_reviewer := Some reviewer, pr_notes := notes\<rparr>) w"
proof (cases "(\<exists>e. bind_res (pe_stmt env SConn) (\<lambda>_. pe_stmt env SUpdate) = Inl e) \<or> still_pending pid w = None")
  case True
  then have "w' = w" "\<exists>e. r = Inl e" using assms by (auto simp: reject_def split: sum.splits if_splits)
  then show ?thesis by (rule that(1))
next
  case False
  then obtain p where "still_pending pid w = Some p" by auto
  moreover from this False have "w' = update_proposal pid
      (\<lambda>p. p\<lparr>pr_status := ''rejected'', pr_reviewer := Some reviewer, pr_notes := notes\<rparr>) w"
    using assms by (cases "bind_res (pe_stmt env SConn) (\<lambda>_. pe_stmt env SUpdate)") (simp_all add: reject_def)
  ultimately show ?thesis by (rule that(2))
qed

definition approval_of :: "backend_kind \<Rightarrow> proposal \<Rightarrow> approval \<Rightarrow> bool" where
  "approval_of chosen p a \<longleftrightarrow>
     well_planned a \<and> norm_ident (pr_schema p) = Some (av_schema a) \<and> norm_ident (pr_table p) = Some (av_table a) \<and>
     pr_role p = av_role a \<and> av_chosen a = chosen \<and> pr_columns p = JObject (cp_inferred (av_plan a)) \<and>
     pr_key p = cp_key (av_plan a)"

lemma approval_for_Inr:
  assumes "approval_for env chosen p = Inr a"
  shows "approval_of chosen p a"
proof -
  have go: "\<not> (chosen = ClickHouse \<and> pe_ch env = None)"
  proof
    assume "chosen = ClickHouse \<and> pe_ch env = None"
    with assms show False by (simp add: approval_for_def)
  qed
  obtain obj where obj: "pr_columns p = JObject obj"
    using assms go by (cases "pr_columns p") (simp_all only: approval_for_def if_False json.case sum.distinct)
  let ?plan = "\<lparr>cp_schema = pr_schema p, cp_table = pr_table p, cp_inferred = obj, cp_key = pr_key p\<rparr>"
  obtain s t d where d: "plan_table pg_type ?plan = Inr (s, t, d)"
    using assms go obj by (cases "plan_table pg_type ?plan") (auto simp: approval_for_def Let_def simp del: de_Morgan_conj)
  then have "a = \<lparr>av_plan = ?plan, av_role = pr_role p, av_chosen = chosen, av_schema = s, av_table = t, av_ddl = d\<rparr>"
    using assms go obj by (simp add: approval_for_def Let_def del: de_Morgan_conj)
  with d obj show ?thesis by (simp add: approval_of_def well_planned_def) (simp add: plan_table_Inr)
qed

lemma approve_read_Inr:
  assumes "approve_read env pid override w = Inr a"
  obtains p where "still_pending pid w = Some p" "approval_of (chosen_backend override p) p a"
proof (cases "still_pending pid w")
  case None
  with assms show ?thesis by (simp add: approve_read_def bind_res_Inr)
next
  case (Some p)
  with assms have "approval_for env (chosen_backend override p) p = Inr a" by (simp add: approve_read_def bind_res_Inr)
  from that [OF Some approval_for_Inr [OF this]] show ?thesis .
qed

subsection \<open>Every step keeps the shapes and only closes proposals\<close>

lemma proposal_ok_mono:
  assumes "proposal_ok w p" and "evolves w w'"
  shows "proposal_ok w' p"
proof -
  have "pw_tables w n \<noteq> None \<Longrightarrow> pw_tables w' n \<noteq> None" "pw_ch w n \<noteq> None \<Longrightarrow> pw_ch w' n \<noteq> None" for n
    using assms(2) unfolding evolves_def map_le_def by (metis domIff)+
  moreover have "pw_backends w n \<noteq> None \<Longrightarrow> pw_backends w' n \<noteq> None" for n
    using assms(2) by (auto simp: evolves_def)
  ultimately show ?thesis using assms(1) unfolding proposal_ok_def by blast
qed

lemma flight_ok_mono:
  assumes "flight_ok w x" and "evolves w w'"
  shows "flight_ok w' x"
proof -
  obtain pid ident a where x: "x = (pid, ident, a)" by (cases x)
  from assms(1) obtain p where p: "well_planned a" "map_of (pw_props w) pid = Some p" "pr_schema p = av_schema a"
      "pr_table p = av_table a" "pr_role p = av_role a" by (auto simp: flight_ok_def x)
  from assms(2) p(2) obtain p' where "map_of (pw_props w') pid = Some p'" "same_proposal p p'"
    unfolding evolves_def by blast
  with p show ?thesis by (auto simp: flight_ok_def x same_proposal_def)
qed

lemma update_step:
  assumes "map_of (pw_props w) pid = Some p \<Longrightarrow> same_proposal p (f p) \<and> proposal_ok w' (f p)"
    and props: "pw_props w' = pw_props (update_proposal pid f w)"
    and grows: "pw_tables w \<subseteq>\<^sub>m pw_tables w'" "pw_ch w \<subseteq>\<^sub>m pw_ch w'" "dom (pw_backends w) \<subseteq> dom (pw_backends w')"
    and ok: "props_ok w" and p: "map_of (pw_props w) pid = Some p"
  shows "evolves w w' \<and> props_ok w'"
proof -
  have lookup: "map_of (pw_props w') k = map_option (if k = pid then f else id) (map_of (pw_props w) k)" for k
    by (simp add: props map_of_update)
  have ev: "evolves w w'"
    unfolding evolves_def
  proof (intro conjI grows allI impI)
    fix k q assume q: "map_of (pw_props w) k = Some q"
    then show "\<exists>q'. map_of (pw_props w') k = Some q' \<and> same_proposal q q'"
      using assms(1) p by (cases "k = pid") (auto simp: lookup)
  qed
  moreover have "proposal_ok w' q" if "map_of (pw_props w') k = Some q" for k q
  proof (cases "k = pid")
    case True
    with that p assms(1) show ?thesis by (auto simp: lookup)
  next
    case False
    with that have "map_of (pw_props w) k = Some q" by (auto simp: lookup)
    with ok have "proposal_ok w q" by (auto simp: props_ok_def)
    then show ?thesis using ev by (rule proposal_ok_mono)
  qed
  ultimately show ?thesis by (auto simp: props_ok_def)
qed

lemma tables_step:
  assumes "props_ok w" and "pw_props w' = pw_props w" and "pw_tables w \<subseteq>\<^sub>m pw_tables w'" and "pw_ch w \<subseteq>\<^sub>m pw_ch w'"
    and "dom (pw_backends w) \<subseteq> dom (pw_backends w')"
  shows "evolves w w' \<and> props_ok w'"
proof -
  have "evolves w w'" using assms(2-5) by (auto simp: evolves_def)
  with assms(1,2) show ?thesis by (auto simp: props_ok_def intro: proposal_ok_mono)
qed

lemma counter_step:
  assumes "counter env pid columns key hint w = (r, w')" and "props_ok w"
  shows "evolves w w' \<and> props_ok w'"
  using assms(1)
proof (cases rule: counter_cases)
  case 1
  with assms(2) show ?thesis by simp
next
  case (2 p cols k rounds)
  then have "map_of (pw_props w) pid = Some p" "pr_status p = ''pending''" by (simp_all add: pending_Some)
  moreover from this have "proposal_ok w p" using assms(2) by (auto simp: props_ok_def)
  ultimately show ?thesis using 2 assms(2)
    by (intro update_step) (auto simp: same_proposal_def proposal_ok_def)
qed

lemma reject_step:
  assumes "reject env pid reviewer notes w = (r, w')" and "props_ok w"
  shows "evolves w w' \<and> props_ok w'"
  using assms(1)
proof (cases rule: reject_cases)
  case 1
  with assms(2) show ?thesis by simp
next
  case (2 p)
  then have "map_of (pw_props w) pid = Some p" "pr_status p = ''pending''" by (simp_all add: pending_Some)
  moreover from this have "proposal_ok w p" using assms(2) by (auto simp: props_ok_def)
  ultimately show ?thesis using 2 assms(2)
    by (intro update_step) (auto simp: same_proposal_def proposal_ok_def)
qed

lemma apply_step:
  assumes "approve_apply env a pid reviewer w = (r, w')" and "props_ok w" and "flight_ok w (pid, ident, a)"
  shows "evolves w w' \<and> props_ok w'"
proof -
  from assms(3) obtain p where p: "well_planned a" "map_of (pw_props w) pid = Some p" "pr_schema p = av_schema a"
      "pr_table p = av_table a" by (auto simp: flight_ok_def)
  have ok: "proposal_ok w p" using assms(2) p(2) by (auto simp: props_ok_def)
  show ?thesis using assms(1) p(1)
  proof (cases rule: approve_apply_cases)
    case (failed ch)
    then show ?thesis by (intro tables_step) (simp_all add: assms(2))
  next
    case (applied tb ch)
    let ?f = "\<lambda>p. p\<lparr>pr_status := ''applied'', pr_applied := Some (av_schema a @ ''.'' @ av_table a), pr_reviewer := Some reviewer\<rparr>"
    have w': "pw_props w' = pw_props (update_proposal pid ?f w)" "pw_tables w' = tb" "pw_ch w' = ch"
        "pw_backends w' = upsert_backend (av_schema a) (av_table a) (backend_str (av_chosen a)) (pw_backends w)"
      by (simp_all add: applied(2) done_world_def after_commit_def booked_def update_proposal_def)
    have new: "same_proposal p (?f p) \<and> proposal_ok w' (?f p)"
      using ok p(3,4) engine_effect_exists [OF applied(3)]
      by (auto simp: same_proposal_def proposal_ok_def w' upsert_backend_def)
    show ?thesis
      using new engine_effect_le [OF applied(3)] p(2) assms(2)
      by (intro update_step [where f = ?f]) (auto simp: w' upsert_backend_def)
  qed
qed

lemma create_step:
  assumes "create_proposal env sch tbl role sub records w = (r, w')" and "map_of (pw_props w) (pe_new_id env) = None"
    and "props_ok w"
  shows "evolves w w' \<and> props_ok w'"
  using assms(1)
proof (cases rule: create_cases)
  case 1
  with assms(3) show ?thesis by simp
next
  case (2 s t cols skipped)
  let ?p = "fresh_proposal (pe_now env) s t role sub records cols skipped"
  have ev: "evolves w w'" using assms(2) by (auto simp: evolves_def 2)
  have "proposal_ok w' ?p"
    using 2 fresh_shape norm_ident_clean by (simp add: proposal_ok_def fresh_proposal_def Let_def)
  moreover have "proposal_ok w' q" if "map_of (pw_props w) k = Some q" for k q
    using that assms(3) ev by (auto simp: props_ok_def intro: proposal_ok_mono)
  ultimately show ?thesis using ev by (auto simp: props_ok_def 2)
qed

lemma approval_flight:
  assumes "approve_read env pid override w = Inr a" and "props_ok w"
  shows "flight_ok w (pid, ident, a)"
  using assms(1)
proof (cases rule: approve_read_Inr)
  case (1 p)
  then have p: "map_of (pw_props w) pid = Some p" by (simp add: pending_Some)
  with assms(2) have "clean_ident (pr_schema p)" "clean_ident (pr_table p)" by (auto simp: props_ok_def proposal_ok_def)
  with 1 p show ?thesis by (auto simp: flight_ok_def approval_of_def norm_ident_idem)
qed

lemma prop_step_inv:
  assumes "prop_step (w, fl) (w', fl')" and "props_ok w" and "\<forall>x \<in> set fl. flight_ok w x"
  shows "evolves w w' \<and> props_ok w' \<and> (\<forall>x \<in> set fl'. flight_ok w' x)"
proof -
  have keep: "\<forall>x \<in> set fl. flight_ok w'' x" if "evolves w w''" for w''
    using assms(3) that flight_ok_mono by blast
  from assms(1) show ?thesis
  proof cases
    case (opened env sch tbl role sub records r)
    with create_step [OF opened(3,2) assms(2)] keep show ?thesis by simp
  next
    case (countered env ident pid cols key hint r)
    then have "w' = w \<or> (\<exists>r. counter env pid cols key hint w = (r, w'))"
      by (auto simp: counter_proposal_def split: sum.splits)
    with counter_step assms(2) keep countered show ?thesis by fastforce
  next
    case (rejected env ident pid r)
    then have "w' = w \<or> (\<exists>r. reject env pid (i_sub ident) None w = (r, w'))"
      by (auto simp: reject_proposal_def builder_reject_proposal_def split: sum.splits)
    with reject_step assms(2) keep rejected show ?thesis by fastforce
  next
    case (approving env ident pid body a)
    then have "\<exists>k. approve_read env pid k w = Inr a"
      by (auto simp: admin_approval_def builder_approval_def bind_res_Inr)
    with approval_flight assms(2,3) approving show ?thesis by auto
  next
    case (finished pid ident a env r)
    have "evolves w w' \<and> props_ok w'" using apply_step [OF finished(3) assms(2)] assms(3) finished(2) by blast
    with keep finished(1) show ?thesis using notin_set_remove1 by fastforce
  next
    case (administered acl c kinds)
    with tables_step [OF assms(2), of w'] keep show ?thesis by simp
  qed
qed

lemma prop_steps_inv:
  assumes "prop_step\<^sup>*\<^sup>* (w, fl) (w', fl')" and "props_ok w" and "\<forall>x \<in> set fl. flight_ok w x"
  shows "evolves w w' \<and> props_ok w' \<and> (\<forall>x \<in> set fl'. flight_ok w' x)"
  using assms(1)
proof (induction rule: rtranclp_induct2)
  case refl
  with assms(2,3) show ?case by simp
next
  case (step w1 fl1 w2 fl2)
  with prop_step_inv [OF step(2)] show ?case by (blast intro: evolves_trans)
qed

text \<open>C18: In every interleaving of proposals, counter-proposals, rejections and approvals, the parts
  of an approval included, a proposal keeps its table, its proposer and its role; it is never
  opened again once closed, its agreed columns and key do not change then, and an applied one
  stays applied.  Its identifiers are clean, its columns distinct, of allowed types and without
  the stamped ones, its key among them; if it is applied, its table exists and has a recorded
  engine.
\<close>

theorem proposal_lifecycle:
  assumes "pw_props w0 = []" and "prop_step\<^sup>*\<^sup>* (w0, []) (w, fl)" and "map_of (pw_props w) pid = Some p"
    and "prop_step\<^sup>*\<^sup>* (w, fl) (w', fl')"
  shows "\<exists>p'. map_of (pw_props w') pid = Some p' \<and> same_proposal p p' \<and> proposal_ok w' p'"
proof -
  have "props_ok w0" using assms(1) by (simp add: props_ok_def)
  with prop_steps_inv [OF assms(2)] have "props_ok w" "\<forall>x \<in> set fl. flight_ok w x" by simp_all
  from prop_steps_inv [OF assms(4) this] have "evolves w w'" "props_ok w'" by simp_all
  then show ?thesis using assms(3) unfolding evolves_def props_ok_def by blast
qed

section \<open>Approvals\<close>

lemma approval_chosen_ready:
  "approval_for env chosen p = Inr a \<Longrightarrow> chosen = ClickHouse \<Longrightarrow> pe_ch env \<noteq> None"
  by (cases "pe_ch env = None") (simp_all add: approval_for_def)

lemma approve_apply_returns:
  assumes "av_chosen a = ClickHouse \<Longrightarrow> pe_ch env \<noteq> None"
  shows "fst (approve_apply env a pid reviewer w) \<noteq> None"
  using assms
  by (auto simp: approve_apply_def Let_def split: backend_kind.splits option.splits sum.splits)

definition approved :: "string \<Rightarrow> proposal \<Rightarrow> string \<Rightarrow> backend_kind \<Rightarrow> proposal_world \<Rightarrow> proposal_world \<Rightarrow> bool" where
  \<comment> \<open>the pending proposal is applied under its table's clean name: the engine has the table, its row and the
    role's grant are written, everything else is as it was\<close>
  "approved pid p reviewer chosen w w' \<longleftrightarrow>
     (\<exists>s t. norm_ident (pr_schema p) = Some s \<and> norm_ident (pr_table p) = Some t \<and>
        (\<forall>k. map_of (pw_props w') k =
           (if k = pid then Some (p\<lparr>pr_status := ''applied'', pr_applied := Some (s @ ''.'' @ t), pr_reviewer := Some reviewer\<rparr>)
            else map_of (pw_props w) k)) \<and>
        pw_backends w' = (pw_backends w)((s, t) \<mapsto> backend_str chosen) \<and>
        map_of (pw_acl w') = (map_of (pw_acl w))((pr_role p, s, t) \<mapsto> True) \<and>
        pw_kinds w' = (pw_kinds w)(reg_key s t \<mapsto> chosen) \<and> ac_loaded_at (pw_acl_cache w') = None \<and>
        (if chosen = Postgres then
           pw_ch w' = pw_ch w \<and> (\<exists>d. pw_tables w' = create_if_absent (s, t) d (pw_tables w))
         else pw_tables w' = pw_tables w \<and> (\<exists>d. pw_ch w' = create_if_absent (s, t) d (pw_ch w))))"

lemma done_world_approved:
  assumes "still_pending pid w = Some p" and "approval_of chosen p a" and "engine_effect a w tb ch"
  shows "approved pid p reviewer chosen w (done_world a pid reviewer tb ch w)"
proof -
  have p: "map_of (pw_props w) pid = Some p" using assms(1) by (simp add: pending_Some)
  have props: "map_of (pw_props (done_world a pid reviewer tb ch w)) k =
      (if k = pid then Some (p\<lparr>pr_status := ''applied'', pr_applied := Some (av_schema a @ ''.'' @ av_table a),
         pr_reviewer := Some reviewer\<rparr>) else map_of (pw_props w) k)" for k
    using p by (simp add: done_world_props map_of_update option.map_id)
  have acl: "map_of (hm_insert k v m) = (map_of m)(k \<mapsto> v)" for k :: "string \<times> string \<times> string" and v :: bool and m
    by (simp add: fun_eq_iff)
  have rest: "pw_backends (done_world a pid reviewer tb ch w) = (pw_backends w)((av_schema a, av_table a) \<mapsto> backend_str chosen)"
      "map_of (pw_acl (done_world a pid reviewer tb ch w)) = (map_of (pw_acl w))((pr_role p, av_schema a, av_table a) \<mapsto> True)"
      "pw_kinds (done_world a pid reviewer tb ch w) = (pw_kinds w)(reg_key (av_schema a) (av_table a) \<mapsto> chosen)"
      "ac_loaded_at (pw_acl_cache (done_world a pid reviewer tb ch w)) = None"
    using assms(2)
    by (simp_all add: done_world_def after_commit_def booked_def acl upsert_backend_def note_backend_cached_def
        acl_invalidate_def approval_of_def)
  have engines: "if chosen = Postgres then
       ch = pw_ch w \<and> (\<exists>d. tb = create_if_absent (av_schema a, av_table a) d (pw_tables w))
     else tb = pw_tables w \<and> (\<exists>d. ch = create_if_absent (av_schema a, av_table a) d (pw_ch w))"
    using assms(2,3) by (cases chosen) (auto simp: engine_effect_def approval_of_def)
  have names: "norm_ident (pr_schema p) = Some (av_schema a)" "norm_ident (pr_table p) = Some (av_table a)"
    using assms(2) by (simp_all add: approval_of_def)
  show ?thesis
    unfolding approved_def rest done_world_tables
    by (intro exI [of _ "av_schema a"] exI [of _ "av_table a"] conjI allI names props refl engines)
qed

text \<open>C19: An approval returns.  If it reports success the proposal was pending, and is applied as
  described by \<open>approved\<close>, on the engine asked for or else the suggested one; if it fails nothing
  changed, except that a configured ClickHouse may have the table, with no row that leads to it.
\<close>

theorem approval_is_atomic:
  "case approve env pid reviewer override w of
     (None, _) \<Rightarrow> False
   | (Some (Inl e), w') \<Rightarrow>
       (if pe_ch env = None then w' = w else \<exists>ch. w' = w\<lparr>pw_ch := ch\<rparr> \<and> pw_ch w \<subseteq>\<^sub>m ch)
   | (Some (Inr j), w') \<Rightarrow>
       \<exists>p. still_pending pid w = Some p \<and> approved pid p reviewer (chosen_backend override p) w w'"
proof (cases "approve_read env pid override w")
  case (Inl e)
  then show ?thesis by (auto simp: approve_def intro!: exI [of _ "pw_ch w"])
next
  case (Inr a)
  obtain r w' where step: "approve_apply env a pid reviewer w = (r, w')" by fastforce
  from Inr obtain p where p: "still_pending pid w = Some p" "approval_of (chosen_backend override p) p a"
    by (rule approve_read_Inr)
  have ready: "av_chosen a = ClickHouse \<Longrightarrow> pe_ch env \<noteq> None"
    using Inr p approval_chosen_ready by (auto simp: approve_read_def bind_res_Inr approval_of_def)
  with approve_apply_returns [of a env pid reviewer w] step have some: "r \<noteq> None" by simp
  have "well_planned a" using p(2) by (simp add: approval_of_def)
  with step show ?thesis
  proof (cases rule: approve_apply_cases)
    case (failed ch)
    moreover have "ch = pw_ch w \<or> pe_ch env \<noteq> None" using failed(4) ready by (cases "av_chosen a") auto
    moreover obtain e where "r = Some (Inl e)" using failed(1) some by blast
    ultimately show ?thesis by (auto simp: approve_def Inr step intro!: exI [of _ ch])
  next
    case (applied tb ch)
    with done_world_approved [OF p applied(3), of reviewer] p(1) show ?thesis
      by (simp add: approve_def Inr step)
  qed
qed

subsection \<open>Who may act\<close>

definition may_negotiate :: "identity \<Rightarrow> string \<Rightarrow> proposal_world \<Rightarrow> bool" where
  "may_negotiate ident pid w \<longleftrightarrow>
     is_admin ident \<or> (\<exists>p. map_of (pw_props w) pid = Some p \<and> pr_sub p = i_sub ident)"

lemma allow_may_negotiate: "allow_proposer_or_admin env ident pid w = Inr u \<Longrightarrow> may_negotiate ident pid w"
  by (auto simp: allow_proposer_or_admin_def may_negotiate_def is_proposer_def bind_res_Inr split: if_splits option.splits)

lemma require_admin_iff: "require_admin ident = Inr u \<longleftrightarrow> is_admin ident"
  by (simp add: require_admin_def is_admin_def)

text \<open>C38: Only an administrator changes anything through the review routes; through the builder's
  routes only an administrator or the proposal's own proposer does, and only they see its detail.
\<close>

theorem negotiation_is_authorized:
  "(snd (approve_proposal env ident pid body w) \<noteq> w \<or> snd (reject_proposal env ident pid w) \<noteq> w \<longrightarrow> is_admin ident) \<and>
   (snd (builder_approve_proposal env ident pid w) \<noteq> w \<or> snd (builder_reject_proposal env ident pid w) \<noteq> w \<or>
    snd (counter_proposal env ident pid cols key hint w) \<noteq> w \<or> (\<exists>j. get_proposal env tm ident pid w = Inr j) \<longrightarrow>
    may_negotiate ident pid w)"
proof (intro conjI impI)
  show "is_admin ident" if "snd (approve_proposal env ident pid body w) \<noteq> w \<or> snd (reject_proposal env ident pid w) \<noteq> w"
    using that require_admin_iff [of ident]
    by (cases "require_admin ident") (auto simp: approve_proposal_def carry_out_def admin_approval_def reject_proposal_def)
  show "may_negotiate ident pid w"
    if "snd (builder_approve_proposal env ident pid w) \<noteq> w \<or> snd (builder_reject_proposal env ident pid w) \<noteq> w \<or>
      snd (counter_proposal env ident pid cols key hint w) \<noteq> w \<or> (\<exists>j. get_proposal env tm ident pid w = Inr j)"
    using that allow_may_negotiate [of env ident pid w]
    by (cases "allow_proposer_or_admin env ident pid w")
      (auto simp: builder_approve_proposal_def carry_out_def builder_approval_def builder_reject_proposal_def
        counter_proposal_def get_proposal_def)
qed

section \<open>A fresh proposal can be approved\<close>

definition all_ok :: "proposal_env \<Rightarrow> bool" where
  "all_ok env \<longleftrightarrow> (\<forall>x. pe_stmt env x = Inr ()) \<and> (\<forall>exec q. pe_ch env = Some exec \<longrightarrow> exec q = Inr ())"

definition usable_names :: "json list \<Rightarrow> string set" where
  "usable_names records =
     {c. c \<notin> set PROPOSAL_PROV \<and>
        (\<exists>kvs k v. JObject kvs \<in> set records \<and> (k, v) \<in> set kvs \<and> norm_ident k = Some c)}"

lemma collect_entry_names:
  "fst ` set (fst (collect_entry prov kv acc)) =
     fst ` set (fst acc) \<union> {c. norm_ident (fst kv) = Some c \<and> c \<notin> set prov}"
  by (auto simp: collect_entry_def col_push_names split: option.split)

lemma collect_columns_names: "fst ` set (fst (collect_columns PROPOSAL_PROV records)) = usable_names records"
proof -
  let ?N = "\<lambda>kvs. {c. c \<notin> set PROPOSAL_PROV \<and> (\<exists>k v. (k, v) \<in> set kvs \<and> norm_ident k = Some c)}"
  have entries: "fst ` set (fst (fold (collect_entry PROPOSAL_PROV) kvs acc)) = fst ` set (fst acc) \<union> ?N kvs" for kvs acc
    by (induction kvs arbitrary: acc) (auto simp: collect_entry_names)
  have "fst ` set (fst (fold (\<lambda>rec acc. case rec of JObject kvs \<Rightarrow> fold (collect_entry PROPOSAL_PROV) kvs acc | _ \<Rightarrow> acc) rs acc)) =
      fst ` set (fst acc) \<union> usable_names rs" for rs and acc :: "columns \<times> string list"
  proof (induction rs arbitrary: acc)
    case (Cons x rs)
    have object: "usable_names (JObject kvs # rs) = ?N kvs \<union> usable_names rs" for kvs
      unfolding usable_names_def by (simp add: set_eq_iff) blast
    from Cons show ?case by (cases x) (simp_all add: entries object Un_assoc, simp_all add: usable_names_def)
  qed (simp add: usable_names_def)
  from this [of records "([], [])"] show ?thesis by (simp add: collect_columns_def)
qed

lemma plan_key_shaped:
  assumes "well_shaped (JObject cols) key" and "cp_inferred plan = cols" and "cp_key plan = key"
  shows "plan_key plan = key"
proof -
  have k: "clean_ident k \<and> k \<in> fst ` set cols" if "k \<in> set key" for k
    using assms(1) that by (fastforce simp: well_shaped_def list_all_iff)
  then have "List.map_filter norm_ident key = key"
    by (induction key) (auto simp: map_filter_simps norm_ident_idem)
  moreover have "filter (\<lambda>k. k \<in> fst ` set cols) key = key" using k by (simp add: filter_id_conv)
  ultimately show ?thesis by (simp add: plan_key_def assms(2,3))
qed

lemma plan_table_shaped:
  assumes "well_shaped (JObject cols) key" and "clean_ident s" and "clean_ident t"
  shows "plan_table conv \<lparr>cp_schema = s, cp_table = t, cp_inferred = cols, cp_key = key\<rparr> =
           Inr (s, t, \<lparr>td_columns = map (\<lambda>(c, ty). (c, conv ty)) cols, td_key = key\<rparr>)"
proof -
  have "clean_ident c" if "c \<in> fst ` set cols" for c
    using assms(1) that by (auto simp: well_shaped_def list_all_iff)
  then have "plan_columns conv cols = Inr (map (\<lambda>(c, ty). (c, conv ty)) cols)" by (rule plan_columns_ok)
  with assms plan_key_shaped [OF assms(1)] show ?thesis by (simp add: plan_table_def norm_ident_idem)
qed

lemma pg_accepts_shaped:
  assumes "well_shaped (JObject cols) key" and "key \<noteq> []" and "distinct key"
  shows "pg_accepts \<lparr>td_columns = map (\<lambda>(c, ty). (c, conv ty)) cols, td_key = key\<rparr>"
proof -
  have names: "map fst (map (\<lambda>(c, ty). (c, conv ty)) cols) = map fst cols" by (simp add: case_prod_beta comp_def)
  have prov: "c \<notin> set PROPOSAL_PROV" if "c \<in> fst ` set cols" for c
    using assms(1) that by (auto simp: well_shaped_def list_all_iff)
  have "''source'' \<in> set PROPOSAL_PROV" by (simp add: PROPOSAL_PROV_def)
  moreover have "set key \<subseteq> fst ` set cols" using assms(1) by (simp add: well_shaped_def)
  ultimately have "''source'' \<notin> set key" using prov by blast
  moreover have "distinct PROPOSAL_PROV" by (simp add: PROPOSAL_PROV_def)
  moreover have "set (map fst cols) \<inter> set PROPOSAL_PROV = {}" using prov by auto
  ultimately show ?thesis using assms by (simp add: pg_accepts_def names well_shaped_def del: map_map)
qed

lemma approve_apply_ok:
  assumes ok: "all_ok env" and "well_planned a" and ready: "av_chosen a = ClickHouse \<Longrightarrow> pe_ch env \<noteq> None"
    and accepts: "av_chosen a = Postgres \<Longrightarrow> pg_accepts (av_ddl a)"
    and ch: "plan_table (pg_type_to_ch \<circ> type_text) (av_plan a) = Inr (av_schema a, av_table a, d)"
  shows "\<exists>tb ch. approve_apply env a pid reviewer w = (Some (Inr (applied_json a)), done_world a pid reviewer tb ch w) \<and>
           engine_effect a w tb ch"
proof -
  obtain r w' where step: "approve_apply env a pid reviewer w = (r, w')" by fastforce
  have stmts: "pe_stmt env x = Inr ()" for x using ok by (simp add: all_ok_def)
  have good: "\<exists>j. r = Some (Inr j)"
  proof (cases "av_chosen a")
    case Postgres
    with step stmts accepts show ?thesis
      by (auto simp: approve_apply_def Let_def book_and_commit_def record_backend_acl_status_def)
  next
    case ClickHouse
    with ready obtain exec where e: "pe_ch env = Some exec" by auto
    with ok have "exec q = Inr ()" for q by (simp add: all_ok_def)
    with ch have "ch_create_table exec (av_plan a) = Inr ()"
      by (simp add: ch_create_table_def ch_build_create_table_ddl_def)
    with step stmts e ClickHouse ch show ?thesis
      by (auto simp: approve_apply_def Let_def book_and_commit_def record_backend_acl_status_def)
  qed
  from step \<open>well_planned a\<close> show ?thesis
    by (cases rule: approve_apply_cases) (use good step in auto)
qed

definition keyed_table :: "string set \<Rightarrow> table_ddl option \<Rightarrow> bool" where
  \<comment> \<open>a table with exactly these columns and a key among them, not a generated one\<close>
  "keyed_table names tab \<longleftrightarrow>
     (case tab of
        None \<Rightarrow> False
      | Some d \<Rightarrow>
          distinct (map fst (td_columns d)) \<and> fst ` set (td_columns d) = names \<and>
          td_key d \<noteq> [] \<and> distinct (td_key d) \<and> set (td_key d) \<subseteq> names)"

lemma keyed_tableI:
  assumes "well_shaped (JObject cols) key" and "key \<noteq> []" and "distinct key" and "fst ` set cols = names"
  shows "keyed_table names (Some \<lparr>td_columns = map (\<lambda>(c, ty). (c, conv ty)) cols, td_key = key\<rparr>)"
proof -
  have n: "map fst (map (\<lambda>(c, ty). (c, conv ty)) cols) = map fst cols" by (simp add: case_prod_beta comp_def)
  moreover have "fst ` set (map (\<lambda>(c, ty). (c, conv ty)) cols) = fst ` set cols" by (metis n list.set_map)
  ultimately show ?thesis using assms by (simp add: keyed_table_def well_shaped_def del: map_map set_map)
qed

definition fresh_plan :: "string \<Rightarrow> string \<Rightarrow> columns \<Rightarrow> create_plan" where
  "fresh_plan s t cols =
     \<lparr>cp_schema = s, cp_table = t, cp_inferred = column_types cols, cp_key = infer_natural_key (map fst cols)\<rparr>"

definition fresh_ddl :: "(json \<Rightarrow> string) \<Rightarrow> columns \<Rightarrow> table_ddl" where
  "fresh_ddl conv cols =
     \<lparr>td_columns = map (\<lambda>(c, ty). (c, conv ty)) (column_types cols), td_key = infer_natural_key (map fst cols)\<rparr>"

definition fresh_approval :: "string \<Rightarrow> string \<Rightarrow> string \<Rightarrow> columns \<Rightarrow> approval" where
  "fresh_approval s t role cols =
     \<lparr>av_plan = fresh_plan s t cols, av_role = role, av_chosen = suggest_backend (infer_natural_key (map fst cols)),
      av_schema = s, av_table = t, av_ddl = fresh_ddl pg_type cols\<rparr>"

lemma fresh_fields:
  "pr_schema (fresh_proposal now s t role sub records cols skipped) = s"
  "pr_table (fresh_proposal now s t role sub records cols skipped) = t"
  "pr_role (fresh_proposal now s t role sub records cols skipped) = role"
  "pr_sub (fresh_proposal now s t role sub records cols skipped) = sub"
  "pr_status (fresh_proposal now s t role sub records cols skipped) = ''pending''"
  "pr_columns (fresh_proposal now s t role sub records cols skipped) = JObject (column_types cols)"
  "pr_key (fresh_proposal now s t role sub records cols skipped) = infer_natural_key (map fst cols)"
  "pr_backend (fresh_proposal now s t role sub records cols skipped) = backend_str (suggest_backend (infer_natural_key (map fst cols)))"
  by (simp_all add: fresh_proposal_def Let_def)

lemma fresh_plan_table:
  assumes "collect_columns PROPOSAL_PROV records = (cols, skipped)" and "cols \<noteq> []" and "clean_ident s" and "clean_ident t"
  shows "plan_table conv (fresh_plan s t cols) = Inr (s, t, fresh_ddl conv cols)"
    and "keyed_table (usable_names records) (Some (fresh_ddl conv cols))"
    and "pg_accepts (fresh_ddl conv cols)"
proof -
  have shape: "well_shaped (JObject (column_types cols)) (infer_natural_key (map fst cols))" using fresh_shape [OF assms(1,2)] .
  have key: "infer_natural_key (map fst cols) \<noteq> []" "distinct (infer_natural_key (map fst cols))"
    using infer_natural_key_ok [of "map fst cols"] assms(2) collect_good [OF assms(1)] by (simp_all add: good_columns_def)
  have names: "fst ` set (column_types cols) = usable_names records"
    using collect_columns_names [of records] assms(1) column_types_names [of cols] by (metis fst_conv list.set_map)
  show "plan_table conv (fresh_plan s t cols) = Inr (s, t, fresh_ddl conv cols)"
    unfolding fresh_plan_def fresh_ddl_def by (rule plan_table_shaped [OF shape assms(3,4)])
  show "keyed_table (usable_names records) (Some (fresh_ddl conv cols))"
    unfolding fresh_ddl_def by (rule keyed_tableI [OF shape key names])
  show "pg_accepts (fresh_ddl conv cols)"
    unfolding fresh_ddl_def by (rule pg_accepts_shaped [OF shape key])
qed

lemma fresh_builder_approval:
  assumes p: "map_of (pw_props w) pid = Some (fresh_proposal now s t role (i_sub ident) records cols skipped)"
    and ok: "all_ok env" and ch: "pe_ch env \<noteq> None"
    and plan: "plan_table pg_type (fresh_plan s t cols) = Inr (s, t, fresh_ddl pg_type cols)"
  shows "builder_approval env ident pid w = Inr (fresh_approval s t role cols)"
proof -
  have stmts: "pe_stmt env x = Inr ()" for x using ok by (simp add: all_ok_def)
  have "allow_proposer_or_admin env ident pid w = Inr ()"
    by (simp add: allow_proposer_or_admin_def is_proposer_def stmts p fresh_fields)
  moreover have "approval_for env (suggest_backend (infer_natural_key (map fst cols)))
      (fresh_proposal now s t role (i_sub ident) records cols skipped) = Inr (fresh_approval s t role cols)"
    using ch plan by (simp add: approval_for_def fresh_fields fresh_approval_def fresh_plan_def Let_def)
  ultimately show ?thesis
    by (simp add: builder_approval_def approve_read_def stmts still_pending_def p fresh_fields chosen_backend_def)
qed

lemma fresh_approval_applies:
  assumes p: "map_of (pw_props w) pid = Some (fresh_proposal now s t role (i_sub ident) records cols skipped)"
    and ok: "all_ok env" and ch: "pe_ch env \<noteq> None"
    and c: "collect_columns PROPOSAL_PROV records = (cols, skipped)" "cols \<noteq> []" and clean: "clean_ident s" "clean_ident t"
  shows "\<exists>tb ch. builder_approve_proposal env ident pid w =
           (Some (Inr (applied_json (fresh_approval s t role cols))), done_world (fresh_approval s t role cols) pid (i_sub ident) tb ch w) \<and>
         engine_effect (fresh_approval s t role cols) w tb ch \<and>
         approved pid (fresh_proposal now s t role (i_sub ident) records cols skipped) (i_sub ident)
           (av_chosen (fresh_approval s t role cols)) w
           (done_world (fresh_approval s t role cols) pid (i_sub ident) tb ch w)"
proof -
  let ?p = "fresh_proposal now s t role (i_sub ident) records cols skipped"
  let ?a = "fresh_approval s t role cols"
  note plan = fresh_plan_table [OF c clean]
  have built: "builder_approval env ident pid w = Inr ?a"
    using fresh_builder_approval [OF p ok ch plan(1)] .
  have well_planned: "well_planned ?a" using plan(1) by (simp add: well_planned_def fresh_approval_def)
  have "plan_table (pg_type_to_ch \<circ> type_text) (av_plan ?a) = Inr (av_schema ?a, av_table ?a, fresh_ddl (pg_type_to_ch \<circ> type_text) cols)"
    using plan(1) by (simp add: fresh_approval_def)
  moreover have "pg_accepts (av_ddl ?a)" using plan(3) by (simp add: fresh_approval_def)
  ultimately have "\<exists>tb ch'. approve_apply env ?a pid (i_sub ident) w =
      (Some (Inr (applied_json ?a)), done_world ?a pid (i_sub ident) tb ch' w) \<and> engine_effect ?a w tb ch'"
    using ch by (intro approve_apply_ok [OF ok well_planned]) simp_all
  then obtain tb ch' where run: "approve_apply env ?a pid (i_sub ident) w =
      (Some (Inr (applied_json ?a)), done_world ?a pid (i_sub ident) tb ch' w)" and eff: "engine_effect ?a w tb ch'"
    by blast
  have "approved pid ?p (i_sub ident) (av_chosen ?a) w (done_world ?a pid (i_sub ident) tb ch' w)"
    using p well_planned clean
    by (intro done_world_approved [OF _ _ eff])
      (simp_all add: pending_Some fresh_fields approval_of_def norm_ident_idem fresh_approval_def fresh_plan_def)
  with run eff show ?thesis by (auto simp: builder_approve_proposal_def carry_out_def built)
qed


section \<open>Where the negotiation falls short\<close>

lemma rejection_can_be_overtaken:
  \<comment> \<open>an approval that read before a rejection applies the proposal after it: its last statement does not ask
    for the status again\<close>
  assumes "approve_read env pid override w = Inr a" and "reject env' pid reviewer notes w = (Inr j, w1)"
    and "approve_apply env a pid reviewer' w1 = (Some (Inr j'), w2)"
  shows "map_option pr_status (map_of (pw_props w1) pid) = Some ''rejected'' \<and>
         map_option pr_status (map_of (pw_props w2) pid) = Some ''applied''"
proof -
  obtain p where p: "map_of (pw_props w) pid = Some p" "approval_of (chosen_backend override p) p a"
    using assms(1) by (rule approve_read_Inr) (simp add: pending_Some)
  have "pw_props w1 = pw_props (update_proposal pid
      (\<lambda>p. p\<lparr>pr_status := ''rejected'', pr_reviewer := Some reviewer, pr_notes := notes\<rparr>) w)"
    using assms(2) by (cases rule: reject_cases) simp_all
  then have 1: "map_of (pw_props w1) pid = Some (p\<lparr>pr_status := ''rejected'', pr_reviewer := Some reviewer, pr_notes := notes\<rparr>)"
    using p(1) by (simp add: map_of_update)
  have "well_planned a" using p(2) by (simp add: approval_of_def)
  with assms(3) have "\<exists>tb ch. w2 = done_world a pid reviewer' tb ch w1" by (cases rule: approve_apply_cases) auto
  then have "map_option pr_status (map_of (pw_props w2) pid) = Some ''applied''"
    using 1 by (auto simp: done_world_props map_of_update)
  with 1 show ?thesis by simp
qed

lemma approval_grants_existing_tables:
  \<comment> \<open>when the table is there already the statement creates nothing, and the role gets its grant\<close>
  assumes "approve env pid reviewer override w = (Some (Inr j), w')" and "still_pending pid w = Some p"
    and "chosen_backend override p = Postgres" and "norm_ident (pr_schema p) = Some s" "norm_ident (pr_table p) = Some t"
    and "pw_tables w (s, t) \<noteq> None"
  shows "pw_tables w' = pw_tables w \<and> map_of (pw_acl w') (pr_role p, s, t) = Some True"
proof -
  obtain a where a: "approve_read env pid override w = Inr a" "approve_apply env a pid reviewer w = (Some (Inr j), w')"
    using assms(1) by (auto simp: approve_def split: sum.splits)
  from a(1) have of: "approval_of Postgres p a"
    by (rule approve_read_Inr) (use assms(2,3) in simp)
  then have "well_planned a" by (simp add: approval_of_def)
  with a(2) obtain tb ch where "w' = done_world a pid reviewer tb ch w" "engine_effect a w tb ch"
    by (cases rule: approve_apply_cases) auto
  with of assms(4-6) done_world_approved [OF assms(2) of, where reviewer = reviewer] show ?thesis
    by (auto simp: done_world_tables engine_effect_def approval_of_def create_if_absent_def approved_def)
qed

lemma counter_without_key_drops_it:
  \<comment> \<open>the key of a counter-proposal may be left out; the table then gets a generated \<open>id\<close>, which the merge
    cannot target\<close>
  "validate_schema columns [] = Inr (cols, k) \<Longrightarrow> k = [] \<and> plan_key (p\<lparr>cp_key := k\<rparr>) = []"
  by (auto simp: validate_schema_def Let_def map_filter_simps plan_key_def split: json.splits if_splits)

lemma id_becomes_a_key_no_caller_may_send:
  assumes "''id'' \<in> usable_names records" and "collect_columns PROPOSAL_PROV records = (cols, skipped)"
  shows "''id'' \<in> set (pr_key (fresh_proposal at s t role sub records cols skipped))"
    and "key_error meta ''id'' \<noteq> None"
proof -
  have "''id'' \<in> set (map fst cols)" using assms collect_columns_names [of records] by simp
  moreover have "identity_shaped (to_lowercase ''id'')" by code_simp
  ultimately show "''id'' \<in> set (pr_key (fresh_proposal at s t role sub records cols skipped))"
    by (auto simp: fresh_fields infer_natural_key_def Let_def filter_empty_conv)
  show "key_error meta ''id'' \<noteq> None" by (simp add: key_error_def SERVER_STAMPED_COLS_def)
qed

lemma large_numbers_are_inferred_bigint: "infer_type [JNumber (NInt (2 ^ 63))] = ''bigint''"
  by (simp add: infer_type_def)

section \<open>Samples\<close>

definition sample_proposal_env :: proposal_env where
  "sample_proposal_env =
     \<lparr>pe_stmt = \<lambda>_. Inr (), pe_new_id = ''p1'', pe_now = 7, pe_refused = [], pe_ch = Some (\<lambda>_. Inr ()),
      pe_settings = from_env (\<lambda>_. None), pe_ask = \<lambda>_ _ _. None, pe_from_str = \<lambda>_. None\<rparr>"

definition empty_proposals :: proposal_world where
  "empty_proposals =
     \<lparr>pw_props = [], pw_tables = (\<lambda>n. if n = (''public'', ''orders'') then Some \<lparr>td_columns = [], td_key = [''id'']\<rparr> else None),
      pw_ch = \<lambda>_. None, pw_backends = \<lambda>_. None, pw_acl = [], pw_acl_cache = \<lparr>ac_map = [], ac_loaded_at = None\<rparr>,
      pw_kinds = \<lambda>_. None\<rparr>"

definition proposal_records :: "json list" where
  "proposal_records = [JObject [(''Sensor_Id'', JString ''a''), (''value'', JNumber (NInt 3)), (''source'', JNull)]]"

definition builder :: identity where
  "builder = \<lparr>i_sub = ''bob'', i_role = ''guest'', i_email = None, i_active = True, i_scopes = []\<rparr>"

definition opened_world :: "string \<Rightarrow> string \<Rightarrow> proposal_world" where
  "opened_world sch tbl =
     snd (create_proposal sample_proposal_env sch tbl ''guest'' ''bob'' proposal_records empty_proposals)"

lemma sample_names:
  "norm_ident ''obs'' = Some ''obs''" "norm_ident ''Ticks'' = Some ''ticks''" "norm_ident ''public'' = Some ''public''"
  "norm_ident ''Orders'' = Some ''orders''" "norm_ident ''Sensor_Id'' = Some ''sensor_id''" "norm_ident ''value'' = Some ''value''"
  "norm_ident ''source'' = Some ''source''"
  by (subst norm_ident_plain; code_simp)+

abbreviation "sample_cols \<equiv> [(''sensor_id'', [JString ''a'']), (''value'', [JNumber (NInt 3)])]"

lemma sample_collected: "collect_columns PROPOSAL_PROV proposal_records = (sample_cols, [])"
  by (simp add: collect_columns_def proposal_records_def collect_entry_def sample_names PROPOSAL_PROV_def)

lemma opened_world_props:
  assumes "norm_ident sch = Some s" and "norm_ident tbl = Some t"
  shows "opened_world sch tbl =
    empty_proposals\<lparr>pw_props := [(''p1'', fresh_proposal 7 s t ''guest'' ''bob'' proposal_records sample_cols [])]\<rparr>"
  by (simp add: opened_world_def create_proposal_def assms sample_collected sample_proposal_env_def empty_proposals_def Let_def)

definition closed_world :: proposal_world where
  "closed_world = snd (builder_reject_proposal sample_proposal_env builder ''p1'' (opened_world ''obs'' ''Ticks''))"

lemma opened_pending:
  assumes "norm_ident sch = Some s" and "norm_ident tbl = Some t"
  shows "still_pending ''p1'' (opened_world sch tbl) = Some (fresh_proposal 7 s t ''guest'' ''bob'' proposal_records sample_cols [])"
  by (simp add: still_pending_def opened_world_props [OF assms] fresh_fields)

lemma sample_reject:
  "closed_world = update_proposal ''p1''
     (\<lambda>p. p\<lparr>pr_status := ''rejected'', pr_reviewer := Some ''bob'', pr_notes := None\<rparr>) (opened_world ''obs'' ''Ticks'')"
proof -
  note opened_pending [OF sample_names(1,2)]
  moreover have "allow_proposer_or_admin sample_proposal_env builder ''p1'' (opened_world ''obs'' ''Ticks'') = Inr ()"
    by (simp add: allow_proposer_or_admin_def is_admin_def is_proposer_def builder_def sample_proposal_env_def
        opened_world_props [OF sample_names(1,2)] fresh_fields)
  ultimately show ?thesis
    by (simp add: closed_world_def builder_reject_proposal_def reject_def sample_proposal_env_def builder_def)
qed

lemma closed_status:
  "map_of (pw_props closed_world) ''p1'' = Some ((fresh_proposal 7 ''obs'' ''ticks'' ''guest'' ''bob'' proposal_records sample_cols [])
     \<lparr>pr_status := ''rejected'', pr_reviewer := Some ''bob'', pr_notes := None\<rparr>)"
  by (simp add: sample_reject map_of_update opened_world_props [OF sample_names(1,2)])

theorem proposal_lifecycle_witness:
  "\<exists>p'. map_of (pw_props closed_world) ''p1'' = Some p' \<and>
     same_proposal (fresh_proposal 7 ''obs'' ''ticks'' ''guest'' ''bob'' proposal_records sample_cols []) p' \<and>
     proposal_ok closed_world p'"
proof (rule proposal_lifecycle)
  show "pw_props empty_proposals = []" by (simp add: empty_proposals_def)
  have "prop_step (empty_proposals, []) (opened_world ''obs'' ''Ticks'', [])"
    unfolding opened_world_def by (rule prop_step.opened [OF _ prod.collapse [symmetric]]) (simp add: empty_proposals_def)
  then show "prop_step\<^sup>*\<^sup>* (empty_proposals, []) (opened_world ''obs'' ''Ticks'', [])" by (rule r_into_rtranclp)
  show "map_of (pw_props (opened_world ''obs'' ''Ticks'')) ''p1'' =
      Some (fresh_proposal 7 ''obs'' ''ticks'' ''guest'' ''bob'' proposal_records sample_cols [])"
    by (simp add: opened_world_props [OF sample_names(1,2)])
  have "prop_step (opened_world ''obs'' ''Ticks'', []) (closed_world, [])"
    unfolding closed_world_def by (rule prop_step.rejected, rule disjI2, rule prod.collapse [symmetric])
  then show "prop_step\<^sup>*\<^sup>* (opened_world ''obs'' ''Ticks'', []) (closed_world, [])" by (rule r_into_rtranclp)
qed

theorem negotiation_is_authorized_witness: "may_negotiate builder ''p1'' (opened_world ''obs'' ''Ticks'')"
proof -
  have "closed_world \<noteq> opened_world ''obs'' ''Ticks''"
    using closed_status opened_pending [OF sample_names(1,2)] by (auto simp: still_pending_def)
  then have "snd (builder_reject_proposal sample_proposal_env builder ''p1'' (opened_world ''obs'' ''Ticks'')) \<noteq>
      opened_world ''obs'' ''Ticks''" by (simp add: closed_world_def)
  with negotiation_is_authorized [of sample_proposal_env builder "''p1''" None "opened_world ''obs'' ''Ticks''"]
  show ?thesis by blast
qed


lemma case_variant_takes_over_a_table:
  \<comment> \<open>a table \<open>public.orders\<close> exists; a caller who may only propose names it \<open>public.Orders\<close>, which the gate does not
    find, and approves the proposal: the table is as before, and the caller's role may write it\<close>
  "\<exists>j w'. builder_approve_proposal sample_proposal_env builder ''p1'' (opened_world ''public'' ''Orders'') = (Some (Inr j), w') \<and>
     map_of (pw_acl empty_proposals) (''guest'', ''public'', ''orders'') = None \<and>
     pw_tables w' = pw_tables empty_proposals \<and> map_of (pw_acl w') (''guest'', ''public'', ''orders'') = Some True"
proof -
  let ?w = "opened_world ''public'' ''Orders''"
  let ?p = "fresh_proposal 7 ''public'' ''orders'' ''guest'' (i_sub builder) proposal_records sample_cols []"
  have p: "map_of (pw_props ?w) ''p1'' = Some ?p" by (simp add: opened_world_props [OF sample_names(3,4)] builder_def)
  have env: "all_ok sample_proposal_env" "pe_ch sample_proposal_env \<noteq> None"
    by (simp_all add: all_ok_def sample_proposal_env_def)
  have clean: "clean_ident ''public''" "clean_ident ''orders''" using norm_ident_clean sample_names(3,4) by blast+
  from fresh_approval_applies [OF p env sample_collected _ clean] obtain tb ch where
      run: "builder_approve_proposal sample_proposal_env builder ''p1'' ?w =
        (Some (Inr (applied_json (fresh_approval ''public'' ''orders'' ''guest'' sample_cols))),
         done_world (fresh_approval ''public'' ''orders'' ''guest'' sample_cols) ''p1'' (i_sub builder) tb ch ?w)"
      and eff: "engine_effect (fresh_approval ''public'' ''orders'' ''guest'' sample_cols) ?w tb ch"
      and acl: "approved ''p1'' ?p (i_sub builder) (av_chosen (fresh_approval ''public'' ''orders'' ''guest'' sample_cols)) ?w
        (done_world (fresh_approval ''public'' ''orders'' ''guest'' sample_cols) ''p1'' (i_sub builder) tb ch ?w)"
    by blast
  have "suggest_backend (infer_natural_key (map fst sample_cols)) = Postgres" by code_simp
  with eff have "tb = pw_tables empty_proposals"
    by (simp add: engine_effect_def fresh_approval_def create_if_absent_def opened_world_props [OF sample_names(3,4)] empty_proposals_def)
  moreover have "map_of (pw_acl (done_world (fresh_approval ''public'' ''orders'' ''guest'' sample_cols) ''p1'' (i_sub builder) tb ch ?w))
      (''guest'', ''public'', ''orders'') = Some True"
    using acl clean by (auto simp: approved_def fresh_fields norm_ident_idem)
  moreover have "map_of (pw_acl empty_proposals) (''guest'', ''public'', ''orders'') = None" by (simp add: empty_proposals_def)
  ultimately show ?thesis using run by (auto simp: done_world_tables)
qed

end
