(* ===== verification/Clickhouse.thy ===== *)
theory Clickhouse
  imports Table_Plan
begin

text \<open>
  The ClickHouse backend (\<open>backend/clickhouse.rs\<close>): what it reports of a table, the
  stamped rows it inserts, and reads.  A table is the list of its rows in the order
  of their insertion, an entry list each.  A statement that fails stores nothing.

  The HTTP client, the printers of \<open>serde_json\<close> and \<open>chrono\<close> and the JSON reader are
  arguments.  \<open>final_rows\<close> is the documented effect of the engine \<open>ReplacingMergeTree\<close>, read
  with \<open>FINAL\<close>: of the rows with the same sorting key the one with the greatest version
  stays, of several such the one inserted last.
\<close>

section \<open>Metadata\<close>

definition parse_ch_type :: "string \<Rightarrow> string \<times> bool" where
  "parse_ch_type ty =
     (let t = trim ty
      in case strip_prefix ''Nullable('' t of
           Some r \<Rightarrow> (if r \<noteq> [] \<and> last r = CHR '')'' then (trim (butlast r), True) else (t, False))
         | None \<Rightarrow> (t, False))"

definition trim_char :: "char \<Rightarrow> string \<Rightarrow> string" where
  "trim_char c s = rev (dropWhile ((=) c) (rev (dropWhile ((=) c) s)))"

definition sorting_cols :: "string \<Rightarrow> string list" where
  "sorting_cols sk = filter (\<lambda>s. s \<noteq> []) (map (\<lambda>s. trim_char (CHR 0x60) (trim s)) (split_on (CHR '','') sk))"

definition ch_column :: "string \<times> string \<Rightarrow> column_info" where
  "ch_column = (\<lambda>(name, ty).
     (case parse_ch_type ty of
        (dt, nullable) \<Rightarrow>
          \<lparr>c_name = name, c_data_type = dt, c_udt_name = dt, c_is_nullable = nullable, c_has_default = False\<rparr>))"

definition ch_table_meta ::
  "(string \<Rightarrow> string \<Rightarrow> string + (string \<times> string) list) \<Rightarrow> (string \<Rightarrow> string \<Rightarrow> string + string option) \<Rightarrow>
     string \<Rightarrow> string \<Rightarrow> table_meta option api_result" where
  \<comment> \<open>the functions read \<open>system.columns\<close> and the sorting key of \<open>system.tables\<close>\<close>
  "ch_table_meta rd_cols rd_key sch tbl =
     (case rd_cols sch tbl of
        Inl e \<Rightarrow> Inl (Internal (''clickhouse system.columns: '' @ e))
      | Inr cols \<Rightarrow>
          (if cols = [] then Inr None
           else
             (case rd_key sch tbl of
                Inl e \<Rightarrow> Inl (Internal (''clickhouse system.tables: '' @ e))
              | Inr sk \<Rightarrow>
                  Inr (Some \<lparr>tm_columns = map ch_column cols,
                             tm_conflict_cols = (case sk of Some k \<Rightarrow> sorting_cols k | None \<Rightarrow> [])\<rparr>))))"

section \<open>Writing\<close>

type_synonym ch_row = "(string \<times> json) list"

definition ch_row :: "printers \<Rightarrow> string list \<Rightarrow> stamp \<Rightarrow> json \<Rightarrow> ch_row" where
  "ch_row pr writable s rec =
     (let picked = (case rec of
                      JObject obj \<Rightarrow>
                        fold (\<lambda>c row. case map_of obj c of Some v \<Rightarrow> insert_key c v row | None \<Rightarrow> row) writable []
                    | _ \<Rightarrow> [])
      in insert_key ''raw'' (JString (show_json pr rec))
           (insert_key ''ingest_ts'' (JString (st_now s))
             (insert_key ''source_run_id'' (JString (st_run_id s))
               (insert_key ''source_endpoint'' (JString (st_endpoint s))
                 (insert_key ''source'' (JString (st_source s)) picked)))))"

definition ch_writable :: "table_meta \<Rightarrow> string list" where
  "ch_writable meta = filter (\<lambda>c. c \<notin> set SERVER_STAMPED_COLS) (map c_name (tm_columns meta))"

definition ch_body :: "printers \<Rightarrow> ch_row list \<Rightarrow> string" where
  "ch_body pr rows = concat (map (\<lambda>r. show_json pr (JObject r) @ nl) rows)"

definition ch_insert_sql :: "string \<Rightarrow> string \<Rightarrow> string \<Rightarrow> string" where
  "ch_insert_sql s t body = ''INSERT INTO '' @ backticked s @ ''.'' @ backticked t @ '' FORMAT JSONEachRow'' @ nl @ body"

definition ch_write_records ::
  "printers \<Rightarrow> (string \<Rightarrow> string + unit) \<Rightarrow> string \<Rightarrow> string \<Rightarrow> table_meta \<Rightarrow> stamp \<Rightarrow> json list \<Rightarrow> ch_row list \<Rightarrow>
     (int \<times> int) api_result \<times> ch_row list" where
  "ch_write_records pr exec sch tbl meta s records rows =
     (if records = [] then (Inr (0, 0), rows)
      else
        (case norm_ident sch of
           None \<Rightarrow> (Inl (Internal (''bad schema '' @ debug_str sch)), rows)
         | Some sn \<Rightarrow>
             (case norm_ident tbl of
                None \<Rightarrow> (Inl (Internal (''bad table '' @ debug_str tbl)), rows)
              | Some tn \<Rightarrow>
                  (let new = map (ch_row pr (ch_writable meta) s) records
                   in case exec (ch_insert_sql sn tn (ch_body pr new)) of
                        Inl e \<Rightarrow> (Inl (Internal (''clickhouse insert: '' @ e)), rows)
                      | Inr _ \<Rightarrow> (Inr (int (length records), 0), rows @ new)))))"

section \<open>Reading\<close>

datatype ch_bind = BText string | BInt int | BFloat f64 | BBool bool

fun ch_bind_of :: "externals \<Rightarrow> bind_value \<Rightarrow> ch_bind" where
  "ch_bind_of x (VText s) = BText s"
| "ch_bind_of x (VInt i) = BInt i"
| "ch_bind_of x (VFloat f) = BFloat f"
| "ch_bind_of x (VBool b) = BBool b"
| "ch_bind_of x (VDate d) = BText (show_date x d)"
| "ch_bind_of x (VTs t) = BText (show_rfc3339 x t)"

fun parse_rows :: "(string \<Rightarrow> string + json) \<Rightarrow> string list \<Rightarrow> row list api_result" where
  "parse_rows from_str [] = Inr []"
| "parse_rows from_str (l # ls) =
     (if trim l = [] then parse_rows from_str ls
      else
        (case from_str (trim l) of
           Inl e \<Rightarrow> Inl (Internal (''clickhouse JSONEachRow parse: '' @ e))
         | Inr (JObject obj) \<Rightarrow> map_sum id ((#) obj) (parse_rows from_str ls)
         | Inr _ \<Rightarrow> parse_rows from_str ls))"

definition ch_query_rows ::
  "externals \<Rightarrow> (string \<Rightarrow> ch_bind list \<Rightarrow> (string \<times> string) + string) \<Rightarrow> (string \<Rightarrow> string) \<Rightarrow> (string \<Rightarrow> string + json) \<Rightarrow>
     bound_query \<Rightarrow> row list api_result" where
  \<comment> \<open>the functions run a query, its error being of a stage, decode its bytes loosely, and read JSON\<close>
  "ch_query_rows x fetch lossy from_str q =
     (let sql = (if bq_pre_lowered q then bq_sql q else pg_placeholders_to_ch (bq_sql q))
      in case fetch sql (map (ch_bind_of x) (bq_binds q)) of
           Inl (stage, e) \<Rightarrow> Inl (Internal (''clickhouse '' @ stage @ '': '' @ e))
         | Inr reply \<Rightarrow> parse_rows from_str (split_on (CHR 0x0A) (lossy reply)))"

definition clickhouse_backend ::
  "externals \<Rightarrow> (string \<Rightarrow> ch_bind list \<Rightarrow> (string \<times> string) + string) \<Rightarrow> (string \<Rightarrow> string) \<Rightarrow> (string \<Rightarrow> string + json) \<Rightarrow>
     (string \<Rightarrow> int) \<Rightarrow> backend" where
  \<comment> \<open>the role of a read is ignored; the last function is how long a query takes\<close>
  "clickhouse_backend x fetch lossy from_str elapsed =
     \<lparr>bk_kind = ClickHouse, bk_query = \<lambda>q role. (elapsed (bq_sql q), ch_query_rows x fetch lossy from_str q)\<rparr>"

section \<open>The storage interface\<close>

interpretation ch_backend: storage_backend "ch_write_records pr exec sch tbl" for pr exec sch tbl
proof
  show "ch_write_records pr exec sch tbl meta s rs st = (Inl e, st') \<Longrightarrow> st' = st" for meta s rs st e st'
    by (auto simp: ch_write_records_def Let_def split: if_splits option.splits sum.splits)
  show "ch_write_records pr exec sch tbl meta s [] st = (Inr (0, 0), st)" for meta s st
    by (simp add: ch_write_records_def)
  show "0 \<le> i \<and> 0 \<le> u \<and> i + u \<le> int (length rs)"
    if "ch_write_records pr exec sch tbl meta s rs st = (Inr (i, u), st')" for meta s rs st i u st'
    using that by (auto simp: ch_write_records_def Let_def split: if_splits option.splits sum.splits)
qed

lemma ch_write_Inr:
  assumes "ch_write_records pr exec sch tbl meta s records rows = (Inr c, rows')"
  shows "rows' = rows @ map (ch_row pr (ch_writable meta) s) records"
  using assms by (auto simp: ch_write_records_def Let_def split: if_splits option.splits sum.splits)

section \<open>Stored rows\<close>

lemma map_of_insert_key: "map_of (insert_key k v r) c = (if c = k then Some v else map_of r c)"
  by (induction k v r rule: insert_key.induct) auto

lemma map_of_picked:
  "map_of (fold (\<lambda>c row. case map_of obj c of Some v \<Rightarrow> insert_key c v row | None \<Rightarrow> row) cs row) c =
     (if c \<in> set cs \<and> map_of obj c \<noteq> None then map_of obj c else map_of row c)"
  by (induction cs arbitrary: row) (auto simp: map_of_insert_key split: option.split)

definition stamp_of :: "printers \<Rightarrow> stamp \<Rightarrow> json \<Rightarrow> string \<Rightarrow> json option" where
  "stamp_of pr s rec =
     [''source'' \<mapsto> JString (st_source s), ''source_endpoint'' \<mapsto> JString (st_endpoint s),
      ''source_run_id'' \<mapsto> JString (st_run_id s), ''ingest_ts'' \<mapsto> JString (st_now s), ''raw'' \<mapsto> JString (show_json pr rec)]"

definition sent :: "table_meta \<Rightarrow> json \<Rightarrow> string \<Rightarrow> json option" where
  \<comment> \<open>what the caller sends for a column he may write\<close>
  "sent meta rec c = (case rec of JObject obj \<Rightarrow> if c \<in> set (ch_writable meta) then map_of obj c else None | _ \<Rightarrow> None)"

lemma ch_row_cells: "map_of (ch_row pr (ch_writable meta) s rec) = sent meta rec ++ stamp_of pr s rec"
proof
  fix c
  show "map_of (ch_row pr (ch_writable meta) s rec) c = (sent meta rec ++ stamp_of pr s rec) c"
    by (cases rec) (auto simp: ch_row_def Let_def map_of_insert_key map_of_picked stamp_of_def sent_def map_add_def)
qed

section \<open>The merged view\<close>

definition ch_key :: "string list \<Rightarrow> ch_row \<Rightarrow> json option list" where
  "ch_key ks r = map (map_of r) ks"

definition version :: "ch_row \<Rightarrow> string" where
  "version r = (case map_of r ''ingest_ts'' of Some (JString t) \<Rightarrow> t | _ \<Rightarrow> [])"

fun final_add :: "string list \<Rightarrow> ch_row \<Rightarrow> ch_row list \<Rightarrow> ch_row list" where
  "final_add ks r [] = [r]"
| "final_add ks r (x # xs) =
     (if ch_key ks x = ch_key ks r then (if version r < version x then x else r) # xs else x # final_add ks r xs)"

definition final_rows :: "string list \<Rightarrow> ch_row list \<Rightarrow> ch_row list" where
  "final_rows ks rows = fold (final_add ks) rows []"

definition row_of :: "string list \<Rightarrow> json option list \<Rightarrow> ch_row list \<Rightarrow> ch_row option" where
  "row_of ks k rows = find (\<lambda>r. ch_key ks r = k) (final_rows ks rows)"

definition last_with :: "('a \<Rightarrow> bool) \<Rightarrow> 'a list \<Rightarrow> 'a option" where
  "last_with p xs = find p (rev xs)"

lemma last_with_snoc: "last_with p (xs @ [x]) = (if p x then Some x else last_with p xs)"
  by (simp add: last_with_def)

lemma find_final_add:
  "find (\<lambda>x. ch_key ks x = k) (final_add ks r xs) =
     (if ch_key ks r = k then
        (case find (\<lambda>x. ch_key ks x = k) xs of Some x \<Rightarrow> Some (if version r < version x then x else r) | None \<Rightarrow> Some r)
      else find (\<lambda>x. ch_key ks x = k) xs)"
  by (induction ks r xs rule: final_add.induct) auto

lemma final_add_versions: "x \<in> set (final_add ks r xs) \<Longrightarrow> x = r \<or> x \<in> set xs"
  by (induction ks r xs rule: final_add.induct) (auto split: if_splits)

lemma final_rows_subset: "set (final_rows ks rows) \<subseteq> set rows"
proof -
  have "set (fold (final_add ks) rows acc) \<subseteq> set rows \<union> set acc" for acc
    by (induction rows arbitrary: acc) (auto dest: final_add_versions)
  from this [of "[]"] show ?thesis by (simp add: final_rows_def)
qed

lemma row_of_snoc:
  assumes "\<forall>x \<in> set rows. version x \<le> version r"
  shows "row_of ks k (rows @ [r]) = (if ch_key ks r = k then Some r else row_of ks k rows)"
proof -
  have "\<not> version r < version x" if "find (\<lambda>x. ch_key ks x = k) (final_rows ks rows) = Some x" for x
  proof -
    have "x \<in> set (final_rows ks rows)" using that by (auto simp: find_Some_iff)
    then show ?thesis using final_rows_subset assms by (meson leD subsetD)
  qed
  then show ?thesis by (auto simp: row_of_def final_rows_def find_final_add split: option.split)
qed

lemma row_of_append:
  assumes "\<forall>x \<in> set rows. \<forall>r \<in> set new. version x \<le> version r" and "\<forall>r \<in> set new. version r = v"
  shows "row_of ks k (rows @ new) =
           (case last_with (\<lambda>r. ch_key ks r = k) new of Some r \<Rightarrow> Some r | None \<Rightarrow> row_of ks k rows)"
  using assms
proof (induction new rule: rev_induct)
  case (snoc r new)
  have le: "\<forall>x \<in> set (rows @ new). version x \<le> version r" using snoc.prems by auto
  have "row_of ks k (rows @ new @ [r]) = row_of ks k ((rows @ new) @ [r])" by simp
  also have "\<dots> = (if ch_key ks r = k then Some r else row_of ks k (rows @ new))" using row_of_snoc [OF le] .
  moreover have "row_of ks k (rows @ new) = (case last_with (\<lambda>r. ch_key ks r = k) new of Some r \<Rightarrow> Some r | None \<Rightarrow> row_of ks k rows)"
    using snoc.prems by (intro snoc.IH) auto
  ultimately show ?case by (simp add: last_with_snoc)
qed (simp add: last_with_def)

lemma final_add_distinct:
  "distinct (map (ch_key ks) xs) \<Longrightarrow> distinct (map (ch_key ks) (final_add ks r xs))"
proof (induction ks r xs rule: final_add.induct)
  case (2 ks r x xs)
  have "ch_key ks y = ch_key ks r \<or> y \<in> set xs" if "y \<in> set (final_add ks r xs)" for y
    using final_add_versions [OF that] by auto
  then have "ch_key ks x \<notin> ch_key ks ` set (final_add ks r xs)" if "ch_key ks x \<noteq> ch_key ks r"
    using 2(2) that by fastforce
  with 2 show ?case by auto
qed simp

lemma final_rows_distinct: "distinct (map (ch_key ks) (final_rows ks rows))"
proof -
  have "distinct (map (ch_key ks) acc) \<Longrightarrow> distinct (map (ch_key ks) (fold (final_add ks) rows acc))" for acc
    by (induction rows arbitrary: acc) (simp_all add: final_add_distinct)
  then show ?thesis by (simp add: final_rows_def)
qed

lemma version_row: "version (ch_row pr (ch_writable meta) s rec) = st_now s"
  by (simp add: version_def ch_row_cells stamp_of_def)

lemma ch_write_view:
  assumes "ch_write_records pr exec sch tbl meta s records rows = (Inr c, rows')"
    and "\<forall>x \<in> set rows. version x \<le> st_now s"
  shows "row_of ks k rows' =
           (case last_with (\<lambda>r. ch_key ks r = k) (map (ch_row pr (ch_writable meta) s) records) of
              Some r \<Rightarrow> Some r
            | None \<Rightarrow> row_of ks k rows)"
  unfolding ch_write_Inr [OF assms(1)]
  using assms(2) by (intro row_of_append [where v = "st_now s"]) (auto simp: version_row)


subsection \<open>Writing the same records again\<close>

definition RUN_STAMPS :: "string set" where
  "RUN_STAMPS = {''source_endpoint'', ''source_run_id'', ''ingest_ts''}"

definition cells :: "ch_row \<Rightarrow> string \<Rightarrow> json option" where
  \<comment> \<open>a row without what tells of its run\<close>
  "cells r = (map_of r) |` (- RUN_STAMPS)"

lemma last_with_map: "last_with p (map f xs) = map_option f (last_with (p \<circ> f) xs)"
  by (induction xs rule: rev_induct) (simp_all add: last_with_snoc last_with_def)

lemma cells_of_row:
  "st_source s' = st_source s \<Longrightarrow> cells (ch_row pr w s' rec) = cells (ch_row pr w s rec)"
  by (cases rec) (auto simp: cells_def restrict_map_def ch_row_def Let_def map_of_insert_key RUN_STAMPS_def fun_eq_iff)

lemma ch_key_cells:
  assumes "set ks \<inter> RUN_STAMPS = {}"
  shows "ch_key ks r = map (cells r) ks"
  using assms by (auto simp: ch_key_def cells_def restrict_map_def)

text \<open>Sending a batch again, with the same source and a later clock, changes no cell on ClickHouse:
  for every sorting key the row read with \<open>FINAL\<close> differs in the run's stamps at most.\<close>

theorem clickhouse_reingest_changes_stamps_only:
  assumes w1: "ch_write_records pr exec sch tbl meta s records rows = (Inr c, rows1)"
    and w2: "ch_write_records pr exec sch tbl meta s' records rows1 = (Inr c', rows2)"
    and src: "st_source s' = st_source s" and clock: "\<forall>x \<in> set rows. version x \<le> st_now s" "st_now s \<le> st_now s'"
    and key: "set ks \<inter> RUN_STAMPS = {}"
  shows "map_option cells (row_of ks k rows2) = map_option cells (row_of ks k rows1)"
proof -
  let ?row = "ch_row pr (ch_writable meta)"
  have later: "\<forall>x \<in> set rows1. version x \<le> st_now s'"
    using clock ch_write_Inr [OF w1] by (auto simp: version_row dest: order_trans)
  have same: "(\<lambda>r. ch_key ks r = k) \<circ> ?row s' = (\<lambda>r. ch_key ks r = k) \<circ> ?row s"
    by (rule ext) (simp only: comp_apply ch_key_cells [OF key] cells_of_row [OF src])
  show ?thesis
    using ch_write_view [OF w2 later, of ks k] ch_write_view [OF w1 clock(1), of ks k] cells_of_row [OF src]
    by (simp add: last_with_map same split: option.split)
qed

section \<open>Tables it created\<close>

definition SERVER_COLUMNS :: "(string \<times> string) list" where
  "SERVER_COLUMNS = [(''source'', ''String''), (''source_endpoint'', ''String''), (''source_run_id'', ''String''),
     (''ingest_ts'', ''DateTime64(6)''), (''raw'', ''String'')]"

definition described :: "table_ddl \<Rightarrow> (string \<times> string) list \<times> string" where
  \<comment> \<open>what the system tables hold of a table created with \<open>ch_ddl\<close>\<close>
  "described d = (td_columns d @ SERVER_COLUMNS, join '', '' (td_key d @ [''source'']))"

lemma clean_ident_chars: "clean_ident s \<Longrightarrow> c \<in> set s \<Longrightarrow> 48 \<le> code c \<and> code c \<le> 122"
  using ident_char_code [of c] by (auto simp: clean_ident_def list_all_iff)

lemma trim_clean:
  assumes "clean_ident s"
  shows "trim s = s" and "trim (CHR '' '' # s) = s" and "trim_char (CHR 0x60) s = s"
proof -
  have "hd s \<in> set s" "last s \<in> set s" using assms by (auto simp: clean_ident_def)
  then have ends: "\<not> is_whitespace (hd s)" "\<not> is_whitespace (last s)"
    using clean_ident_chars [OF assms] by (force simp: is_whitespace_def)+
  have ne: "s \<noteq> []" using assms by (simp add: clean_ident_def)
  have keep: "xs \<noteq> [] \<Longrightarrow> \<not> P (hd xs) \<Longrightarrow> dropWhile P xs = xs" for P and xs :: string
    by (cases xs) simp_all
  have start: "dropWhile is_whitespace s = s" "dropWhile is_whitespace (rev s) = rev s"
    using keep [of s is_whitespace] keep [of "rev s" is_whitespace] ends ne by (simp_all add: hd_rev)
  then show t: "trim s = s" by (simp add: trim_def trim_start_def trim_end_def)
  have "is_whitespace (CHR '' '')" by code_simp
  with t show "trim (CHR '' '' # s) = s" by (simp add: trim_def trim_start_def)
  have "CHR 0x60 \<notin> set s"
  proof
    assume "CHR 0x60 \<in> set s"
    with assms have "ident_char (CHR 0x60)" by (auto simp: clean_ident_def list_all_iff)
    then show False by code_simp
  qed
  with \<open>hd s \<in> set s\<close> \<open>last s \<in> set s\<close> have "\<not> CHR 0x60 = hd s" "\<not> CHR 0x60 = hd (rev s)"
    using ne by (auto simp only: hd_rev)
  then have "dropWhile ((=) (CHR 0x60)) s = s" "dropWhile ((=) (CHR 0x60)) (rev s) = rev s"
    using ne by (intro keep; simp)+
  then show "trim_char (CHR 0x60) s = s" by (simp only: trim_char_def rev_rev_ident)
qed

lemma split_on_append: "c \<notin> set xs \<Longrightarrow> split_on c (xs @ c # ys) = xs # split_on c ys"
  by (induction xs) auto

lemma split_on_plain: "c \<notin> set xs \<Longrightarrow> split_on c xs = [xs]"
  by (induction xs) auto

lemma sorting_cols_join:
  assumes "\<forall>x \<in> set xs. clean_ident x" and "xs \<noteq> []"
  shows "sorting_cols (join '', '' xs) = xs"
proof -
  have comma: "CHR '','' \<notin> set x" if "clean_ident x" for x
    using clean_ident_chars [OF that, of "CHR '',''"] by (auto simp: code_def)
  have ne: "x \<noteq> []" if "clean_ident x" for x using that by (simp add: clean_ident_def)
  have padded: "sorting_cols (CHR '' '' # join '', '' xs) = xs" if "\<forall>x \<in> set xs. clean_ident x" "xs \<noteq> []" for xs
    using that
  proof (induction xs)
    case (Cons x xs)
    then have x: "clean_ident x" by simp
    show ?case
    proof (cases xs)
      case Nil
      then show ?thesis using split_on_plain [of "CHR '',''" "CHR '' '' # x"] comma [OF x] ne [OF x]
        by (simp add: sorting_cols_def trim_clean [OF x])
    next
      case (Cons y ys)
      have "split_on (CHR '','') (CHR '' '' # x @ '', '' @ join '', '' xs) =
          (CHR '' '' # x) # split_on (CHR '','') (CHR '' '' # join '', '' xs)"
        using split_on_append [of "CHR '',''" "CHR '' '' # x"] comma [OF x] by simp
      moreover have "sorting_cols (CHR '' '' # join '', '' xs) = xs" using Cons Cons.IH \<open>\<forall>x\<in>set (x # xs). clean_ident x\<close> by simp
      ultimately show ?thesis using ne [OF x] Cons by (simp add: sorting_cols_def join_Cons trim_clean [OF x])
    qed
  qed simp
  obtain x ys where xs: "xs = x # ys" using assms(2) by (cases xs) auto
  then have x: "clean_ident x" using assms(1) by simp
  show ?thesis
  proof (cases ys)
    case Nil
    then show ?thesis using split_on_plain [of "CHR '',''" x] comma [OF x] ne [OF x]
      by (simp add: xs sorting_cols_def trim_clean [OF x])
  next
    case (Cons y zs)
    have "split_on (CHR '','') (x @ '', '' @ join '', '' ys) = x # split_on (CHR '','') (CHR '' '' # join '', '' ys)"
      using split_on_append [of "CHR '',''" x] comma [OF x] by simp
    moreover have "sorting_cols (CHR '' '' # join '', '' ys) = ys" using padded assms(1) xs Cons by simp
    ultimately show ?thesis using ne [OF x] Cons by (simp add: xs sorting_cols_def join_Cons trim_clean [OF x])
  qed
qed


subsection \<open>Every column is required\<close>

lemma clickhouse_columns_are_required:
  \<comment> \<open>a record that leaves out a column, or has \<open>null\<close> there, is refused, although the proposal was made from
    such records and the same table on Postgres takes them\<close>
  assumes "e \<in> set (td_columns d)" and "parse_ch_type (snd e) = (ty, False)" and "fst e \<notin> set SERVER_STAMPED_COLS" "fst e \<noteq> ''raw''"
    and "map_of obj (fst e) = None \<or> map_of obj (fst e) = Some JNull"
    and "ch_table_meta rd_cols rd_key s t = Inr (Some meta)" and "rd_cols s t = Inr (fst (described d))"
  shows "validate_one meta (JObject obj) \<noteq> None"
proof
  assume "validate_one meta (JObject obj) = None"
  then have ok: "acceptable meta (JObject obj)" by (simp add: validate_one_iff)
  have "tm_columns meta = map ch_column (fst (described d))"
    using assms(6,7) by (auto simp: ch_table_meta_def split: sum.splits if_splits)
  then have "ch_column e \<in> set (tm_columns meta)" using assms(1) by (simp add: described_def)
  moreover have "required_column (ch_column e)" "c_name (ch_column e) = fst e"
    using assms(2-4) by (simp_all add: required_column_def ch_column_def case_prod_beta)
  ultimately have "\<exists>v. map_of obj (fst e) = Some v \<and> v \<noteq> JNull" using ok by (auto simp: acceptable_def)
  with assms(5) show False by auto
qed

section \<open>Ingesting\<close>

lemma clickhouse_ingest_accounts:
  \<comment> \<open>what the interface gives for this engine: an ingest accounts for every record here too\<close>
  assumes "ie_write env = ch_write_records pr exec (ip_schema p) (ip_table p)" "ip_run_id p = None" "ie_close env" "ip_validate p"
    "ingest_records env p records w = (Some res, w')"
  shows "case res of Inr out \<Rightarrow> accounted w records out w' | Inl e \<Rightarrow> failed_cleanly env w w'"
  using assms by (rule ch_backend.ingest_outcome)

section \<open>Samples\<close>

definition ch_sample_plan :: create_plan where
  "ch_sample_plan =
     \<lparr>cp_schema = ''obs'', cp_table = ''ticks'', cp_inferred = [(''venue_id'', JString ''text''), (''px'', JString ''double precision'')],
      cp_key = [''venue_id'']\<rparr>"

definition ch_sample_ddl :: table_ddl where
  "ch_sample_ddl = \<lparr>td_columns = [(''venue_id'', ''String''), (''px'', ''Float64'')], td_key = [''venue_id'']\<rparr>"

lemma ch_sample_names:
  "norm_ident ''obs'' = Some ''obs''" "norm_ident ''ticks'' = Some ''ticks''" "norm_ident ''venue_id'' = Some ''venue_id''"
  "norm_ident ''px'' = Some ''px''"
  by (rule norm_ident_idem; code_simp)+

lemma ch_sample_planned:
  "plan_table (pg_type_to_ch \<circ> type_text) ch_sample_plan = Inr (''obs'', ''ticks'', ch_sample_ddl)"
  by (simp add: plan_table_def ch_sample_plan_def ch_sample_names plan_key_def map_filter_simps ch_sample_ddl_def
      type_text_def pg_type_to_ch_def)


definition ch_sample_meta :: table_meta where
  "ch_sample_meta = \<lparr>tm_columns = map ch_column (fst (described ch_sample_ddl)), tm_conflict_cols = [''venue_id'', ''source'']\<rparr>"

definition ch_sample_stamp :: "string \<Rightarrow> stamp" where
  "ch_sample_stamp now = \<lparr>st_source = ''u'', st_endpoint = ''e'', st_run_id = ''r'', st_now = now\<rparr>"

definition ch_sample_records :: "json list" where
  "ch_sample_records =
     [JObject [(''venue_id'', JString ''v''), (''px'', JNumber (NInt 1))], JObject [(''venue_id'', JString ''v''), (''px'', JNumber (NInt 2))]]"

definition ch_sample_rows :: "string list \<Rightarrow> ch_row list" where
  "ch_sample_rows ats =
     concat (map (\<lambda>t. map (ch_row sample_printers (ch_writable ch_sample_meta) (ch_sample_stamp t)) ch_sample_records) ats)"

lemma ch_sample_write:
  "ch_write_records sample_printers (\<lambda>_. Inr ()) ''obs'' ''ticks'' ch_sample_meta (ch_sample_stamp t) ch_sample_records rows =
     (Inr (2, 0), rows @ ch_sample_rows [t])"
  by (simp add: ch_write_records_def ch_sample_names ch_sample_rows_def Let_def) (simp add: ch_sample_records_def)


theorem clickhouse_reingest_changes_stamps_only_witness:
  "map_option cells (row_of [''venue_id'', ''source''] [Some (JString ''v''), Some (JString ''u'')] (ch_sample_rows [''1'', ''2''])) =
   map_option cells (row_of [''venue_id'', ''source''] [Some (JString ''v''), Some (JString ''u'')] (ch_sample_rows [''1'']))"
proof -
  have two: "ch_sample_rows [''1''] @ ch_sample_rows [''2''] = ch_sample_rows [''1'', ''2'']" by (simp add: ch_sample_rows_def)
  have "st_now (ch_sample_stamp ''1'') \<le> st_now (ch_sample_stamp ''2'')" by (simp add: ch_sample_stamp_def)
  moreover have "set [''venue_id'', ''source''] \<inter> RUN_STAMPS = {}" by (simp add: RUN_STAMPS_def)
  ultimately show ?thesis
    using clickhouse_reingest_changes_stamps_only [OF ch_sample_write [of "''1''" "[]", unfolded append_Nil] ch_sample_write [of "''2''" "ch_sample_rows [''1'']"]]
    by (simp add: two ch_sample_stamp_def)
qed

lemma sparse_records_make_an_unwritable_table:
  \<comment> \<open>two records, one without \<open>px\<close>, are proposed as this very table; on ClickHouse the second is then refused\<close>
  "validate_one ch_sample_meta (JObject [(''venue_id'', JString ''v'')]) \<noteq> None"
  by code_simp

end
