(* ===== verification/Realtime_Hub.thy ===== *)
theory Realtime_Hub
  imports Llm_Route Config
begin

text \<open>
  The realtime hub (\<open>realtime/hub.rs\<close>) and the WebSocket and SSE streams over it
  (\<open>handlers/ws.rs\<close>, \<open>handlers/sse_quotes.rs\<close>): bounded queues per connection, the
  index of subscribers per symbol, the demand signalled to upstreams, tiers, the
  replay of the last tick, and the protocol of a stream.

  A connection is shared between its transport and the index, so all of them live
  in a store \<open>hb_conns\<close> under their ids.  The hub's methods hold its lock for a section
  and signal demand after it; the sections are definitions of their own, and the
  signals an output, so that calls interleave.  Redis and \<open>serde_json\<close> are arguments.
\<close>

section \<open>Connections\<close>

datatype conn_kind = Ws | Sse

record conn =
  cn_sub :: string
  cn_kind :: conn_kind
  cn_queue :: "json list"
  cn_max :: nat
  cn_dropped :: nat
  cn_lifetime :: nat
  cn_warned :: "int option"  \<comment> \<open>nanoseconds\<close>

definition new_conn :: "string \<Rightarrow> conn_kind \<Rightarrow> nat \<Rightarrow> conn" where
  "new_conn sub kind max_queue =
     \<lparr>cn_sub = sub, cn_kind = kind, cn_queue = [], cn_max = max_queue, cn_dropped = 0, cn_lifetime = 0, cn_warned = None\<rparr>"

definition DROP_WARN_INTERVAL :: int where "DROP_WARN_INTERVAL = 30 * 10 ^ 9"

definition hub_error :: "string \<Rightarrow> string \<Rightarrow> json" where
  "hub_error c msg = JObject [(''type'', JString ''error''), (''code'', JString c), (''message'', JString msg)]"

definition slow_warning :: "nat \<Rightarrow> json" where
  "slow_warning n = hub_error ''slow_client_dropped'' (''dropped '' @ show_nat n @ '' frames so far'')"

definition push :: "int \<Rightarrow> json \<Rightarrow> conn \<Rightarrow> conn" where
  "push now frame c =
     (if cn_max c \<le> length (cn_queue c) then
        (let q = tl (cn_queue c) @ [frame];
             dropped = cn_dropped c + 1;
             due = (case cn_warned c of None \<Rightarrow> True | Some t \<Rightarrow> DROP_WARN_INTERVAL < now - t)
         in c\<lparr>cn_dropped := dropped, cn_warned := (if due then Some now else cn_warned c),
              cn_queue := (if due \<and> length q < cn_max c then q @ [slow_warning dropped] else q)\<rparr>)
      else c\<lparr>cn_queue := cn_queue c @ [frame]\<rparr>)"

definition drain :: "conn \<Rightarrow> json list \<times> conn" where
  "drain c = (cn_queue c, c\<lparr>cn_queue := []\<rparr>)"

section \<open>The hub\<close>

record hub =
  hb_conns :: "string \<Rightarrow> conn option"
  hb_open :: "string list"
  hb_subs :: "(string, string list) hash_map"
  hb_by_sub :: "string \<Rightarrow> string option"
  hb_tiers :: "string \<Rightarrow> string option"
  hb_last :: "string \<Rightarrow> string option"  \<comment> \<open>the payload texts kept in Redis\<close>
  hb_lag :: "string \<Rightarrow> int list"
  hb_counts :: "string \<Rightarrow> nat"
  hb_kinds :: "string list"

record hub_ext =
  hx_show :: "json \<Rightarrow> string"
  hx_parse :: "string \<Rightarrow> json option"
  hx_redis :: bool

definition update_conn :: "string \<Rightarrow> (conn \<Rightarrow> conn) \<Rightarrow> hub \<Rightarrow> hub" where
  "update_conn i f h = h\<lparr>hb_conns := (hb_conns h)(i := map_option f (hb_conns h i))\<rparr>"

definition push_to :: "int \<Rightarrow> json \<Rightarrow> string \<Rightarrow> hub \<Rightarrow> hub" where
  "push_to now frame i h = update_conn i (push now frame) h"

definition subscribers :: "string \<Rightarrow> hub \<Rightarrow> string list" where
  "subscribers smb h = (case map_of (hb_subs h) smb of Some m \<Rightarrow> m | None \<Rightarrow> [])"

subsection \<open>Fan-out\<close>

definition LAG_BUF_CAP :: nat where "LAG_BUF_CAP = 1024"

definition data_frame :: "string \<Rightarrow> json \<Rightarrow> json" where
  "data_frame kind payload = JObject [(''type'', JString kind), (''data'', payload)]"

definition is_object :: "json \<Rightarrow> bool" where
  "is_object v = (case v of JObject kvs \<Rightarrow> True | _ \<Rightarrow> False)"

definition stash_tick :: "hub_ext \<Rightarrow> string \<Rightarrow> string \<Rightarrow> json \<Rightarrow> hub \<Rightarrow> hub" where
  "stash_tick x kind key payload h =
     (if kind = ''tick'' \<and> is_object payload \<and> hx_redis x then h\<lparr>hb_last := (hb_last h)(key \<mapsto> hx_show x payload)\<rparr> else h)"

definition count_frame :: "string \<Rightarrow> json \<Rightarrow> hub \<Rightarrow> hub" where
  "count_frame kind payload h =
     (case as_str (json_get ''source'' payload) of
        None \<Rightarrow> h
      | Some src \<Rightarrow>
          (let bucket = kind @ '':'' @ src;
               lag = as_i64 (case json_get ''latency_ms'' payload of Some v \<Rightarrow> Some v | None \<Rightarrow> json_get ''lag_ms'' payload);
               buf = hb_lag h bucket;
               buf1 = (case lag of
                         Some l \<Rightarrow> if 0 \<le> l then (if LAG_BUF_CAP \<le> length buf then tl buf else buf) @ [l] else buf
                       | None \<Rightarrow> buf)
           in h\<lparr>hb_lag := (hb_lag h)(bucket := buf1), hb_counts := (hb_counts h)(bucket := hb_counts h bucket + 1)\<rparr>))"

definition on_payload :: "hub_ext \<Rightarrow> int \<Rightarrow> string \<Rightarrow> string \<Rightarrow> json \<Rightarrow> hub \<Rightarrow> hub" where
  "on_payload x now kind key payload h =
     (let h1 = count_frame kind payload (stash_tick x kind key payload h)
      in fold (push_to now (data_frame kind payload)) (subscribers key h1) h1)"

definition on_channel_message :: "hub_ext \<Rightarrow> int \<Rightarrow> string \<Rightarrow> string \<Rightarrow> hub \<Rightarrow> hub" where
  \<comment> \<open>one turn of the listener: a message of a channel\<close>
  "on_channel_message x now channel raw h =
     (case split_once (CHR '':'') channel of
        None \<Rightarrow> h
      | Some (kind, key) \<Rightarrow>
          (if kind \<notin> set (hb_kinds h) then h
           else (case hx_parse x raw of None \<Rightarrow> h | Some payload \<Rightarrow> on_payload x now kind key payload h)))"

subsection \<open>Registration\<close>

definition register :: "int \<Rightarrow> string \<Rightarrow> conn \<Rightarrow> bool \<Rightarrow> hub \<Rightarrow> string option \<times> hub" where
  \<comment> \<open>the id of the connection that was evicted, whose transport the caller is to close\<close>
  "register now i c enforce h =
     (let prev = hb_by_sub h (cn_sub c);
          h1 = h\<lparr>hb_conns := (hb_conns h)(i \<mapsto> c), hb_open := List.insert i (hb_open h),
                 hb_by_sub := (hb_by_sub h)(cn_sub c \<mapsto> i)\<rparr>
      in case prev of
           Some p \<Rightarrow>
             (if enforce \<and> p \<noteq> i then
                (Some p, push_to now (hub_error ''concurrent_limit'' ''another stream from this identity took over'') p h1)
              else (None, h1))
         | None \<Rightarrow> (None, h1))"

definition sub_of :: "string \<Rightarrow> hub \<Rightarrow> string" where
  "sub_of i h = (case hb_conns h i of Some c \<Rightarrow> cn_sub c | None \<Rightarrow> [])"

definition unregister_section :: "string \<Rightarrow> hub \<Rightarrow> string list \<times> hub" where
  \<comment> \<open>the symbols that lost their last subscriber\<close>
  "unregister_section i h =
     (let ended = map fst (filter (\<lambda>(s, m). i \<in> set m \<and> removeAll i m = []) (hb_subs h));
          subs = map (\<lambda>(s, m). (s, removeAll i m)) (filter (\<lambda>(s, m). \<not> (i \<in> set m \<and> removeAll i m = [])) (hb_subs h))
      in (ended,
          h\<lparr>hb_open := removeAll i (hb_open h), hb_subs := subs,
            hb_by_sub := (if hb_by_sub h (sub_of i h) = Some i then (hb_by_sub h)(sub_of i h := None) else hb_by_sub h)\<rparr>))"

subsection \<open>Tiers\<close>

definition tier_frame :: "string \<Rightarrow> string \<Rightarrow> json" where
  "tier_frame smb tier = JObject [(''type'', JString ''tier_change''), (''symbol'', JString smb), (''tier'', JString tier)]"

definition get_tier :: "string \<Rightarrow> hub \<Rightarrow> string" where
  "get_tier smb h = (case hb_tiers h smb of Some t \<Rightarrow> t | None \<Rightarrow> ''B'')"

definition set_tier :: "int \<Rightarrow> string \<Rightarrow> string \<Rightarrow> hub \<Rightarrow> hub" where
  "set_tier now smb tier h =
     (let changed = (case hb_tiers h smb of Some p \<Rightarrow> p \<noteq> tier | None \<Rightarrow> False);
          h1 = h\<lparr>hb_tiers := (hb_tiers h)(smb \<mapsto> tier)\<rparr>
      in if changed then fold (push_to now (tier_frame smb tier)) (subscribers smb h1) h1 else h1)"

definition clear_tier_if :: "string \<Rightarrow> string \<Rightarrow> hub \<Rightarrow> hub" where
  "clear_tier_if smb expect h = (if hb_tiers h smb = Some expect then h\<lparr>hb_tiers := (hb_tiers h)(smb := None)\<rparr> else h)"

subsection \<open>Subscriptions\<close>

definition subscribe_one :: "string \<Rightarrow> string \<Rightarrow> string list \<times> hub \<Rightarrow> string list \<times> hub" where
  "subscribe_one i smb = (\<lambda>(fresh, h).
     let m = subscribers smb h;
         h1 = (if i \<in> set m then h
               else update_conn i (\<lambda>c. c\<lparr>cn_lifetime := cn_lifetime c + 1\<rparr>) (h\<lparr>hb_subs := hm_insert smb (m @ [i]) (hb_subs h)\<rparr>))
     in (if m = [] then fresh @ [smb] else fresh, h1))"

definition subscribe_section :: "string \<Rightarrow> string list \<Rightarrow> hub \<Rightarrow> string list \<times> hub" where
  \<comment> \<open>the symbols that got their first subscriber\<close>
  "subscribe_section i syms h = fold (subscribe_one i) syms ([], h)"

definition hm_remove :: "string \<Rightarrow> (string, 'v) hash_map \<Rightarrow> (string, 'v) hash_map" where
  "hm_remove k m = filter (\<lambda>(k', v). k' \<noteq> k) m"

definition unsubscribe_one :: "string \<Rightarrow> string \<Rightarrow> string list \<times> string list \<times> hub \<Rightarrow> string list \<times> string list \<times> hub" where
  "unsubscribe_one i smb = (\<lambda>(removed, ended, h).
     case map_of (hb_subs h) smb of
       None \<Rightarrow> (removed, ended, h)
     | Some m \<Rightarrow>
         (let m1 = removeAll i m;
              removed1 = (if i \<in> set m then removed @ [smb] else removed)
          in if m1 = [] then (removed1, ended @ [smb], h\<lparr>hb_subs := hm_remove smb (hb_subs h)\<rparr>)
             else (removed1, ended, h\<lparr>hb_subs := hm_insert smb m1 (hb_subs h)\<rparr>)))"

definition unsubscribe_section :: "string \<Rightarrow> string list \<Rightarrow> hub \<Rightarrow> string list \<times> string list \<times> hub" where
  "unsubscribe_section i syms h = fold (unsubscribe_one i) syms ([], [], h)"

definition replay_last :: "hub_ext \<Rightarrow> int \<Rightarrow> string \<Rightarrow> string \<Rightarrow> hub \<Rightarrow> hub" where
  "replay_last x now i smb h =
     (case (if hx_redis x then hb_last h smb else None) of
        None \<Rightarrow> h
      | Some raw \<Rightarrow>
          (case hx_parse x raw of
             None \<Rightarrow> h
           | Some payload \<Rightarrow>
               (let src = (case as_str (json_get ''source'' payload) of Some s \<Rightarrow> s | None \<Rightarrow> []);
                    tagged = (if src = [] then ''cache'' else src @ '':cache'');
                    payload1 = json_put ''source'' (JString tagged) payload
                in push_to now (data_frame ''tick'' payload1) i h)))"

definition subscribe :: "hub_ext \<Rightarrow> int \<Rightarrow> string \<Rightarrow> string list \<Rightarrow> hub \<Rightarrow> (string, string) hash_map \<times> (string \<times> bool) list \<times> hub" where
  \<comment> \<open>the tier of each symbol, and the signals given\<close>
  "subscribe x now i syms h =
     (case subscribe_section i syms h of
        (fresh, h1) \<Rightarrow>
          (fold (\<lambda>s. hm_insert s (get_tier s h1)) syms [], map (\<lambda>s. (s, True)) fresh, fold (replay_last x now i) syms h1))"

definition unsubscribe :: "string \<Rightarrow> string list \<Rightarrow> hub \<Rightarrow> string list \<times> (string \<times> bool) list \<times> hub" where
  "unsubscribe i syms h =
     (case unsubscribe_section i syms h of (removed, ended, h1) \<Rightarrow> (removed, map (\<lambda>s. (s, False)) ended, h1))"

definition unregister :: "string \<Rightarrow> hub \<Rightarrow> (string \<times> bool) list \<times> hub" where
  "unregister i h = (case unregister_section i h of (ended, h1) \<Rightarrow> (map (\<lambda>s. (s, False)) ended, h1))"

definition warm :: "hub_ext \<Rightarrow> int \<Rightarrow> string \<Rightarrow> string list \<Rightarrow> hub \<Rightarrow> (string \<times> bool) list \<times> hub" where
  \<comment> \<open>without the task that drains the connection\<close>
  "warm x now i symbols h =
     (let syms = filter (\<lambda>s. s \<noteq> []) (map (\<lambda>s. to_uppercase (trim s)) symbols)
      in if syms = [] then ([], h)
         else
           (case subscribe x now i syms (snd (register now i (new_conn ''internal:warm'' Sse 2048) False h)) of
              (tiers, signals, h1) \<Rightarrow> (signals, h1)))"

section \<open>Interleaving\<close>

text \<open>
  One locked section, or one access to a queue or to Redis, at a time: \<open>hub_act\<close>
  lists them and \<open>hub_run\<close> performs one, with the demand signals it leaves to be
  given.  A signal is given by a task of its own (\<open>fire_demand\<close>), so signals in flight
  reach a listener in any order.  The listeners are registered before any client.
\<close>

datatype hub_act =
    Act_Register int string conn bool
  | Act_Unregister string
  | Act_Subscribe string "string list"
  | Act_Unsubscribe string "string list"
  | Act_Replay hub_ext int string string
  | Act_Payload hub_ext int string string
  | Act_Push int json string
  | Act_Drain string
  | Act_Set_Tier int string string
  | Act_Clear_Tier string string

fun hub_run :: "hub_act \<Rightarrow> hub \<Rightarrow> (string \<times> bool) list \<times> hub" where
  "hub_run (Act_Register now i c enforce) h = ([], snd (register now i c enforce h))"
| "hub_run (Act_Unregister i) h = unregister i h"
| "hub_run (Act_Subscribe i syms) h =
     (case subscribe_section i syms h of (fresh, h1) \<Rightarrow> (map (\<lambda>s. (s, True)) fresh, h1))"
| "hub_run (Act_Unsubscribe i syms) h = snd (unsubscribe i syms h)"
| "hub_run (Act_Replay x now i smb) h = ([], replay_last x now i smb h)"
| "hub_run (Act_Payload x now channel raw) h = ([], on_channel_message x now channel raw h)"
| "hub_run (Act_Push now frame i) h = ([], push_to now frame i h)"
| "hub_run (Act_Drain i) h = ([], update_conn i (\<lambda>c. snd (drain c)) h)"
| "hub_run (Act_Set_Tier now smb tier) h = ([], set_tier now smb tier h)"
| "hub_run (Act_Clear_Tier smb expect) h = ([], clear_tier_if smb expect h)"

record 'h signalled =
  sg_state :: 'h
  sg_flight :: "(string \<times> bool) list"
  sg_told :: "(string \<times> bool) list"

inductive fire_step :: "('a \<Rightarrow> 'h \<Rightarrow> (string \<times> bool) list \<times> 'h) \<Rightarrow> 'h signalled \<Rightarrow> 'h signalled \<Rightarrow> bool"
  for run :: "'a \<Rightarrow> 'h \<Rightarrow> (string \<times> bool) list \<times> 'h" where
  fire_run: "run a (sg_state w) = (sigs, h1) \<Longrightarrow> fire_step run w (w\<lparr>sg_state := h1, sg_flight := sg_flight w @ sigs\<rparr>)"
| fire_tell: "sg_flight w = xs @ s # ys \<Longrightarrow> fire_step run w (w\<lparr>sg_flight := xs @ ys, sg_told := sg_told w @ [s]\<rparr>)"

definition at_rest :: "'h \<Rightarrow> 'h signalled" where
  "at_rest h = \<lparr>sg_state = h, sg_flight = [], sg_told = []\<rparr>"

definition balance :: "string \<Rightarrow> (string \<times> bool) list \<Rightarrow> int" where
  "balance s xs = int (count_list xs (s, True)) - int (count_list xs (s, False))"

definition hub_start :: "string list \<Rightarrow> hub" where
  "hub_start kinds =
     \<lparr>hb_conns = (\<lambda>i. None), hb_open = [], hb_subs = [], hb_by_sub = (\<lambda>s. None), hb_tiers = (\<lambda>s. None),
      hb_last = (\<lambda>s. None), hb_lag = (\<lambda>s. []), hb_counts = (\<lambda>s. 0), hb_kinds = kinds\<rparr>"

lemma balance_simps [simp]:
  "balance s [] = 0" "balance s (xs @ ys) = balance s xs + balance s ys"
  "balance s (x # xs) = (if x = (s, True) then 1 else if x = (s, False) then - 1 else 0) + balance s xs"
  by (auto simp: balance_def)

lemma balance_map:
  "balance s (map (\<lambda>t. (t, True)) xs) = int (count_list xs s)"
  "balance s (map (\<lambda>t. (t, False)) xs) = - int (count_list xs s)"
  by (induction xs) auto

section \<open>The source of signals, as an interface\<close>

locale demand_source =
  fixes run :: "'a \<Rightarrow> 'h \<Rightarrow> (string \<times> bool) list \<times> 'h" and wf :: "'h \<Rightarrow> bool" and wanted :: "'h \<Rightarrow> string \<Rightarrow> bool"
  assumes run_wf: "wf h \<Longrightarrow> wf (snd (run a h))"
    and run_signals: "wf h \<Longrightarrow> balance s (fst (run a h)) = of_bool (wanted (snd (run a h)) s) - of_bool (wanted h s)"
begin

lemma step_keeps:
  assumes "fire_step run w w'" "wf (sg_state w)" "\<And>s. balance s (sg_flight w @ sg_told w) = of_bool (wanted (sg_state w) s)"
  shows "wf (sg_state w') \<and> (\<forall>s. balance s (sg_flight w' @ sg_told w') = of_bool (wanted (sg_state w') s))"
  using assms
proof (cases rule: fire_step.cases)
  case (fire_run a sigs h1)
  have "balance s (sg_flight w' @ sg_told w') = of_bool (wanted (sg_state w') s)" for s
    using fire_run assms(3)[of s] run_signals[OF assms(2), of s a] by simp
  moreover have "wf (sg_state w')" using fire_run run_wf[OF assms(2), of a] by simp
  ultimately show ?thesis by blast
next
  case (fire_tell xs s ys)
  then have "balance t (sg_flight w' @ sg_told w') = balance t (sg_flight w @ sg_told w)" for t by simp
  then show ?thesis using fire_tell(1) assms(2,3) by (simp del: balance_simps)
qed

lemma reachable_keeps:
  assumes "(fire_step run)\<^sup>*\<^sup>* (at_rest h) w" "wf h" "\<And>s. \<not> wanted h s"
  shows "wf (sg_state w) \<and> (\<forall>s. balance s (sg_flight w @ sg_told w) = of_bool (wanted (sg_state w) s))"
  using assms(1)
proof (induction rule: rtranclp_induct)
  case base
  then show ?case using assms(2,3) by (simp add: at_rest_def)
next
  case (step v w)
  then show ?case using step_keeps by blast
qed

lemma settled:
  assumes "(fire_step run)\<^sup>*\<^sup>* (at_rest h) w" "wf h" "\<And>s. \<not> wanted h s" "sg_flight w = []"
  shows "balance s (sg_told w) = of_bool (wanted (sg_state w) s)"
  using reachable_keeps[OF assms(1-3)] assms(4) by simp

end

section \<open>The index of subscribers\<close>

definition hub_wf :: "hub \<Rightarrow> bool" where
  "hub_wf h \<longleftrightarrow> distinct (map fst (hb_subs h)) \<and> list_all (\<lambda>(s, m). m \<noteq> [] \<and> distinct m) (hb_subs h)"

definition subscribed :: "hub \<Rightarrow> (string \<times> string) set" where
  "subscribed h = {(i, s). i \<in> set (subscribers s h)}"

lemma update_conn_simps [simp]:
  "hb_subs (update_conn i f h) = hb_subs h" "hb_tiers (update_conn i f h) = hb_tiers h"
  "hb_open (update_conn i f h) = hb_open h" "hb_by_sub (update_conn i f h) = hb_by_sub h"
  "hb_last (update_conn i f h) = hb_last h" "hb_kinds (update_conn i f h) = hb_kinds h"
  "hb_conns (update_conn i f h) = (hb_conns h)(i := map_option f (hb_conns h i))"
  by (simp_all add: update_conn_def)

lemma push_to_subs [simp]: "hb_subs (push_to now f i h) = hb_subs h"
  by (simp add: push_to_def)

lemma fold_push_subs [simp]: "hb_subs (fold (push_to now f) is h) = hb_subs h"
  by (induction "is" arbitrary: h) auto

lemma replay_subs [simp]: "hb_subs (replay_last x now i s h) = hb_subs h"
  by (auto simp: replay_last_def Let_def split: option.split)

lemma fold_replay_subs [simp]: "hb_subs (fold (replay_last x now i) ss h) = hb_subs h"
  by (induction ss arbitrary: h) auto

lemma count_frame_subs [simp]: "hb_subs (count_frame k v h) = hb_subs h"
  by (auto simp: count_frame_def Let_def split: option.split)

lemma stash_tick_subs [simp]: "hb_subs (stash_tick x k key v h) = hb_subs h"
  by (simp add: stash_tick_def)

lemma channel_message_subs [simp]: "hb_subs (on_channel_message x now ch raw h) = hb_subs h"
  by (auto simp: on_channel_message_def on_payload_def Let_def split: option.split)

lemma register_subs [simp]: "hb_subs (snd (register now i c e h)) = hb_subs h"
  by (auto simp: register_def Let_def split: option.split)

lemma tier_subs [simp]: "hb_subs (set_tier now s t h) = hb_subs h" "hb_subs (clear_tier_if s t h) = hb_subs h"
  by (auto simp: set_tier_def clear_tier_if_def Let_def)

lemma subscribers_cong: "hb_subs h' = hb_subs h \<Longrightarrow> subscribers s h' = subscribers s h"
  by (simp add: subscribers_def)

lemma hub_wf_cong: "hb_subs h' = hb_subs h \<Longrightarrow> hub_wf h' \<longleftrightarrow> hub_wf h"
  by (simp add: hub_wf_def)

lemma mem_subscribers: "distinct (map fst (hb_subs h)) \<Longrightarrow> (s, m) \<in> set (hb_subs h) \<Longrightarrow> subscribers s h = m"
  by (simp add: subscribers_def)

lemma subscribers_Some: "hub_wf h \<Longrightarrow> map_of (hb_subs h) s = Some m \<Longrightarrow> m \<noteq> [] \<and> distinct m"
  by (auto simp: hub_wf_def list_all_iff dest!: map_of_SomeD)

lemma subscribers_distinct: "hub_wf h \<Longrightarrow> distinct (subscribers s h)"
  by (auto simp: subscribers_def dest: subscribers_Some split: option.split)

lemma hm_insert_keys: "distinct (map fst m) \<Longrightarrow> distinct (map fst (hm_insert k v m))"
  by (auto simp: hm_insert_def distinct_map inj_on_def)

lemma hm_remove_keys: "distinct (map fst m) \<Longrightarrow> distinct (map fst (hm_remove k m))"
  by (auto simp: hm_remove_def distinct_map inj_on_def)

lemma map_of_hm_remove [simp]: "map_of (hm_remove k m) j = (if j = k then None else map_of m j)"
  by (induction m) (auto simp: hm_remove_def)

lemma hub_wf_insert:
  "hub_wf h \<Longrightarrow> m \<noteq> [] \<Longrightarrow> distinct m \<Longrightarrow> hub_wf (h\<lparr>hb_subs := hm_insert s m (hb_subs h)\<rparr>)"
  by (auto simp: hub_wf_def hm_insert_keys list_all_iff dest!: set_hm_insert)

lemma hub_wf_remove: "hub_wf h \<Longrightarrow> hub_wf (h\<lparr>hb_subs := hm_remove s (hb_subs h)\<rparr>)"
  by (auto simp: hub_wf_def hm_remove_keys list_all_iff hm_remove_def distinct_map inj_on_def)

lemma subscribers_insert: "subscribers t (h\<lparr>hb_subs := hm_insert s m (hb_subs h)\<rparr>) = (if t = s then m else subscribers t h)"
  by (simp add: subscribers_def)

lemma subscribers_remove: "subscribers t (h\<lparr>hb_subs := hm_remove s (hb_subs h)\<rparr>) = (if t = s then [] else subscribers t h)"
  by (simp add: subscribers_def)

subsection \<open>Subscribing\<close>

definition add_subscriber :: "string \<Rightarrow> string list \<Rightarrow> string list" where
  "add_subscriber i m = (if i \<in> set m then m else m @ [i])"

lemma subscribe_one_effect:
  assumes "hub_wf h" "subscribe_one i s (f, h) = (f', h')"
  shows "hub_wf h'" "f' = f @ (if subscribers s h = [] then [s] else [])"
    "subscribers t h' = (if t = s then add_subscriber i (subscribers s h) else subscribers t h)"
  using assms subscribers_distinct[OF assms(1), of s] 
  by (auto simp: subscribe_one_def Let_def add_subscriber_def subscribers_insert
      subscribers_cong[OF update_conn_simps(1)] hub_wf_cong[OF update_conn_simps(1)] intro!: hub_wf_insert split: if_splits)

lemma subscribe_section_effect:
  assumes "hub_wf h" "fold (subscribe_one i) syms (f, h) = (f', h')"
  shows "hub_wf h' \<and> (\<forall>t. subscribers t h' = (if t \<in> set syms then add_subscriber i (subscribers t h) else subscribers t h)) \<and>
    (\<forall>t. count_list f' t = count_list f t + (if t \<in> set syms \<and> subscribers t h = [] then 1 else 0))"
  using assms
proof (induction syms arbitrary: f h)
  case (Cons s syms)
  obtain f1 h1 where one: "subscribe_one i s (f, h) = (f1, h1)" by (meson surj_pair)
  note eff = subscribe_one_effect[OF Cons.prems(1) one]
  have rest: "fold (subscribe_one i) syms (f1, h1) = (f', h')" using Cons.prems(2) one by simp
  note ih = Cons.IH[OF eff(1) rest]
  have idem: "add_subscriber i (add_subscriber i m) = add_subscriber i m" "add_subscriber i m \<noteq> []" for m
    by (auto simp: add_subscriber_def)
  show ?case using ih eff(2,3) by (auto simp: idem)
qed simp

subsection \<open>Unsubscribing\<close>

lemma unsubscribe_one_effect:
  assumes "hub_wf h" "unsubscribe_one i s (r, e, h) = (r', e', h')"
  shows "hub_wf h'" "subscribers t h' = (if t = s then removeAll i (subscribers s h) else subscribers t h)"
    "r' = r @ (if i \<in> set (subscribers s h) then [s] else [])"
    "e' = e @ (if subscribers s h \<noteq> [] \<and> removeAll i (subscribers s h) = [] then [s] else [])"
proof -
  have "hub_wf h' \<and> subscribers t h' = (if t = s then removeAll i (subscribers s h) else subscribers t h) \<and>
    r' = r @ (if i \<in> set (subscribers s h) then [s] else []) \<and>
    e' = e @ (if subscribers s h \<noteq> [] \<and> removeAll i (subscribers s h) = [] then [s] else [])"
  proof (cases "map_of (hb_subs h) s")
    case None
    then show ?thesis using assms by (auto simp: unsubscribe_one_def subscribers_def)
  next
    case (Some m)
    then have m: "subscribers s h = m" "m \<noteq> []" "distinct m"
      using subscribers_Some[OF assms(1) Some] by (simp_all add: subscribers_def)
    show ?thesis
    proof (cases "removeAll i m = []")
      case True
      then show ?thesis using assms m Some
        by (auto simp: unsubscribe_one_def Let_def subscribers_remove intro!: hub_wf_remove split: if_splits)
    next
      case False
      then show ?thesis using assms m Some
        by (auto simp: unsubscribe_one_def Let_def subscribers_insert intro!: hub_wf_insert distinct_removeAll split: if_splits)
    qed
  qed
  then show "hub_wf h'" "subscribers t h' = (if t = s then removeAll i (subscribers s h) else subscribers t h)"
    "r' = r @ (if i \<in> set (subscribers s h) then [s] else [])"
    "e' = e @ (if subscribers s h \<noteq> [] \<and> removeAll i (subscribers s h) = [] then [s] else [])" by auto
qed

lemma unsubscribe_section_effect:
  assumes "hub_wf h" "fold (unsubscribe_one i) syms (r, e, h) = (r', e', h')"
  shows "hub_wf h' \<and> (\<forall>t. subscribers t h' = (if t \<in> set syms then removeAll i (subscribers t h) else subscribers t h)) \<and>
    (\<forall>t. count_list r' t = count_list r t + (if t \<in> set syms \<and> i \<in> set (subscribers t h) then 1 else 0)) \<and>
    (\<forall>t. count_list e' t = count_list e t +
       (if t \<in> set syms \<and> subscribers t h \<noteq> [] \<and> removeAll i (subscribers t h) = [] then 1 else 0))"
  using assms
proof (induction syms arbitrary: r e h)
  case (Cons s syms)
  obtain r1 e1 h1 where one: "unsubscribe_one i s (r, e, h) = (r1, e1, h1)" by (metis prod_cases3)
  note eff = unsubscribe_one_effect[OF Cons.prems(1) one]
  have rest: "fold (unsubscribe_one i) syms (r1, e1, h1) = (r', e', h')" using Cons.prems(2) one by simp
  note ih = Cons.IH[OF eff(1) rest]
  have idem: "removeAll i (removeAll i m) = removeAll i m" for m by (induction m) auto
  have subs: "subscribers t h1 = (if t = s then removeAll i (subscribers s h) else subscribers t h)" for t
    using unsubscribe_one_effect(2)[OF Cons.prems(1) one] .
  have eff3: "r1 = r @ (if i \<in> set (subscribers s h) then [s] else [])"
    and eff4: "e1 = e @ (if subscribers s h \<noteq> [] \<and> removeAll i (subscribers s h) = [] then [s] else [])"
    using eff(3,4) .
  have "hub_wf h'" using ih by blast
  moreover have "subscribers t h' = (if t \<in> set (s # syms) then removeAll i (subscribers t h) else subscribers t h)" for t
    using ih subs[of t] by (cases "t = s") (simp_all add: idem del: removeAll_filter_not)
  moreover have "count_list r' t = count_list r t + (if t \<in> set (s # syms) \<and> i \<in> set (subscribers t h) then 1 else 0)" for t
    using ih subs[of t] eff3 by (cases "t = s") simp_all
  moreover have "count_list e' t = count_list e t +
      (if t \<in> set (s # syms) \<and> subscribers t h \<noteq> [] \<and> removeAll i (subscribers t h) = [] then 1 else 0)" for t
    using ih subs[of t] eff4 by (cases "t = s") (simp_all add: idem)
  ultimately show ?case by blast
qed simp

subsection \<open>Unregistering\<close>

lemma map_of_filter_map:
  "distinct (map fst xs) \<Longrightarrow>
   map_of (map (\<lambda>(s, m). (s, f m)) (filter (\<lambda>(s, m). \<not> P m) xs)) s =
     (case map_of xs s of Some m \<Rightarrow> if P m then None else Some (f m) | None \<Rightarrow> None)"
proof (induction xs)
  case (Cons a xs)
  have "map_of xs (fst a) = None" using Cons.prems by (simp add: map_of_eq_None_iff)
  then show ?case using Cons by (cases a) auto
qed simp

lemma count_filter_keys:
  "distinct (map fst xs) \<Longrightarrow>
   count_list (map fst (filter (\<lambda>(s, m). P m) xs)) s = (case map_of xs s of Some m \<Rightarrow> if P m then 1 else 0 | None \<Rightarrow> 0)"
proof (induction xs)
  case (Cons a xs)
  have "map_of xs (fst a) = None" using Cons.prems by (simp add: map_of_eq_None_iff)
  then show ?case using Cons by (cases a) auto
qed simp

lemma removeAll_empty: "removeAll i m = [] \<longleftrightarrow> set m \<subseteq> {i}"
  by (metis Diff_eq_empty_iff set_empty2 set_removeAll)

lemma set_empty_sub: "set m \<subseteq> {i} \<Longrightarrow> i \<notin> set m \<Longrightarrow> m = []"
  by (cases m) auto

lemma emptied: "m \<noteq> [] \<Longrightarrow> (i \<in> set m \<and> removeAll i m = []) \<longleftrightarrow> removeAll i m = []"
  by (cases m) (auto simp: removeAll_empty)

lemma unregister_section_effect:
  assumes "hub_wf h" "unregister_section i h = (ended, h')"
  shows "hub_wf h'" "subscribers t h' = removeAll i (subscribers t h)"
    "count_list ended t = (if subscribers t h \<noteq> [] \<and> removeAll i (subscribers t h) = [] then 1 else 0)"
proof -
  define P where "P m = (i \<in> set m \<and> removeAll i m = [])" for m
  have d: "distinct (map fst (hb_subs h))" using assms(1) by (simp add: hub_wf_def)
  have ended: "ended = map fst (filter (\<lambda>(s, m). P m) (hb_subs h))"
    and subs: "hb_subs h' = map (\<lambda>(s, m). (s, removeAll i m)) (filter (\<lambda>(s, m). \<not> P m) (hb_subs h))"
    using assms(2) by (auto simp: unregister_section_def Let_def P_def)
  have keys: "map fst (hb_subs h') = map fst (filter (\<lambda>(s, m). \<not> P m) (hb_subs h))"
    by (simp add: subs case_prod_unfold)
  have "distinct (map fst (hb_subs h'))" using d unfolding keys by (rule distinct_map_filter)
  moreover have "list_all (\<lambda>(s, m). m \<noteq> [] \<and> distinct m) (hb_subs h')"
    using assms(1) set_empty_sub[of _ i] unfolding subs hub_wf_def list_all_iff P_def
    by (auto simp: removeAll_empty distinct_removeAll simp del: set_removeAll)
  ultimately show "hub_wf h'" by (simp add: hub_wf_def)
  show "subscribers t h' = removeAll i (subscribers t h)"
    using map_of_filter_map[OF d, of "removeAll i" P t] unfolding subscribers_def subs
    by (auto simp: P_def split: option.split)
  show "count_list ended t = (if subscribers t h \<noteq> [] \<and> removeAll i (subscribers t h) = [] then 1 else 0)"
  proof (cases "map_of (hb_subs h) t")
    case None
    then show ?thesis using count_filter_keys[OF d, of P t] by (simp add: ended subscribers_def)
  next
    case (Some m)
    have "P m \<longleftrightarrow> removeAll i m = []" unfolding P_def using subscribers_Some[OF assms(1) Some] by (intro emptied) simp
    then show ?thesis using count_filter_keys[OF d, of P t] subscribers_Some[OF assms(1) Some] Some
      by (simp add: ended subscribers_def)
  qed
qed

section \<open>The hub provides the interface\<close>

definition wanted :: "hub \<Rightarrow> string \<Rightarrow> bool" where
  "wanted h s \<longleftrightarrow> subscribers s h \<noteq> []"

lemma quiet_act:
  assumes "hb_subs h' = hb_subs h" "hub_wf h"
  shows "hub_wf h' \<and> (\<forall>s. balance s [] = of_bool (wanted h' s) - of_bool (wanted h s))"
  using assms(2) subscribers_cong[OF assms(1)] hub_wf_cong[OF assms(1)] by (simp add: wanted_def)

lemma run_effect:
  assumes "hub_wf h"
  shows "hub_wf (snd (hub_run a h)) \<and>
    (\<forall>s. balance s (fst (hub_run a h)) = of_bool (wanted (snd (hub_run a h)) s) - of_bool (wanted h s))"
proof (cases a)
  case (Act_Unregister i)
  obtain ended h1 where u: "unregister_section i h = (ended, h1)" by (meson surj_pair)
  show ?thesis using unregister_section_effect[OF assms u] Act_Unregister
    by (auto simp: unregister_def u balance_map wanted_def)
next
  case (Act_Subscribe i syms)
  obtain fresh h1 where u: "subscribe_section i syms h = (fresh, h1)" by (meson surj_pair)
  show ?thesis using subscribe_section_effect[OF assms u[unfolded subscribe_section_def]] Act_Subscribe
    by (auto simp: u balance_map wanted_def add_subscriber_def)
next
  case (Act_Unsubscribe i syms)
  obtain r e h1 where u: "unsubscribe_section i syms h = (r, e, h1)" by (metis prod_cases3)
  note eff = unsubscribe_section_effect[OF assms u[unfolded unsubscribe_section_def]]
  have "balance s (map (\<lambda>t. (t, False)) e) = of_bool (wanted h1 s) - of_bool (wanted h s)" for s
    using eff by (cases "subscribers s h") (simp_all add: balance_map wanted_def)
  then show ?thesis using eff Act_Unsubscribe by (simp add: unsubscribe_def u)
qed (simp_all only: hub_run.simps fst_conv snd_conv, (rule quiet_act[OF _ assms], simp)+)

interpretation rt: demand_source hub_run hub_wf wanted
  by unfold_locales (use run_effect in blast)+

section \<open>Properties of the hub\<close>

lemma hub_start_wf [simp]: "hub_wf (hub_start kinds)"
  by (simp add: hub_wf_def hub_start_def)

lemma hub_start_quiet [simp]: "\<not> wanted (hub_start kinds) s"
  by (simp add: wanted_def subscribers_def hub_start_def)

text \<open>
  A call of \<open>subscribe\<close> is its locked section followed by its replays, so the steps of
  \<open>hub_run\<close> cover whole calls.
\<close>

lemma subscribe_as_steps:
  assumes "subscribe x now i syms h = (tiers, sigs, h')" and w: "sg_state w = h"
  shows "(fire_step hub_run)\<^sup>*\<^sup>* w (w\<lparr>sg_state := h', sg_flight := sg_flight w @ sigs\<rparr>)"
proof -
  obtain fresh h1 where sec: "subscribe_section i syms h = (fresh, h1)" by (meson surj_pair)
  have h': "h' = fold (replay_last x now i) syms h1" and sigs: "sigs = map (\<lambda>s. (s, True)) fresh"
    using assms sec by (auto simp: subscribe_def)
  have replays: "(fire_step hub_run)\<^sup>*\<^sup>* v (v\<lparr>sg_state := fold (replay_last x now i) ss (sg_state v)\<rparr>)" for v ss
  proof (induction ss arbitrary: v)
    case (Cons s ss)
    have "fire_step hub_run v (v\<lparr>sg_state := replay_last x now i s (sg_state v), sg_flight := sg_flight v @ []\<rparr>)"
      by (rule fire_run[of _ "Act_Replay x now i s"]) simp
    then show ?case using Cons.IH[of "v\<lparr>sg_state := replay_last x now i s (sg_state v)\<rparr>"]
      by (simp add: converse_rtranclp_into_rtranclp)
  qed simp
  have "fire_step hub_run w (w\<lparr>sg_state := h1, sg_flight := sg_flight w @ sigs\<rparr>)"
    by (rule fire_run[of _ "Act_Subscribe i syms"]) (simp add: w sec sigs)
  then show ?thesis using replays[of "w\<lparr>sg_state := h1, sg_flight := sg_flight w @ sigs\<rparr>" syms]
    by (cases w) (simp add: h' converse_rtranclp_into_rtranclp)
qed

text \<open>C23: In every interleaving of calls, fan-out and signals, the activations given or in flight
  for a symbol exceed the deactivations by one when it has subscribers and by none when it has
  not; so once no signal is in flight, the listeners have been told exactly of the demand there is.\<close>
theorem demand_follows_subscribers:
  assumes "(fire_step hub_run)\<^sup>*\<^sup>* (at_rest (hub_start kinds)) w"
  shows "balance s (sg_told w) + balance s (sg_flight w) = of_bool (subscribers s (sg_state w) \<noteq> [])"
  using rt.reachable_keeps[OF assms hub_start_wf hub_start_quiet] by (simp add: wanted_def add.commute)

theorem demand_follows_subscribers_witness:
  "balance ''BTC'' [(''BTC'', True)] + balance ''BTC'' [] =
     of_bool (subscribers ''BTC'' (snd (hub_run (Act_Subscribe ''c1'' [''BTC'']) (hub_start [''tick'']))) \<noteq> [])"
proof -
  let ?h = "snd (hub_run (Act_Subscribe ''c1'' [''BTC'']) (hub_start [''tick'']))"
  let ?v = "\<lparr>sg_state = ?h, sg_flight = [(''BTC'', True)], sg_told = []\<rparr>"
  have "hub_run (Act_Subscribe ''c1'' [''BTC'']) (hub_start [''tick'']) = ([(''BTC'', True)], ?h)"
    by (simp add: subscribe_section_def subscribe_one_def hub_start_def subscribers_def Let_def)
  then have one: "fire_step hub_run (at_rest (hub_start [''tick''])) ?v"
    using fire_run[of hub_run "Act_Subscribe ''c1'' [''BTC'']" "at_rest (hub_start [''tick''])"] by (simp add: at_rest_def)
  have two: "fire_step hub_run ?v \<lparr>sg_state = ?h, sg_flight = [], sg_told = [(''BTC'', True)]\<rparr>"
    using fire_tell[of ?v "[]" "(''BTC'', True)" "[]" hub_run] by simp
  show ?thesis
    using demand_follows_subscribers[OF converse_rtranclp_into_rtranclp[OF one r_into_rtranclp[of "fire_step hub_run", OF two]], of "''BTC''"]
    by (simp only: signalled.simps)
qed

lemma range_subscribed: "s \<in> Range (subscribed h) \<longleftrightarrow> subscribers s h \<noteq> []"
  by (cases "subscribers s h") (auto simp: subscribed_def Range_iff intro: exI)

lemma in_by_count: "t \<in> set xs \<longleftrightarrow> count_list xs t \<noteq> 0"
  by (simp add: count_list_0_iff)

lemma subscribed_replays: "subscribed (fold (replay_last x now i) ss h) = subscribed h"
  by (simp add: subscribed_def subscribers_def)

text \<open>The locked index implements the relation between connections and symbols: subscribing
  adds a connection's pairs, unsubscribing and unregistering take them away and nothing else, and
  the signals given are exactly the changes of the relation's range.\<close>
theorem index_implements_relation:
  assumes "hub_wf h"
  shows "(case subscribe x now i syms h of (tiers, sigs, h') \<Rightarrow>
      subscribed h' = subscribed h \<union> {i} \<times> set syms \<and> set sigs = {(s, True) | s. s \<in> Range (subscribed h') - Range (subscribed h)}) \<and>
    (case unsubscribe i syms h of (removed, sigs, h') \<Rightarrow>
      subscribed h' = subscribed h - {i} \<times> set syms \<and> set removed = {s \<in> set syms. (i, s) \<in> subscribed h} \<and>
      set sigs = {(s, False) | s. s \<in> Range (subscribed h) - Range (subscribed h')}) \<and>
    (case unregister i h of (sigs, h') \<Rightarrow>
      subscribed h' = subscribed h - {i} \<times> UNIV \<and> set sigs = {(s, False) | s. s \<in> Range (subscribed h) - Range (subscribed h')})"
proof (intro conjI)
  obtain fresh h1 where sec: "subscribe_section i syms h = (fresh, h1)" by (meson surj_pair)
  have subs: "subscribers s h1 = (if s \<in> set syms then add_subscriber i (subscribers s h) else subscribers s h)"
    and cnt: "count_list fresh s = (if s \<in> set syms \<and> subscribers s h = [] then 1 else 0)" for s
    using subscribe_section_effect[OF assms sec[unfolded subscribe_section_def]] by simp_all
  have rel: "subscribed h1 = subscribed h \<union> {i} \<times> set syms" by (auto simp: subscribed_def subs add_subscriber_def)
  have "s \<in> set fresh \<longleftrightarrow> s \<in> Range (subscribed h1) - Range (subscribed h)" for s
    unfolding in_by_count Diff_iff range_subscribed cnt subs by (simp add: add_subscriber_def)
  then show "case subscribe x now i syms h of (tiers, sigs, h') \<Rightarrow>
      subscribed h' = subscribed h \<union> {i} \<times> set syms \<and> set sigs = {(s, True) | s. s \<in> Range (subscribed h') - Range (subscribed h)}"
    using rel by (auto simp: subscribe_def sec subscribed_replays)
next
  obtain r e h1 where sec: "unsubscribe_section i syms h = (r, e, h1)" by (metis prod_cases3)
  have subs: "subscribers s h1 = (if s \<in> set syms then removeAll i (subscribers s h) else subscribers s h)"
    and cnt: "count_list e s = (if s \<in> set syms \<and> subscribers s h \<noteq> [] \<and> removeAll i (subscribers s h) = [] then 1 else 0)"
    and rem: "count_list r s = (if s \<in> set syms \<and> i \<in> set (subscribers s h) then 1 else 0)" for s
    using unsubscribe_section_effect[OF assms sec[unfolded unsubscribe_section_def]] by simp_all
  have rel: "subscribed h1 = subscribed h - {i} \<times> set syms" by (auto simp: subscribed_def subs split: if_splits)
  have "s \<in> set r \<longleftrightarrow> s \<in> set syms \<and> (i, s) \<in> subscribed h" for s
    unfolding in_by_count[of s r] rem by (simp add: subscribed_def)
  moreover have "s \<in> set e \<longleftrightarrow> s \<in> Range (subscribed h) - Range (subscribed h1)" for s
    unfolding in_by_count Diff_iff range_subscribed cnt subs by simp
  ultimately show "case unsubscribe i syms h of (removed, sigs, h') \<Rightarrow>
      subscribed h' = subscribed h - {i} \<times> set syms \<and> set removed = {s \<in> set syms. (i, s) \<in> subscribed h} \<and>
      set sigs = {(s, False) | s. s \<in> Range (subscribed h) - Range (subscribed h')}"
    using rel by (auto simp: unsubscribe_def sec)
next
  obtain e h1 where sec: "unregister_section i h = (e, h1)" by (meson surj_pair)
  note eff = unregister_section_effect[OF assms sec]
  have rel: "subscribed h1 = subscribed h - {i} \<times> UNIV" by (auto simp: subscribed_def eff(2))
  have "s \<in> set e \<longleftrightarrow> s \<in> Range (subscribed h) - Range (subscribed h1)" for s
    unfolding in_by_count Diff_iff range_subscribed eff(2,3) by simp
  then show "case unregister i h of (sigs, h') \<Rightarrow>
      subscribed h' = subscribed h - {i} \<times> UNIV \<and> set sigs = {(s, False) | s. s \<in> Range (subscribed h) - Range (subscribed h')}"
    using rel by (auto simp: unregister_def sec)
qed

theorem index_implements_relation_witness:
  "(case unregister ''a'' (snd (hub_run (Act_Subscribe ''a'' [''X'', ''Y'']) (hub_start []))) of (sigs, h') \<Rightarrow>
     subscribed h' = subscribed (snd (hub_run (Act_Subscribe ''a'' [''X'', ''Y'']) (hub_start []))) - {''a''} \<times> UNIV \<and>
     set sigs = {(s, False) | s. s \<in> Range (subscribed (snd (hub_run (Act_Subscribe ''a'' [''X'', ''Y'']) (hub_start [])))) -
       Range (subscribed h')})"
proof -
  have "hub_wf (snd (hub_run (Act_Subscribe ''a'' [''X'', ''Y'']) (hub_start [])))"
    using run_effect[OF hub_start_wf] by blast
  then show ?thesis by (rule index_implements_relation[where i = "''a''", THEN conjunct2, THEN conjunct2])
qed

lemma fold_push_conns:
  "distinct is \<Longrightarrow> hb_conns (fold (push_to now f) is h) j = (if j \<in> set is then map_option (push now f) (hb_conns h j) else hb_conns h j)"
proof (induction "is" arbitrary: h)
  case (Cons i "is")
  then show ?case by (cases "j = i") (simp_all add: push_to_def)
qed simp

lemma count_frame_conns [simp]: "hb_conns (count_frame k v h) = hb_conns h"
  by (auto simp: count_frame_def Let_def split: option.split)

lemma stash_tick_conns [simp]: "hb_conns (stash_tick x k key v h) = hb_conns h"
  by (simp add: stash_tick_def)

text \<open>A message of a declared channel reaches the queue of every subscriber of its key once, as
  one frame of its kind, and no other queue; a message of any other channel, or one that is not
  JSON, changes no queue.\<close>
theorem fan_out_is_exact:
  assumes "hub_wf h"
  shows "hb_conns (on_channel_message x now channel raw h) i =
    (case (split_once (CHR '':'') channel, hx_parse x raw) of
       (Some (kind, key), Some payload) \<Rightarrow>
         if kind \<in> set (hb_kinds h) \<and> (i, key) \<in> subscribed h then map_option (push now (data_frame kind payload)) (hb_conns h i)
         else hb_conns h i
     | _ \<Rightarrow> hb_conns h i)"
proof -
  have "subscribers key (count_frame kind v (stash_tick x kind key v h)) = subscribers key h" for kind key v
    by (simp add: subscribers_def)
  then show ?thesis using subscribers_distinct[OF assms]
    by (auto simp: on_channel_message_def on_payload_def Let_def subscribed_def fold_push_conns split: option.split)
qed

theorem fan_out_is_exact_witness:
  "hb_conns (on_channel_message \<lparr>hx_show = (\<lambda>v. []), hx_parse = (\<lambda>t. Some JNull), hx_redis = True\<rparr> 0 ''tick:BTC'' [] (hub_start [''tick'']))
     ''a'' = None"
  using fan_out_is_exact[OF hub_start_wf, of "\<lparr>hx_show = (\<lambda>v. []), hx_parse = (\<lambda>t. Some JNull), hx_redis = True\<rparr>" 0
      "''tick:BTC''" "[]" "[''tick'']" "''a''"]
  by (simp add: hub_start_def)

subsection \<open>Queues\<close>

definition overflow_by :: "conn \<Rightarrow> nat \<Rightarrow> nat" where
  "overflow_by c n = length (cn_queue c) + n - cn_max c"

lemma push_queue:
  assumes "0 < cn_max c" "length (cn_queue c) \<le> cn_max c"
  shows "cn_queue (push now f c) = drop (overflow_by c 1) (cn_queue c @ [f])"
    "cn_dropped (push now f c) = cn_dropped c + overflow_by c 1" "cn_max (push now f c) = cn_max c"
proof -
  have len: "cn_max c \<le> length (cn_queue c) \<Longrightarrow> length (cn_queue c) = cn_max c" using assms(2) by simp
  show "cn_queue (push now f c) = drop (overflow_by c 1) (cn_queue c @ [f])"
    using assms len by (cases "cn_queue c") (auto simp: push_def overflow_by_def Let_def)
  show "cn_dropped (push now f c) = cn_dropped c + overflow_by c 1" "cn_max (push now f c) = cn_max c"
    using assms len by (auto simp: push_def overflow_by_def Let_def)
qed

text \<open>A queue holds the newest frames: after any frames pushed since it was drained it is the
  last \<open>max_queue\<close> of them in order, the dropped ones are counted exactly, and nothing but the
  frames pushed is ever in it.\<close>
theorem queue_holds_newest_frames:
  assumes "0 < cn_max c" "length (cn_queue c) \<le> cn_max c"
  shows "cn_queue (fold (\<lambda>(t, f). push t f) fs c) = drop (length (cn_queue c) + length fs - cn_max c) (cn_queue c @ map snd fs) \<and>
    cn_dropped (fold (\<lambda>(t, f). push t f) fs c) = cn_dropped c + (length (cn_queue c) + length fs - cn_max c) \<and>
    fst (drain (fold (\<lambda>(t, f). push t f) fs c)) = drop (length (cn_queue c) + length fs - cn_max c) (cn_queue c @ map snd fs) \<and>
    cn_queue (snd (drain (fold (\<lambda>(t, f). push t f) fs c))) = []"
proof -
  have "cn_queue (fold (\<lambda>(t, f). push t f) fs c) = drop (length (cn_queue c) + length fs - cn_max c) (cn_queue c @ map snd fs) \<and>
    cn_dropped (fold (\<lambda>(t, f). push t f) fs c) = cn_dropped c + (length (cn_queue c) + length fs - cn_max c)"
    using assms
  proof (induction fs arbitrary: c)
    case (Cons e fs)
    obtain t f where e: "e = (t, f)" by (meson surj_pair)
    note one = push_queue[OF Cons.prems, of t f]
    have len: "length (cn_queue (push t f c)) \<le> cn_max (push t f c)" "0 < cn_max (push t f c)"
      using Cons.prems by (simp_all add: one overflow_by_def)
    show ?case using Cons.IH[OF len(2,1)] Cons.prems unfolding one
      by (cases "length (cn_queue c) = cn_max c") (simp_all add: e one overflow_by_def Suc_diff_le)
  qed simp
  then show ?thesis by (simp add: drain_def)
qed

theorem queue_holds_newest_frames_witness:
  "cn_queue (fold (\<lambda>(t, f). push t f) [(0, JNull), (1, JBool True), (2, JBool False)] (new_conn ''s'' Ws 2)) = [JBool True, JBool False] \<and>
   cn_dropped (fold (\<lambda>(t, f). push t f) [(0, JNull), (1, JBool True), (2, JBool False)] (new_conn ''s'' Ws 2)) = 1"
  using queue_holds_newest_frames[of "new_conn ''s'' Ws 2" "[(0, JNull), (1, JBool True), (2, JBool False)]"]
  by (simp add: new_conn_def)

subsection \<open>What the comments of the hub promise and it does not do\<close>

lemma in_set_tl: "x \<in> set (tl xs) \<Longrightarrow> x \<in> set xs"
  by (cases xs) auto

lemma slow_client_is_never_told: "set (cn_queue (push now f c)) \<subseteq> insert f (set (cn_queue c))"
  \<comment> \<open>after an overflow the queue is full again, so the warning never fits\<close>
  by (auto simp: push_def Let_def dest: in_set_tl split: if_splits) 

lemma late_signal_wins:
  "\<exists>w. (fire_step hub_run)\<^sup>*\<^sup>* (at_rest (hub_start kinds)) w \<and> sg_flight w = [] \<and> wanted (sg_state w) ''BTC'' \<and>
     last (sg_told w) = (''BTC'', False)"
  \<comment> \<open>a deactivation overtaken by the activation after it\<close>
proof -
  let ?on = "Act_Subscribe ''a'' [''BTC'']" and ?off = "Act_Unsubscribe ''a'' [''BTC'']"
  define h1 where "h1 = snd (hub_run ?on (hub_start kinds))"
  define h2 where "h2 = snd (hub_run ?off h1)"
  define h3 where "h3 = snd (hub_run ?on h2)"
  let ?T = "(''BTC'', True)" and ?F = "(''BTC'', False)"
  note defs = subscribe_section_def subscribe_one_def hub_start_def subscribers_def Let_def unsubscribe_def
    unsubscribe_section_def unsubscribe_one_def hm_insert_def hm_remove_def update_conn_def
  have r1: "hub_run ?on (hub_start kinds) = ([?T], h1)" unfolding h1_def by (simp add: defs)
  have s1: "hb_subs h1 = [(''BTC'', [''a''])]" by (simp add: h1_def defs)
  have r2: "hub_run ?off h1 = ([?F], h2)" unfolding h2_def using s1 by (simp add: defs)
  have s2: "hb_subs h2 = []" using s1 by (simp add: h2_def defs)
  have r3: "hub_run ?on h2 = ([?T], h3)" unfolding h3_def using s2 by (simp add: defs)
  have s3: "hb_subs h3 = [(''BTC'', [''a''])]" using s2 by (simp add: h3_def defs)
  let ?w = "\<lambda>h f t. \<lparr>sg_state = h, sg_flight = f, sg_told = t\<rparr>"
  have "fire_step hub_run (?w (hub_start kinds) [] []) (?w h1 [?T] [])"
    using fire_run[of hub_run ?on "?w (hub_start kinds) [] []", simplified, OF r1[simplified]] by simp
  moreover have "fire_step hub_run (?w h1 [?T] []) (?w h2 [?T, ?F] [])"
    using fire_run[of hub_run ?off "?w h1 [?T] []", simplified, OF r2[simplified]] by simp
  moreover have "fire_step hub_run (?w h2 [?T, ?F] []) (?w h3 [?T, ?F, ?T] [])"
    using fire_run[of hub_run ?on "?w h2 [?T, ?F] []", simplified, OF r3[simplified]] by simp
  moreover have "fire_step hub_run (?w h3 [?T, ?F, ?T] []) (?w h3 [?F, ?T] [?T])"
    using fire_tell[of "?w h3 [?T, ?F, ?T] []" "[]" ?T "[?F, ?T]" hub_run] by simp
  moreover have "fire_step hub_run (?w h3 [?F, ?T] [?T]) (?w h3 [?F] [?T, ?T])"
    using fire_tell[of "?w h3 [?F, ?T] [?T]" "[?F]" ?T "[]" hub_run] by simp
  moreover have "fire_step hub_run (?w h3 [?F] [?T, ?T]) (?w h3 [] [?T, ?T, ?F])"
    using fire_tell[of "?w h3 [?F] [?T, ?T]" "[]" ?F "[]" hub_run] by simp
  ultimately have "(fire_step hub_run)\<^sup>*\<^sup>* (at_rest (hub_start kinds)) (?w h3 [] [?T, ?T, ?F])"
    unfolding at_rest_def by (meson converse_rtranclp_into_rtranclp rtranclp.rtrancl_refl)
  moreover have "wanted h3 ''BTC''" by (simp add: wanted_def subscribers_def s3)
  ultimately show ?thesis by (intro exI[of _ "?w h3 [] [?T, ?T, ?F]"]) simp
qed

lemma first_tier_is_silent:
  "hb_tiers h s = None \<Longrightarrow> get_tier s h = ''B'' \<and> get_tier s (set_tier now s ''A'' h) = ''A'' \<and> hb_conns (set_tier now s ''A'' h) = hb_conns h"
  by (simp add: get_tier_def set_tier_def)

lemma evicted_keeps_its_subscriptions:
  "register now i c e h = (Some p, h') \<Longrightarrow> subscribed h' = subscribed h \<and> (p \<in> set (hb_open h) \<longrightarrow> p \<in> set (hb_open h'))"
  using register_subs[of now i c e h]
  by (auto simp: register_def subscribed_def subscribers_def push_to_def Let_def split: option.splits if_splits)

end
