(* ===== verification/Realtime_Stream.thy ===== *)
theory Realtime_Stream
  imports Realtime_Hub "HOL-Library.List_Lexorder"
begin

text \<open>
  The streams over the hub: the WebSocket endpoints (\<open>handlers/ws.rs\<close>) with their protocol
  and cap on symbols, the Server-Sent Events endpoint (\<open>handlers/sse_quotes.rs\<close>), and the
  health of the upstreams (\<open>realtime/health.rs\<close>).

  A stream is a connection of the hub and the turns of its receiver; other clients, the
  listener and the sender take steps of \<open>hub_run\<close> in between.  Of the socket only the texts
  received and the frames sent are modelled.
\<close>

section \<open>The protocol of a WebSocket\<close>

datatype ws_message = Ws_Text string | Ws_Close | Ws_Other

definition upper_symbols :: "json \<Rightarrow> string list" where
  "upper_symbols msg =
     (case json_get ''symbols'' msg of
        Some (JArray a) \<Rightarrow>
          map to_uppercase (filter (\<lambda>s. s \<noteq> []) (map trim (List.map_filter (\<lambda>v. as_str (Some v)) a)))
      | _ \<Rightarrow> [])"

definition symbols_json :: "string list \<Rightarrow> json" where
  "symbols_json syms = JArray (map JString syms)"

definition tiers_json :: "(string, string) hash_map \<Rightarrow> json" where
  "tiers_json tiers = JObject (map (\<lambda>(s, t). (s, JString t)) tiers)"

definition subscribed_frame :: "bool \<Rightarrow> string list \<Rightarrow> (string, string) hash_map \<Rightarrow> json" where
  "subscribed_frame news_only syms tiers =
     JObject ([(''type'', JString ''subscribed''),
               (''symbols'', symbols_json (filter (\<lambda>s. map_of tiers s \<noteq> None) syms))] @
              (if news_only then [] else [(''tier'', tiers_json tiers)]))"

definition debug_type :: "string option \<Rightarrow> string" where
  "debug_type t = (case t of None \<Rightarrow> ''None'' | Some s \<Rightarrow> ''Some('' @ debug_str s @ '')'')"

definition lifetime_of :: "string \<Rightarrow> hub \<Rightarrow> nat" where
  "lifetime_of i h = (case hb_conns h i of Some c \<Rightarrow> cn_lifetime c | None \<Rightarrow> 0)"

definition ws_frame :: "hub_ext \<Rightarrow> int \<Rightarrow> bool \<Rightarrow> nat \<Rightarrow> string \<Rightarrow> json \<Rightarrow> hub \<Rightarrow> (string \<times> bool) list \<times> hub" where
  "ws_frame x now news_only lifetime_cap i parsed h =
     (let say = (\<lambda>f k. push_to now f i k);
          t = as_str (json_get ''type'' parsed)
      in if t = Some ''subscribe'' then
           (let syms = upper_symbols parsed
            in if lifetime_cap < lifetime_of i h + length syms then
                 ([], say (hub_error ''too_many_symbols'' (''lifetime cap is '' @ show_nat lifetime_cap)) h)
               else
                 (case subscribe x now i syms h of
                    (tiers, sigs, h1) \<Rightarrow> (sigs, say (subscribed_frame news_only syms tiers) h1)))
         else if t = Some ''unsubscribe'' then
           (case unsubscribe i (upper_symbols parsed) h of
              (removed, sigs, h1) \<Rightarrow>
                (sigs, say (JObject [(''type'', JString ''unsubscribed''), (''symbols'', symbols_json removed)]) h1))
         else if t = Some ''ping'' then ([], say (JObject [(''type'', JString ''pong'')]) h)
         else ([], say (hub_error ''bad_type'' (''unknown type '' @ debug_type t)) h))"

definition ws_turn :: "hub_ext \<Rightarrow> int \<Rightarrow> bool \<Rightarrow> nat \<Rightarrow> string \<Rightarrow> ws_message \<Rightarrow> hub \<Rightarrow> ((string \<times> bool) list \<times> hub) option" where
  \<comment> \<open>one turn of the receiver; \<open>None\<close> when it leaves its loop\<close>
  "ws_turn x now news_only lifetime_cap i msg h =
     (case msg of
        Ws_Close \<Rightarrow> None
      | Ws_Other \<Rightarrow> Some ([], h)
      | Ws_Text t \<Rightarrow>
          Some (case hx_parse x t of
                  None \<Rightarrow> ([], push_to now (hub_error ''bad_json'' ''frames must be valid JSON'') i h)
                | Some parsed \<Rightarrow> ws_frame x now news_only lifetime_cap i parsed h))"

fun ws_receive :: "hub_ext \<Rightarrow> int \<Rightarrow> bool \<Rightarrow> nat \<Rightarrow> string \<Rightarrow> ws_message list \<Rightarrow> hub \<Rightarrow> (string \<times> bool) list \<times> hub" where
  \<comment> \<open>until the socket closes, or the client does\<close>
  "ws_receive x now news_only cap i [] h = ([], h)"
| "ws_receive x now news_only cap i (m # ms) h =
     (case ws_turn x now news_only cap i m h of
        None \<Rightarrow> ([], h)
      | Some (sigs, h1) \<Rightarrow>
          (case ws_receive x now news_only cap i ms h1 of (sigs2, h2) \<Rightarrow> (sigs @ sigs2, h2)))"

definition ws_serve :: "hub_ext \<Rightarrow> int \<Rightarrow> bool \<Rightarrow> nat \<Rightarrow> bool \<Rightarrow> string \<Rightarrow> conn \<Rightarrow> ws_message list \<Rightarrow> hub \<Rightarrow> (string \<times> bool) list \<times> hub" where
  \<comment> \<open>the whole life of a connection when no one else is served\<close>
  "ws_serve x now news_only cap enforce i c msgs h =
     (case ws_receive x now news_only cap i msgs (snd (register now i c enforce h)) of
        (sigs, h1) \<Rightarrow> (case unregister i h1 of (sigs2, h2) \<Rightarrow> (sigs @ sigs2, h2)))"

definition sends :: "bool \<Rightarrow> json \<Rightarrow> bool" where
  \<comment> \<open>the frames of the queue that the sender puts on the socket\<close>
  "sends news_only frame =
     (if news_only then
        (let t = (case as_str (json_get ''type'' frame) of Some t \<Rightarrow> t | None \<Rightarrow> []);
             is_data = (json_get ''data'' frame \<noteq> None)
         in \<not> ((is_data \<and> t \<noteq> ''news'') \<or> t = ''tier_change''))
      else True)"

definition heartbeat_frame :: "string \<Rightarrow> json" where
  "heartbeat_frame ts = JObject [(''type'', JString ''heartbeat''), (''ts'', JString ts)]"

subsection \<open>The upgrade\<close>

datatype ws_decision = Refused nat string | Upgraded string bool conn nat nat bool
  \<comment> \<open>the identity's subject, whether an earlier stream of it is evicted, the connection, the cap,
      the heartbeat and whether only news is sent\<close>

definition ws_upgrade :: "rt_settings \<Rightarrow> bool \<Rightarrow> 'm auth_state \<Rightarrow> header_map \<Rightarrow> bool \<Rightarrow> 'm auth_state \<times> ws_decision" where
  "ws_upgrade st has_hub au headers news_only =
     (if \<not> has_hub then (au, Refused 503 ''realtime unavailable'')
      else
        (case extract_ws_token headers of
           None \<Rightarrow> (au, Refused 401 ''bearer token required'')
         | Some token \<Rightarrow>
             (case resolve_bearer au token of
                (au1, Inr (Some ident)) \<Rightarrow>
                  (au1, Upgraded (i_sub ident) (\<not> starts_with (i_sub ident) ''internal:'')
                          (new_conn (i_sub ident) Ws (nat (rt_slowclient_queue st)))
                          (nat (rt_ws_lifetime_syms st)) (nat (rt_heartbeat_sec st)) news_only)
              | (au1, Inr None) \<Rightarrow> (au1, Refused 401 ''invalid or unknown token'')
              | (au1, Inl e) \<Rightarrow> (au1, Refused 503 ''auth service unreachable''))))"

section \<open>The event stream\<close>

record sse_event =
  ev_event :: string
  ev_data :: json

definition sse_symbols :: "string \<Rightarrow> string list" where
  "sse_symbols symbols = filter (\<lambda>s. s \<noteq> []) (map (\<lambda>s. to_uppercase (trim s)) (split_on (CHR '','') symbols))"

definition sse_check :: "rt_settings \<Rightarrow> bool \<Rightarrow> string \<Rightarrow> string list api_result" where
  "sse_check st has_hub symbols =
     (if \<not> has_hub then Inl (Unavailable ''realtime unavailable'')
      else if sse_symbols symbols = [] then Inl (BadRequest ''?symbols= must list at least one ticker'')
      else if rt_sse_request_syms st < int (length (sse_symbols symbols)) then
        Inl (BadRequest (''max '' @ show_int (rt_sse_request_syms st) @ '' symbols per request''))
      else Inr (sse_symbols symbols))"

definition quotes_stream ::
    "hub_ext \<Rightarrow> rt_settings \<Rightarrow> int \<Rightarrow> bool \<Rightarrow> string \<Rightarrow> identity \<Rightarrow> string \<Rightarrow> hub \<Rightarrow>
     (sse_event \<times> (string \<times> bool) list \<times> hub) api_result" where
  \<comment> \<open>the first event, the signals given and the hub when the stream opens\<close>
  "quotes_stream x st now has_hub i ident symbols h =
     (case sse_check st has_hub symbols of
        Inl e \<Rightarrow> Inl e
      | Inr syms \<Rightarrow>
          (let c = new_conn (i_sub ident) Sse (nat (rt_slowclient_queue st));
               h1 = snd (register now i c (\<not> starts_with (i_sub ident) ''internal:'') h)
           in case subscribe x now i syms h1 of
                (tiers, sigs, h2) \<Rightarrow>
                  Inr (\<lparr>ev_event = ''subscribed'',
                        ev_data = JObject [(''symbols'', symbols_json (filter (\<lambda>s. map_of tiers s \<noteq> None) syms)),
                                           (''tier'', tiers_json tiers)]\<rparr>, sigs, h2)))"

definition frame_to_event :: "string \<Rightarrow> json \<Rightarrow> sse_event" where
  "frame_to_event now_iso frame =
     (let kind = (case as_str (json_get ''type'' frame) of Some t \<Rightarrow> t | None \<Rightarrow> ''message'')
      in if kind = ''heartbeat'' then
           \<lparr>ev_event = ''heartbeat'',
            ev_data = JObject [(''ts'', case json_get ''ts'' frame of Some ts \<Rightarrow> ts | None \<Rightarrow> JString now_iso)]\<rparr>
         else (case json_get ''data'' frame of
                 Some d \<Rightarrow> \<lparr>ev_event = kind, ev_data = d\<rparr>
               | None \<Rightarrow> \<lparr>ev_event = kind, ev_data = frame\<rparr>))"

definition sse_next :: "string \<Rightarrow> string \<Rightarrow> sse_event list \<Rightarrow> hub \<Rightarrow> (sse_event option \<times> sse_event list \<times> hub)" where
  \<comment> \<open>a poll of the body: the event given, if there is one without waiting, and what is buffered\<close>
  "sse_next now_iso i buf h =
     (case buf of
        ev # rest \<Rightarrow> (Some ev, rest, h)
      | [] \<Rightarrow>
          (case hb_conns h i of
             None \<Rightarrow> (None, [], h)
           | Some c \<Rightarrow>
               (case map (frame_to_event now_iso) (fst (drain c)) of
                  [] \<Rightarrow> (None, [], h)
                | ev # rest \<Rightarrow> (Some ev, rest, update_conn i (\<lambda>c. snd (drain c)) h))))"

section \<open>The health of the upstreams\<close>

record health =
  hl_name :: string
  hl_kind :: string
  hl_state :: string
  hl_detail :: string
  hl_ts :: string

definition report_kind :: "hub_ext \<Rightarrow> string \<Rightarrow> string \<Rightarrow> string \<Rightarrow> string \<Rightarrow> string \<Rightarrow> (string, string) hash_map \<Rightarrow> (string, string) hash_map" where
  \<comment> \<open>the hash kept in Redis; without Redis nothing is written\<close>
  "report_kind x now name kind st dt m =
     (if hx_redis x then
        hm_insert name (hx_show x (JObject [(''kind'', JString kind), (''state'', JString st), (''detail'', JString dt),
                                            (''ts'', JString now)])) m
      else m)"

definition health_of :: "hub_ext \<Rightarrow> string \<times> string \<Rightarrow> health" where
  "health_of x = (\<lambda>(name, raw).
     let v = (case hx_parse x raw of Some v \<Rightarrow> v | None \<Rightarrow> JNull);
         s = (\<lambda>k. case as_str (json_get k v) of Some t \<Rightarrow> t | None \<Rightarrow> [])
     in \<lparr>hl_name = name, hl_kind = (if s ''kind'' = [] then ''connection'' else s ''kind''),
         hl_state = (if s ''state'' = [] then ''?'' else s ''state''), hl_detail = s ''detail'', hl_ts = s ''ts''\<rparr>)"

definition read_all :: "hub_ext \<Rightarrow> (string, string) hash_map \<Rightarrow> health list" where
  "read_all x m = sort_key (\<lambda>h. map code (hl_name h)) (map (health_of x) (if hx_redis x then m else []))"

section \<open>A stream among others\<close>

definition acts_for :: "string \<Rightarrow> hub_act \<Rightarrow> bool" where
  "acts_for i a =
     (case a of Act_Register now j c e \<Rightarrow> j = i | Act_Unregister j \<Rightarrow> j = i | Act_Subscribe j syms \<Rightarrow> j = i
      | Act_Unsubscribe j syms \<Rightarrow> j = i | _ \<Rightarrow> False)"

inductive stream_step :: "hub_ext \<Rightarrow> bool \<Rightarrow> nat \<Rightarrow> string \<Rightarrow> hub \<Rightarrow> hub \<Rightarrow> bool" for x news_only cap i where
  own_turn: "ws_turn x now news_only cap i m h = Some (sigs, h1) \<Longrightarrow> stream_step x news_only cap i h h1"
| other_act: "\<not> acts_for i a \<Longrightarrow> stream_step x news_only cap i h (snd (hub_run a h))"

definition symbols_of :: "string \<Rightarrow> hub \<Rightarrow> string set" where
  "symbols_of i h = {s. i \<in> set (subscribers s h)}"

definition capped :: "nat \<Rightarrow> string \<Rightarrow> hub \<Rightarrow> bool" where
  "capped cap i h \<longleftrightarrow> hub_wf h \<and> hb_conns h i \<noteq> None \<and> card (symbols_of i h) \<le> lifetime_of i h \<and> lifetime_of i h \<le> cap"

lemma finite_symbols [simp]: "finite (symbols_of i h)"
proof (rule finite_subset)
  show "symbols_of i h \<subseteq> fst ` set (hb_subs h)"
  proof
    fix s assume "s \<in> symbols_of i h"
    then have "map_of (hb_subs h) s \<noteq> None" by (cases "map_of (hb_subs h) s") (simp_all add: symbols_of_def subscribers_def)
    then show "s \<in> fst ` set (hb_subs h)" by (simp add: map_of_eq_None_iff)
  qed
qed simp

subsection \<open>What leaves a connection's counters alone\<close>

definition same_conn :: "string \<Rightarrow> hub \<Rightarrow> hub \<Rightarrow> bool" where
  "same_conn i h h' \<longleftrightarrow> lifetime_of i h' = lifetime_of i h \<and> (hb_conns h' i = None \<longleftrightarrow> hb_conns h i = None)"

lemma same_conn_trans: "same_conn i h h1 \<Longrightarrow> same_conn i h1 h2 \<Longrightarrow> same_conn i h h2"
  by (simp add: same_conn_def)

lemma same_conn_refl [simp]: "same_conn i h h"
  by (simp add: same_conn_def)

lemma same_conn_eq: "hb_conns h' i = hb_conns h i \<Longrightarrow> same_conn i h h'"
  by (simp add: same_conn_def lifetime_of_def)

lemma push_lifetime [simp]: "cn_lifetime (push now f c) = cn_lifetime c"
  by (simp add: push_def Let_def)

lemma same_conn_push [simp]: "same_conn i h (push_to now f j h)"
  by (auto simp: same_conn_def lifetime_of_def push_to_def split: option.split)

lemma same_conn_fold_push [simp]: "same_conn i h (fold (push_to now f) js h)"
proof (induction js arbitrary: h)
  case (Cons j js)
  show ?case using same_conn_trans[OF same_conn_push Cons.IH] by simp
qed simp

lemma same_conn_replay [simp]: "same_conn i h (replay_last x now j s h)"
  by (auto simp: replay_last_def Let_def split: option.split)

lemma same_conn_fold_replay [simp]: "same_conn i h (fold (replay_last x now j) ss h)"
proof (induction ss arbitrary: h)
  case (Cons s ss)
  show ?case using same_conn_trans[OF same_conn_replay Cons.IH] by simp
qed simp

lemma same_conn_message [simp]: "same_conn i h (on_channel_message x now ch raw h)"
proof -
  have "same_conn i h (fold (push_to now f) js (count_frame k v (stash_tick x k key v h)))" for f js k key v
    by (rule same_conn_trans[OF same_conn_eq same_conn_fold_push]) simp
  then show ?thesis by (auto simp: on_channel_message_def on_payload_def Let_def split: option.split)
qed

lemma same_conn_register: "j \<noteq> i \<Longrightarrow> same_conn i h (snd (register now j c e h))"
proof -
  assume "j \<noteq> i"
  then have "same_conn i h (h\<lparr>hb_conns := (hb_conns h)(j \<mapsto> c), hb_open := op, hb_by_sub := bs\<rparr>)" for op bs
    by (intro same_conn_eq) simp
  then show ?thesis by (auto simp: register_def Let_def split: option.split intro: same_conn_trans[OF _ same_conn_push])
qed

lemma same_conn_unregister [simp]: "same_conn i h (snd (unregister_section j h))"
  by (intro same_conn_eq) (simp add: unregister_section_def Let_def)

lemma same_conn_tier [simp]: "same_conn i h (set_tier now s t h)" "same_conn i h (clear_tier_if s t h)"
proof -
  have "same_conn i h (h\<lparr>hb_tiers := ts\<rparr>)" for ts by (intro same_conn_eq) simp
  then show "same_conn i h (set_tier now s t h)" "same_conn i h (clear_tier_if s t h)"
    by (auto simp: set_tier_def clear_tier_if_def Let_def intro: same_conn_trans[OF _ same_conn_fold_push])
qed

lemma unsubscribe_one_conns: "unsubscribe_one j s (r, e, h) = (r', e', h') \<Longrightarrow> hb_conns h' = hb_conns h"
  by (auto simp: unsubscribe_one_def Let_def split: option.splits if_splits)

lemma unsubscribe_conns: "fold (unsubscribe_one j) syms (r, e, h) = (r', e', h') \<Longrightarrow> hb_conns h' = hb_conns h"
proof (induction syms arbitrary: r e h)
  case (Cons s syms)
  obtain r1 e1 h1 where "unsubscribe_one j s (r, e, h) = (r1, e1, h1)" by (metis prod_cases3)
  then show ?case using Cons unsubscribe_one_conns by fastforce
qed simp

lemma subscribe_one_other: "j \<noteq> i \<Longrightarrow> subscribe_one j s (f, h) = (f', h') \<Longrightarrow> hb_conns h' i = hb_conns h i"
  by (auto simp: subscribe_one_def Let_def split: if_splits)

lemma subscribe_other: "j \<noteq> i \<Longrightarrow> fold (subscribe_one j) syms (f, h) = (f', h') \<Longrightarrow> hb_conns h' i = hb_conns h i"
proof (induction syms arbitrary: f h)
  case (Cons s syms)
  obtain f1 h1 where "subscribe_one j s (f, h) = (f1, h1)" by (meson surj_pair)
  then show ?case using Cons subscribe_one_other[OF Cons.prems(1)] by fastforce
qed simp

lemma same_conn_run:
  assumes "\<not> acts_for i a"
  shows "same_conn i h (snd (hub_run a h))"
proof (cases a)
  case (Act_Register now j c e)
  then show ?thesis using assms by (simp add: acts_for_def same_conn_register)
next
  case (Act_Unregister j)
  then show ?thesis using same_conn_unregister[of i h j] by (simp add: unregister_def case_prod_unfold)
next
  case (Act_Subscribe j syms)
  obtain f h1 where sec: "subscribe_section j syms h = (f, h1)" by (meson surj_pair)
  have "j \<noteq> i" using assms Act_Subscribe by (simp add: acts_for_def)
  from subscribe_other[OF this sec[unfolded subscribe_section_def]] show ?thesis
    using Act_Subscribe by (simp add: sec same_conn_eq)
next
  case (Act_Unsubscribe j syms)
  obtain r e h1 where sec: "unsubscribe_section j syms h = (r, e, h1)" by (metis prod_cases3)
  show ?thesis using unsubscribe_conns[OF sec[unfolded unsubscribe_section_def]] Act_Unsubscribe
    by (simp add: unsubscribe_def sec same_conn_eq)
next
  case (Act_Drain j)
  have "same_conn i h (update_conn j (\<lambda>c. snd (drain c)) h)"
    by (auto simp: same_conn_def lifetime_of_def drain_def split: option.split)
  then show ?thesis using Act_Drain by simp
qed simp_all

lemma symbols_quiet: "hb_subs h' = hb_subs h \<Longrightarrow> symbols_of i h' = symbols_of i h"
  by (simp add: symbols_of_def subscribers_def)

lemma symbols_run:
  assumes "hub_wf h" "\<not> acts_for i a"
  shows "symbols_of i (snd (hub_run a h)) = symbols_of i h"
proof (cases a)
  case (Act_Unregister j)
  obtain e h1 where sec: "unregister_section j h = (e, h1)" by (meson surj_pair)
  have "j \<noteq> i" using assms(2) Act_Unregister by (simp add: acts_for_def)
  then show ?thesis using unregister_section_effect(2)[OF assms(1) sec] Act_Unregister
    by (auto simp: unregister_def sec symbols_of_def)
next
  case (Act_Subscribe j syms)
  obtain f h1 where sec: "subscribe_section j syms h = (f, h1)" by (meson surj_pair)
  have "j \<noteq> i" using assms(2) Act_Subscribe by (simp add: acts_for_def)
  then show ?thesis using subscribe_section_effect[OF assms(1) sec[unfolded subscribe_section_def]] Act_Subscribe
    by (auto simp: sec symbols_of_def add_subscriber_def)
next
  case (Act_Unsubscribe j syms)
  obtain r e h1 where sec: "unsubscribe_section j syms h = (r, e, h1)" by (metis prod_cases3)
  have "j \<noteq> i" using assms(2) Act_Unsubscribe by (simp add: acts_for_def)
  then show ?thesis using unsubscribe_section_effect[OF assms(1) sec[unfolded unsubscribe_section_def]] Act_Unsubscribe
    by (auto simp: unsubscribe_def sec symbols_of_def)
qed (simp_all only: hub_run.simps snd_conv, (rule symbols_quiet, simp)+)

subsection \<open>The lifetime count\<close>

lemma subscribe_one_counts:
  assumes "hub_wf h" "hb_conns h i \<noteq> None" "subscribe_one i s (f, h) = (f', h')"
  shows "lifetime_of i h' + card (symbols_of i h) = lifetime_of i h + card (symbols_of i h')" "hb_conns h' i \<noteq> None"
    "lifetime_of i h' \<le> lifetime_of i h + 1"
proof -
  note subs = subscribe_one_effect(3)[OF assms(1,3)]
  show "hb_conns h' i \<noteq> None" "lifetime_of i h' \<le> lifetime_of i h + 1"
    using assms(2,3) by (auto simp: subscribe_one_def Let_def lifetime_of_def split: if_splits option.splits)
  show "lifetime_of i h' + card (symbols_of i h) = lifetime_of i h + card (symbols_of i h')"
  proof (cases "i \<in> set (subscribers s h)")
    case True
    then have "symbols_of i h' = symbols_of i h" using subs by (auto simp: symbols_of_def add_subscriber_def)
    moreover have "h' = h" using True assms(3) by (simp add: subscribe_one_def Let_def)
    ultimately show ?thesis by simp
  next
    case False
    then have sym: "symbols_of i h' = insert s (symbols_of i h)" "s \<notin> symbols_of i h"
      using subs by (auto simp: symbols_of_def add_subscriber_def)
    have "lifetime_of i h' = lifetime_of i h + 1"
      using False assms(2,3) by (auto simp: subscribe_one_def Let_def lifetime_of_def split: option.splits)
    then show ?thesis using sym by simp
  qed
qed

lemma subscribe_counts:
  assumes "hub_wf h" "hb_conns h i \<noteq> None" "fold (subscribe_one i) syms (f, h) = (f', h')"
  shows "lifetime_of i h' + card (symbols_of i h) = lifetime_of i h + card (symbols_of i h') \<and> hb_conns h' i \<noteq> None \<and>
    lifetime_of i h' \<le> lifetime_of i h + length syms"
  using assms
proof (induction syms arbitrary: f h)
  case (Cons s syms)
  obtain f1 h1 where one: "subscribe_one i s (f, h) = (f1, h1)" by (meson surj_pair)
  note eff = subscribe_one_counts[OF Cons.prems(1,2) one] subscribe_one_effect(1)[OF Cons.prems(1) one]
  have "fold (subscribe_one i) syms (f1, h1) = (f', h')" using Cons.prems(3) one by simp
  from Cons.IH[OF eff(4,2) this] eff show ?case by simp
qed simp

lemma capped_quiet: "capped cap i h \<Longrightarrow> same_conn i h h' \<Longrightarrow> hub_wf h' \<Longrightarrow> symbols_of i h' = symbols_of i h \<Longrightarrow> capped cap i h'"
  by (auto simp: capped_def same_conn_def)

lemma capped_push [simp]: "capped cap i h \<Longrightarrow> capped cap i (push_to now f j h)"
  by (rule capped_quiet) (simp_all add: capped_def hub_wf_cong[OF push_to_subs] symbols_quiet[OF push_to_subs])

lemma capped_subscribe:
  assumes "capped cap i h" "lifetime_of i h + length syms \<le> cap" "subscribe x now i syms h = (tiers, sigs, h')"
  shows "capped cap i h'"
proof -
  obtain f h1 where sec: "subscribe_section i syms h = (f, h1)" by (meson surj_pair)
  have wf: "hub_wf h" "hb_conns h i \<noteq> None" using assms(1) by (simp_all add: capped_def)
  note eff = subscribe_section_effect[OF wf(1) sec[unfolded subscribe_section_def]]
    subscribe_counts[OF wf sec[unfolded subscribe_section_def]]
  have "capped cap i h1" using assms(1,2) eff by (simp add: capped_def)
  moreover have "h' = fold (replay_last x now i) syms h1" using assms(3) sec by (simp add: subscribe_def)
  moreover have "hb_subs h' = hb_subs h1" using calculation(2) by simp
  ultimately show ?thesis
    using capped_quiet[of cap i h1 h'] hub_wf_cong[of h' h1] symbols_quiet[of h' h1 i] by (simp add: capped_def)
qed

lemma capped_unsubscribe:
  assumes "capped cap i h" "unsubscribe i syms h = (removed, sigs, h')"
  shows "capped cap i h'"
proof -
  obtain r e h1 where sec: "unsubscribe_section i syms h = (r, e, h1)" by (metis prod_cases3)
  have wf: "hub_wf h" and h': "h' = h1" using assms sec by (simp_all add: capped_def unsubscribe_def)
  note eff = unsubscribe_section_effect[OF wf sec[unfolded unsubscribe_section_def]]
  have "symbols_of i h1 \<subseteq> symbols_of i h" using eff by (auto simp: symbols_of_def split: if_splits)
  then have "card (symbols_of i h1) \<le> card (symbols_of i h)" by (simp add: card_mono)
  moreover have "hb_conns h1 = hb_conns h" using unsubscribe_conns[OF sec[unfolded unsubscribe_section_def]] .
  ultimately show ?thesis using assms(1) eff by (simp add: capped_def h' lifetime_of_def)
qed

lemma capped_frame:
  assumes "capped cap i h" "ws_frame x now news_only cap i v h = (sigs, h')"
  shows "capped cap i h'"
proof -
  consider "as_str (json_get ''type'' v) = Some ''subscribe''" | "as_str (json_get ''type'' v) = Some ''unsubscribe''"
    | "as_str (json_get ''type'' v) \<noteq> Some ''subscribe''" "as_str (json_get ''type'' v) \<noteq> Some ''unsubscribe''" by blast
  then show ?thesis
  proof cases
    case 1
    obtain tiers s2 h1 where sub: "subscribe x now i (upper_symbols v) h = (tiers, s2, h1)" by (metis prod_cases3)
    show ?thesis using assms 1 sub capped_subscribe[OF assms(1) _ sub]
      by (auto simp: ws_frame_def Let_def split: if_splits)
  next
    case 2
    obtain r s2 h1 where sub: "unsubscribe i (upper_symbols v) h = (r, s2, h1)" by (metis prod_cases3)
    show ?thesis using assms 2 sub capped_unsubscribe[OF assms(1) sub] by (auto simp: ws_frame_def Let_def)
  next
    case 3
    then show ?thesis using assms by (auto simp: ws_frame_def Let_def split: if_splits)
  qed
qed

lemma capped_step:
  assumes "stream_step x news_only cap i h h'" "capped cap i h"
  shows "capped cap i h'"
  using assms(1)
proof cases
  case (own_turn now m sigs)
  then show ?thesis using assms(2) capped_frame[OF assms(2)]
    by (auto simp: ws_turn_def split: ws_message.splits option.splits)
next
  case (other_act a)
  have "hub_wf h" using assms(2) by (simp add: capped_def)
  then show ?thesis unfolding other_act(1)
    using capped_quiet[OF assms(2) same_conn_run[OF other_act(2)]] run_effect[of h a] symbols_run[OF _ other_act(2)] by simp
qed

text \<open>C24: While a WebSocket is served, whatever other clients, the listener and the sender do
  between its turns, its client is never subscribed to more symbols than
  \<open>rt_ws_lifetime_syms\<close>, and the count of its lifetime never exceeds that cap.\<close>
theorem ws_symbols_stay_capped:
  assumes "(stream_step x news_only cap i)\<^sup>*\<^sup>* (snd (register now i (new_conn sub Ws q) enforce h)) h'"
    and "hub_wf h" "symbols_of i h = {}"
  shows "card (symbols_of i h') \<le> cap \<and> lifetime_of i h' \<le> cap"
proof -
  let ?h1 = "snd (register now i (new_conn sub Ws q) enforce h)"
  have "hb_conns ?h1 i = Some (new_conn sub Ws q)"
    by (auto simp: register_def Let_def push_to_def split: option.split)
  then have "capped cap i ?h1"
    using assms(2,3) hub_wf_cong[OF register_subs] symbols_quiet[OF register_subs]
    by (simp add: capped_def lifetime_of_def new_conn_def)
  with assms(1) have "capped cap i h'"
    by (induction rule: rtranclp_induct) (auto intro: capped_step)
  then show ?thesis by (simp add: capped_def)
qed

definition asking :: "string list \<Rightarrow> json" where
  "asking syms = JObject [(''type'', JString ''subscribe''), (''symbols'', symbols_json syms)]"

definition asks_for :: "string list \<Rightarrow> hub_ext" where
  "asks_for syms = \<lparr>hx_show = (\<lambda>v. []), hx_parse = (\<lambda>t. Some (asking syms)), hx_redis = False\<rparr>"

theorem ws_symbols_stay_capped_witness:
  "let h1 = snd (register 0 ''a'' (new_conn ''u'' Ws 8) True (hub_start [''tick'']));
       h2 = snd (the (ws_turn (asks_for [''X'']) 0 False 1 ''a'' (Ws_Text []) h1))
   in card (symbols_of ''a'' h2) \<le> 1 \<and> lifetime_of ''a'' h2 \<le> 1"
proof -
  let ?h1 = "snd (register 0 ''a'' (new_conn ''u'' Ws 8) True (hub_start [''tick'']))"
  let ?t = "ws_turn (asks_for [''X'']) 0 False 1 ''a'' (Ws_Text []) ?h1"
  have "?t = Some (fst (the ?t), snd (the ?t))" by (simp add: ws_turn_def asks_for_def)
  then have "stream_step (asks_for [''X'']) False 1 ''a'' ?h1 (snd (the ?t))" by (rule own_turn)
  then have "(stream_step (asks_for [''X'']) False 1 ''a'')\<^sup>*\<^sup>* ?h1 (snd (the ?t))" by (rule r_into_rtranclp[of "stream_step (asks_for [''X'']) False 1 ''a''"])
  moreover have "symbols_of ''a'' (hub_start [''tick'']) = {}" by (simp add: symbols_of_def subscribers_def hub_start_def)
  ultimately show ?thesis unfolding Let_def by (rule ws_symbols_stay_capped[OF _ hub_start_wf])
qed

section \<open>A whole session\<close>

definition accounts :: "string \<Rightarrow> hub \<Rightarrow> (string \<times> bool) list \<times> hub \<Rightarrow> bool" where
  \<comment> \<open>an operation that touches only the pairs of a connection, and signals what it changes\<close>
  "accounts i h r \<longleftrightarrow>
     hub_wf (snd r) \<and> subscribed (snd r) - {i} \<times> UNIV = subscribed h - {i} \<times> UNIV \<and>
     (\<forall>s. balance s (fst r) = of_bool (wanted (snd r) s) - of_bool (wanted h s))"

lemma subscribed_cong: "hb_subs h' = hb_subs h \<Longrightarrow> subscribed h' = subscribed h"
  by (simp add: subscribed_def subscribers_def)

lemma wanted_cong: "hb_subs h' = hb_subs h \<Longrightarrow> wanted h' s = wanted h s"
  by (simp add: wanted_def subscribers_def)

lemma accounts_quiet: "hub_wf h \<Longrightarrow> hb_subs h' = hb_subs h \<Longrightarrow> accounts i h ([], h')"
  using hub_wf_cong[of h' h] subscribed_cong[of h' h] wanted_cong[of h' h] by (simp add: accounts_def)

lemma accounts_then:
  assumes "accounts i h (sigs, h1)" "accounts i h1 (sigs2, h2)"
  shows "accounts i h (sigs @ sigs2, h2)"
  using assms by (simp add: accounts_def)

lemma accounts_then_quiet: "accounts i h (sigs, h1) \<Longrightarrow> hb_subs h2 = hb_subs h1 \<Longrightarrow> accounts i h (sigs, h2)"
  using accounts_then[of i h sigs h1 "[]" h2] accounts_quiet[of h1 h2 i] by (simp add: accounts_def)

lemma accounts_subscribe:
  assumes "hub_wf h" "subscribe x now i syms h = (tiers, sigs, h')"
  shows "accounts i h (sigs, h')"
proof -
  obtain f h1 where sec: "subscribe_section i syms h = (f, h1)" by (meson surj_pair)
  have run: "hub_run (Act_Subscribe i syms) h = (sigs, h1)" and h': "hb_subs h' = hb_subs h1"
    using assms(2) sec by (auto simp: subscribe_def)
  have "subscribed h1 = subscribed h \<union> {i} \<times> set syms"
    using subscribe_section_effect[OF assms(1) sec[unfolded subscribe_section_def]]
    by (auto simp: subscribed_def add_subscriber_def)
  then have "accounts i h (sigs, h1)" using run_effect[OF assms(1), of "Act_Subscribe i syms"] unfolding run accounts_def by auto
  then show ?thesis using h' by (rule accounts_then_quiet)
qed

lemma accounts_unsubscribe:
  assumes "hub_wf h" "unsubscribe i syms h = (removed, sigs, h')"
  shows "accounts i h (sigs, h')"
proof -
  have run: "hub_run (Act_Unsubscribe i syms) h = (sigs, h')" using assms(2) by simp
  obtain r e where "unsubscribe_section i syms h = (r, e, h')" using assms(2) by (auto simp: unsubscribe_def split: prod.splits)
  from unsubscribe_section_effect[OF assms(1) this[unfolded unsubscribe_section_def]]
  have "subscribed h' = subscribed h - {i} \<times> set syms" by (auto simp: subscribed_def split: if_splits)
  then show ?thesis using run_effect[OF assms(1), of "Act_Unsubscribe i syms"] unfolding run accounts_def by auto
qed

lemma accounts_unregister:
  assumes "hub_wf h"
  shows "accounts i h (unregister i h) \<and> subscribed (snd (unregister i h)) = subscribed h - {i} \<times> UNIV"
proof -
  obtain e h1 where sec: "unregister_section i h = (e, h1)" by (meson surj_pair)
  have "subscribed h1 = subscribed h - {i} \<times> UNIV"
    using unregister_section_effect(2)[OF assms sec] by (auto simp: subscribed_def)
  then show ?thesis using run_effect[OF assms, of "Act_Unregister i"] by (auto simp: accounts_def unregister_def sec)
qed

lemma accounts_frame:
  assumes "hub_wf h" "ws_frame x now news_only cap i v h = (sigs, h')"
  shows "accounts i h (sigs, h')"
proof -
  consider "as_str (json_get ''type'' v) = Some ''subscribe''" "lifetime_of i h + length (upper_symbols v) \<le> cap"
    | "as_str (json_get ''type'' v) = Some ''unsubscribe''"
    | "sigs = []" "hb_subs h' = hb_subs h"
    using assms(2) by (auto simp: ws_frame_def Let_def split: if_splits)
  then show ?thesis
  proof cases
    case 1
    obtain tiers s2 h1 where sub: "subscribe x now i (upper_symbols v) h = (tiers, s2, h1)" by (metis prod_cases3)
    have "sigs = s2" "hb_subs h' = hb_subs h1" using assms(2) 1 sub by (auto simp: ws_frame_def Let_def)
    then show ?thesis using accounts_then_quiet[OF accounts_subscribe[OF assms(1) sub]] by simp
  next
    case 2
    obtain r s2 h1 where sub: "unsubscribe i (upper_symbols v) h = (r, s2, h1)" by (metis prod_cases3)
    have "sigs = s2" "hb_subs h' = hb_subs h1" using assms(2) 2 sub by (auto simp: ws_frame_def Let_def)
    then show ?thesis using accounts_then_quiet[OF accounts_unsubscribe[OF assms(1) sub]] by simp
  next
    case 3
    then show ?thesis using accounts_quiet[OF assms(1)] by simp
  qed
qed

lemma accounts_turn:
  assumes "hub_wf h" "ws_turn x now news_only cap i m h = Some (sigs, h')"
  shows "accounts i h (sigs, h')"
proof (cases m)
  case (Ws_Text t)
  then show ?thesis using assms accounts_frame[OF assms(1)] accounts_quiet[OF assms(1)]
    by (cases "hx_parse x t") (auto simp: ws_turn_def)
qed (use assms accounts_quiet[OF assms(1)] in \<open>auto simp: ws_turn_def\<close>)

lemma accounts_receive:
  assumes "hub_wf h"
  shows "accounts i h (ws_receive x now news_only cap i ms h)"
  using assms
proof (induction ms arbitrary: h)
  case Nil
  then show ?case by (simp add: accounts_quiet)
next
  case (Cons m ms)
  show ?case
  proof (cases "ws_turn x now news_only cap i m h")
    case None
    then show ?thesis using accounts_quiet[OF Cons.prems] by simp
  next
    case (Some r)
    obtain sigs h1 where r: "r = (sigs, h1)" by (meson surj_pair)
    have one: "accounts i h (sigs, h1)" using accounts_turn[OF Cons.prems] Some r by blast
    then have "accounts i h1 (ws_receive x now news_only cap i ms h1)" by (intro Cons.IH) (simp add: accounts_def)
    then show ?thesis using accounts_then[OF one] by (cases "ws_receive x now news_only cap i ms h1") (simp add: Some r)
  qed
qed

text \<open>C25: However a WebSocket session goes, malformed and refused frames included, and wherever it
  ends, it leaves the hub's subscriptions as it found them, and for every symbol the activations
  it signalled and the deactivations cancel out.\<close>
theorem session_leaves_no_trace:
  assumes "hub_wf h" "symbols_of i h = {}"
  shows "subscribed (snd (ws_serve x now news_only cap enforce i c msgs h)) = subscribed h \<and>
    balance s (fst (ws_serve x now news_only cap enforce i c msgs h)) = 0"
proof -
  let ?h1 = "snd (register now i c enforce h)"
  obtain sigs h2 where rec: "ws_receive x now news_only cap i msgs ?h1 = (sigs, h2)" by (meson surj_pair)
  obtain sigs2 h3 where un: "unregister i h2 = (sigs2, h3)" by (meson surj_pair)
  have wf1: "hub_wf ?h1" using assms(1) hub_wf_cong[OF register_subs] by blast
  have one: "accounts i ?h1 (sigs, h2)" using accounts_receive[OF wf1, of i x now news_only cap msgs] by (simp add: rec)
  then have wf2: "hub_wf h2" by (simp add: accounts_def)
  have whole: "accounts i ?h1 (sigs @ sigs2, h3)" and gone: "subscribed h3 = subscribed h2 - {i} \<times> UNIV"
    using accounts_then[OF one] accounts_unregister[OF wf2, of i] by (simp_all add: un)
  have none: "subscribed h - {i} \<times> UNIV = subscribed h" using assms(2) by (auto simp: symbols_of_def subscribed_def)
  have same: "subscribed h3 = subscribed h"
    using whole gone none by (auto simp: accounts_def subscribed_cong[OF register_subs])
  then have "wanted h3 s = wanted h s" for s by (metis range_subscribed wanted_def)
  then show ?thesis using whole same wanted_cong[OF register_subs[of now i c enforce h]]
    by (simp add: ws_serve_def rec un accounts_def)
qed

theorem session_leaves_no_trace_witness:
  "subscribed (snd (ws_serve (asks_for [''X'']) 0 False 5 True ''a'' (new_conn ''u'' Ws 8) [Ws_Text [], Ws_Close] (hub_start []))) =
     subscribed (hub_start []) \<and>
   balance ''X'' (fst (ws_serve (asks_for [''X'']) 0 False 5 True ''a'' (new_conn ''u'' Ws 8) [Ws_Text [], Ws_Close] (hub_start []))) = 0"
  by (rule session_leaves_no_trace[OF hub_start_wf]) (simp add: symbols_of_def subscribers_def hub_start_def)

section \<open>Frames, events and checks\<close>

lemma sends_news_only:
  "sends True (data_frame k v) \<longleftrightarrow> k = ''news''" "\<not> sends True (tier_frame s t)" "sends True (heartbeat_frame ts)"
  "sends True (hub_error c m)" "sends True (subscribed_frame b syms tiers)" "sends False f"
  by (auto simp: sends_def data_frame_def tier_frame_def heartbeat_frame_def hub_error_def subscribed_frame_def
      json_get_def as_str_def)

lemma event_of_data: "k \<noteq> ''heartbeat'' \<Longrightarrow> frame_to_event now (data_frame k v) = \<lparr>ev_event = k, ev_data = v\<rparr>"
  by (simp add: frame_to_event_def data_frame_def json_get_def as_str_def)

lemma event_of_heartbeat: "frame_to_event now (heartbeat_frame ts) = \<lparr>ev_event = ''heartbeat'', ev_data = JObject [(''ts'', JString ts)]\<rparr>"
  by (simp add: frame_to_event_def heartbeat_frame_def json_get_def as_str_def)

lemma event_of_control: "frame_to_event now (hub_error c m) = \<lparr>ev_event = ''error'', ev_data = hub_error c m\<rparr>"
  by (simp add: frame_to_event_def hub_error_def json_get_def as_str_def Let_def)

lemma upgrade_needs_identity:
  assumes "ws_upgrade st has_hub au headers news_only = (au', Upgraded sub enforce c cap hb n)"
  shows "\<exists>token ident. extract_ws_token headers = Some token \<and> snd (resolve_bearer au token) = Inr (Some ident) \<and>
    sub = i_sub ident \<and> cn_sub c = sub \<and> cn_lifetime c = 0 \<and> n = news_only"
  using assms
  by (auto simp: ws_upgrade_def new_conn_def split: if_splits option.splits prod.splits sum.splits)

lemma sse_stream_bounded:
  assumes "quotes_stream x st now has_hub i ident symbols h = Inr (ev, sigs, h')" "hub_wf h" "symbols_of i h = {}"
  shows "symbols_of i h' = set (sse_symbols symbols) \<and> int (card (symbols_of i h')) \<le> rt_sse_request_syms st"
proof -
  let ?c = "new_conn (i_sub ident) Sse (nat (rt_slowclient_queue st))"
  define h1 where "h1 = snd (register now i ?c (\<not> starts_with (i_sub ident) ''internal:'') h)"
  have syms: "int (length (sse_symbols symbols)) \<le> rt_sse_request_syms st" and has: "has_hub" "sse_symbols symbols \<noteq> []"
    using assms(1) by (auto simp: quotes_stream_def sse_check_def split: if_splits)
  obtain tiers s2 h2 where sub: "subscribe x now i (sse_symbols symbols) h1 = (tiers, s2, h2)" by (metis prod_cases3)
  have h': "h' = h2" using assms(1) has syms sub by (simp add: quotes_stream_def sse_check_def h1_def)
  have wf: "hub_wf h1" and none: "symbols_of i h1 = {}"
    using assms(2,3) hub_wf_cong[OF register_subs] symbols_quiet[OF register_subs] by (simp_all add: h1_def)
  obtain f h3 where sec: "subscribe_section i (sse_symbols symbols) h1 = (f, h3)" by (meson surj_pair)
  have "hb_subs h2 = hb_subs h3" using sub sec by (auto simp: subscribe_def)
  moreover have "symbols_of i h3 = set (sse_symbols symbols)"
    using subscribe_section_effect[OF wf sec[unfolded subscribe_section_def]] none
    by (auto simp: symbols_of_def add_subscriber_def)
  ultimately have "symbols_of i h' = set (sse_symbols symbols)" using symbols_quiet h' by metis
  moreover have "int (card (set (sse_symbols symbols))) \<le> int (length (sse_symbols symbols))" by (simp add: card_length)
  ultimately show ?thesis using syms by simp
qed

lemma resubscribing_can_be_refused:
  \<comment> \<open>the check counts symbols the connection already has\<close>
  assumes "as_str (json_get ''type'' v) = Some ''subscribe''" "lifetime_of i h = cap" "upper_symbols v \<noteq> []"
  shows "ws_frame x now news_only cap i v h =
    ([], push_to now (hub_error ''too_many_symbols'' (''lifetime cap is '' @ show_nat cap)) i h)"
  using assms by (cases "upper_symbols v") (simp_all add: ws_frame_def Let_def)

lemma eviction_does_not_end_a_session:
  \<comment> \<open>\<open>ws_serve\<close> and \<open>quotes_stream\<close> drop what \<open>register\<close> returns\<close>
  assumes "register now i c enforce h = (Some p, h')"
  shows "symbols_of p h' = symbols_of p h"
proof (rule symbols_quiet)
  show "hb_subs h' = hb_subs h" using register_subs[of now i c enforce h] by (simp add: assms)
qed

lemma reported_health_is_read:
  assumes "\<And>v. hx_parse x (hx_show x v) = Some v" "hx_redis x"
  shows "\<lparr>hl_name = name, hl_kind = (if kind = [] then ''connection'' else kind), hl_state = (if st = [] then ''?'' else st),
      hl_detail = dt, hl_ts = now\<rparr> \<in> set (read_all x (report_kind x now name kind st dt m))"
  unfolding read_all_def set_sort
  using assms by (simp add: report_kind_def hm_insert_def health_of_def json_get_def as_str_def Let_def)

end
