(* ===== verification/Blobs.thy ===== *)
theory Blobs
  imports Ingest_Routes Llm_Route Config
begin

text \<open>
  Blobs: content-addressed ingest (\<open>ingest/blob.rs\<close>, the \<open>/ingest/blob\<close> handler), the blob
  routes by key (\<open>handlers/blobs.rs\<close>, \<open>queries/blobs.rs\<close>), the tenant-private uploads
  (\<open>handlers/me_blobs.rs\<close>), and writes to a store that may keep no attributes (\<open>objstore.rs\<close>).

  The object store is a map from object paths to bytes and a content type; its failures,
  the encoding of a key as a path (\<open>ObjPath::from\<close>), the content hash and the clock are
  fields of \<open>blob_env\<close>.  The two tables are maps on their keys; the ledger of runs is
  that of \<open>Ingest_Core\<close>, over the blob state.
\<close>

section \<open>Keys\<close>

definition sanitize_key :: "string \<Rightarrow> string option" where
  \<comment> \<open>\<open>Path::components\<close> on Unix: empty segments and \<open>.\<close> are dropped\<close>
  "sanitize_key key =
     (if starts_with key ''/'' then None
      else
        (let segs = filter (\<lambda>s. s \<noteq> [] \<and> s \<noteq> ''.'') (split_on (CHR ''/'') key)
         in if ''..'' \<in> set segs \<or> segs = [] then None else Some (join ''/'' segs)))"

definition sanitize_blob_key :: "string \<Rightarrow> string api_result" where
  "sanitize_blob_key key = (case sanitize_key key of Some k \<Rightarrow> Inr k | None \<Rightarrow> Inl (BadRequest ''invalid key''))"

definition sanitize_prefix :: "(string \<Rightarrow> string) \<Rightarrow> string \<Rightarrow> string option api_result" where
  "sanitize_prefix path prefix =
     (if prefix = [] then Inr None
      else (case sanitize_key prefix of
              None \<Rightarrow> Inl (BadRequest ''invalid prefix'')
            | Some clean \<Rightarrow> Inr (Some (path clean))))"

definition clamp_limit :: "nat option \<Rightarrow> nat" where
  "clamp_limit l = (case l of None \<Rightarrow> 1000 | Some n \<Rightarrow> min (max n 1) 10000)"

definition is_hidden_key :: "string \<Rightarrow> string \<Rightarrow> bool" where
  "is_hidden_key key rp \<longleftrightarrow>
     rp \<noteq> [] \<and> (key = rp \<or> starts_with key (rp @ ''/''))"

definition is_hidden_prefix :: "string \<Rightarrow> string \<Rightarrow> bool" where
  "is_hidden_prefix common_prefix rp \<longleftrightarrow>
     rp \<noteq> [] \<and>
     (let norm = trim_end_slashes common_prefix
      in norm = rp \<or> starts_with norm (rp @ ''/''))"

definition TENANT_PREFIX :: string where "TENANT_PREFIX = ''tenants''"

definition owner_segment :: "string \<Rightarrow> string option" where
  "owner_segment sub =
     (if sub \<noteq> [] \<and> length sub \<le> 128 \<and> list_all (\<lambda>b. is_ascii_alphanumeric b \<or> b = CHR ''-'' \<or> b = CHR ''_'') sub
      then Some sub else None)"

definition tenant_key :: "string \<Rightarrow> string \<Rightarrow> string" where
  "tenant_key owner sha = TENANT_PREFIX @ ''/'' @ owner @ ''/sha256='' @ sha"

definition tenant_owner_of :: "string \<Rightarrow> string option" where
  "tenant_owner_of key =
     (case strip_prefix TENANT_PREFIX key of
        None \<Rightarrow> None
      | Some r \<Rightarrow>
          (case strip_prefix ''/'' r of
             None \<Rightarrow> None
           | Some rest \<Rightarrow> non_empty (hd (split_on (CHR ''/'') rest))))"

definition may_read_tenant :: "identity \<Rightarrow> string \<Rightarrow> bool" where
  "may_read_tenant ident owner \<longleftrightarrow>
     i_role ident = ''local'' \<or> i_role ident \<in> {''admin'', ''super_admin''} \<or> i_sub ident = owner"

definition is_hex_lower :: "char \<Rightarrow> bool" where
  "is_hex_lower b \<longleftrightarrow> is_ascii_digit b \<or> (97 \<le> code b \<and> code b \<le> 102)"

definition is_sha256_hex :: "string \<Rightarrow> bool" where
  "is_sha256_hex s \<longleftrightarrow> length s = 64 \<and> list_all is_hex_lower s"

section \<open>Content types\<close>

definition key_prefix_for :: "string \<Rightarrow> string" where
  "key_prefix_for content_type =
     (let ct = to_lowercase (trim (hd (split_on (CHR '';'') content_type)))
      in if starts_with ct ''image/'' then ''images''
         else if ct = ''application/pdf'' then ''pdf''
         else if ct = ''text/html'' then ''html''
         else if ct = ''text/plain'' \<or> ct = ''text/markdown'' then ''text''
         else if starts_with ct ''audio/'' then ''audio''
         else if starts_with ct ''video/'' then ''video''
         else ''blob'')"

definition INGEST_TYPES :: "(string \<times> string) list" where
  "INGEST_TYPES =
     [(''png'', ''image/png''), (''jpg'', ''image/jpeg''), (''jpeg'', ''image/jpeg''), (''gif'', ''image/gif''),
      (''webp'', ''image/webp''), (''svg'', ''image/svg+xml''), (''pdf'', ''application/pdf''), (''html'', ''text/html''),
      (''htm'', ''text/html''), (''txt'', ''text/plain''), (''md'', ''text/markdown''), (''json'', ''application/json''),
      (''csv'', ''text/csv''), (''mp4'', ''video/mp4''), (''mp3'', ''audio/mpeg'')]"

definition extension_of :: "string \<Rightarrow> string" where
  "extension_of name = last (split_on (CHR ''.'') name)"

definition guess_name :: "string option \<Rightarrow> string" where
  "guess_name suggested_name =
     (case suggested_name of
        None \<Rightarrow> ''application/octet-stream''
      | Some name \<Rightarrow>
          (case map_of INGEST_TYPES (to_lowercase (extension_of name)) of
             Some guessed \<Rightarrow> guessed
           | None \<Rightarrow> ''application/octet-stream''))"

definition content_type_for :: "string option \<Rightarrow> string option \<Rightarrow> string" where
  "content_type_for content_type suggested_name =
     (case content_type of
        Some ct \<Rightarrow> if trim ct \<noteq> [] then hd (split_on (CHR '';'') (trim ct)) else guess_name suggested_name
      | None \<Rightarrow> guess_name suggested_name)"

definition header_value_ok :: "string \<Rightarrow> bool" where
  \<comment> \<open>\<open>HeaderValue::from_str\<close>: no control bytes but the tab\<close>
  "header_value_ok s \<longleftrightarrow> list_all (\<lambda>b. (32 \<le> code b \<and> code b \<noteq> 127) \<or> code b = 9) s"

definition valid_content_type :: "string \<Rightarrow> string option" where
  "valid_content_type raw =
     (let ct = trim raw
      in if ct = [] \<or> CHR ''/'' \<notin> set ct then None else if header_value_ok ct then Some ct else None)"

definition SERVED_TYPES :: "(string \<times> string) list" where
  "SERVED_TYPES =
     [(''png'', ''image/png''), (''jpg'', ''image/jpeg''), (''jpeg'', ''image/jpeg''), (''gif'', ''image/gif''),
      (''webp'', ''image/webp''), (''bmp'', ''image/bmp''), (''ico'', ''image/vnd.microsoft.icon''),
      (''svg'', ''image/svg+xml''), (''tif'', ''image/tiff''), (''tiff'', ''image/tiff''), (''pdf'', ''application/pdf''),
      (''html'', ''text/html''), (''htm'', ''text/html''), (''txt'', ''text/plain''), (''md'', ''text/markdown''),
      (''csv'', ''text/csv''), (''json'', ''application/json''), (''xml'', ''application/xml''), (''css'', ''text/css''),
      (''js'', ''text/javascript''), (''mjs'', ''text/javascript''), (''zip'', ''application/zip''),
      (''gz'', ''application/gzip''), (''tar'', ''application/x-tar''), (''wasm'', ''application/wasm''),
      (''mp4'', ''video/mp4''), (''webm'', ''video/webm''), (''mov'', ''video/quicktime''), (''mp3'', ''audio/mpeg''),
      (''wav'', ''audio/wav''), (''ogg'', ''audio/ogg''), (''parquet'', ''application/vnd.apache.parquet'')]"

definition guess_from_extension :: "string \<Rightarrow> string option" where
  "guess_from_extension key =
     (let ext = extension_of key in if ext = key then None else map_of SERVED_TYPES (to_lowercase ext))"

fun or_first :: "'a option list \<Rightarrow> 'a \<Rightarrow> 'a" where
  "or_first [] d = d"
| "or_first (None # xs) d = or_first xs d"
| "or_first (Some a # xs) d = a"

definition resolve_content_type :: "string option \<Rightarrow> string option \<Rightarrow> string \<Rightarrow> string" where
  "resolve_content_type stored db key =
     or_first [Option.bind stored valid_content_type, Option.bind db valid_content_type, guess_from_extension key]
       ''application/octet-stream''"

definition is_active_content_type :: "string \<Rightarrow> bool" where
  "is_active_content_type ct \<longleftrightarrow>
     to_lowercase (trim (hd (split_on (CHR '';'') ct))) \<in>
       {''text/html'', ''application/xhtml+xml'', ''image/svg+xml'', ''text/javascript'', ''application/javascript''}"

fun after_last :: "string \<Rightarrow> string \<Rightarrow> string option" where
  \<comment> \<open>the second half of \<open>rsplit_once\<close>\<close>
  "after_last needle [] = (if needle = [] then Some [] else None)"
| "after_last needle (c # cs) =
     (case after_last needle cs of Some r \<Rightarrow> Some r | None \<Rightarrow> strip_prefix needle (c # cs))"

section \<open>The stores\<close>

record object =
  ob_bytes :: string
  ob_type :: "string option"

record blob_row =
  br_url :: string
  br_type :: string
  br_size :: int
  br_name :: "string option"
  br_metadata :: json
  br_source :: string
  br_endpoint :: string
  br_run_id :: string
  br_submitted_by :: string

record tenant_row =
  tr_key :: string
  tr_type :: string
  tr_size :: int
  tr_name :: "string option"
  tr_created :: int

record blob_state =
  bs_store :: "string \<Rightarrow> object option"
  bs_blobs :: "string \<Rightarrow> blob_row option"  \<comment> \<open>\<open>raw.blobs\<close>\<close>
  bs_tenants :: "(string \<times> string, tenant_row) hash_map"  \<comment> \<open>\<open>raw.tenant_blobs\<close>\<close>

type_synonym blob_world = "blob_state ingest_world"

datatype put_reply = Put_Stored | Put_Unimplemented | Put_Error string
datatype store_reply = Store_Ok | Store_Error string

record object_meta =
  om_key :: string
  om_size :: nat
  om_modified :: string

record blob_env =
  be_settings :: blob_settings
  be_retrieval_prefix :: string
  be_sha :: "string \<Rightarrow> string"
  be_path :: "string \<Rightarrow> string"
  be_put_opts :: "string \<Rightarrow> put_reply"
  be_put :: "string \<Rightarrow> store_reply"
  be_get :: "string \<Rightarrow> store_reply"
  be_delete :: "string \<Rightarrow> store_reply"
  be_list :: "string option \<Rightarrow> string + object_meta list"
  be_list_delimiter :: "string option \<Rightarrow> string + (object_meta list \<times> string list)"
  be_pool :: "unit api_result"  \<comment> \<open>a connection and the lookups on it\<close>
  be_open :: "string api_result"
  be_submit :: "unit api_result"
  be_insert :: "string + unit"
  be_record :: "unit api_result"
  be_close :: bool
  be_parse :: "string \<Rightarrow> json option"
  be_now :: int
  be_time :: "int \<Rightarrow> string"

definition on_store :: "(blob_state \<Rightarrow> blob_state) \<Rightarrow> blob_world \<Rightarrow> blob_world" where
  "on_store f w = w\<lparr>iw_store := f (iw_store w)\<rparr>"

definition put_object :: "string \<Rightarrow> object \<Rightarrow> blob_world \<Rightarrow> blob_world" where
  "put_object path ob = on_store (\<lambda>s. s\<lparr>bs_store := (bs_store s)(path \<mapsto> ob)\<rparr>)"

definition object_at :: "blob_world \<Rightarrow> string \<Rightarrow> object option" where
  "object_at w path = bs_store (iw_store w) path"

definition put_with_optional_attrs :: "blob_env \<Rightarrow> string \<Rightarrow> string \<Rightarrow> string \<Rightarrow> blob_world \<Rightarrow> (string + unit) \<times> blob_world" where
  "put_with_optional_attrs env path body ct w =
     (case be_put_opts env path of
        Put_Stored \<Rightarrow> (Inr (), put_object path \<lparr>ob_bytes = body, ob_type = Some ct\<rparr> w)
      | Put_Unimplemented \<Rightarrow>
          (case be_put env path of
             Store_Ok \<Rightarrow> (Inr (), put_object path \<lparr>ob_bytes = body, ob_type = None\<rparr> w)
           | Store_Error e \<Rightarrow> (Inl e, w))
      | Put_Error e \<Rightarrow> (Inl e, w))"

datatype fetched = Missing | Get_Failed string | Got object

definition get_object :: "blob_env \<Rightarrow> string \<Rightarrow> blob_world \<Rightarrow> fetched" where
  "get_object env path w =
     (case be_get env path of
        Store_Error e \<Rightarrow> Get_Failed e
      | Store_Ok \<Rightarrow> (case object_at w path of Some ob \<Rightarrow> Got ob | None \<Rightarrow> Missing))"

definition too_large :: "blob_env \<Rightarrow> string \<Rightarrow> bool" where
  "too_large env body \<longleftrightarrow> blob_max_bytes (be_settings env) < int (length body)"

section \<open>Content-addressed ingest\<close>

definition is_configured :: "blob_env \<Rightarrow> bool" where
  "is_configured env \<longleftrightarrow> blob_root (be_settings env) \<noteq> []"

definition public_url_for :: "blob_env \<Rightarrow> string \<Rightarrow> string" where
  "public_url_for env key =
     (let base = trim_end_slashes (blob_public_base_url (be_settings env))
      in if base = [] then ''/blobs/'' @ key else base @ ''/blobs/'' @ key)"

record blob_result =
  bl_run_id :: string
  bl_sha :: string
  bl_url :: string
  bl_type :: string
  bl_size :: int
  bl_existed :: bool
  bl_status :: string

definition blob_json :: "blob_result \<Rightarrow> json" where
  "blob_json r =
     JObject [(''run_id'', JString (bl_run_id r)), (''blob_sha256'', JString (bl_sha r)), (''storage_url'', JString (bl_url r)),
              (''content_type'', JString (bl_type r)), (''size_bytes'', JNumber (NInt (bl_size r))),
              (''already_existed'', JBool (bl_existed r)), (''status'', JString (bl_status r))]"

record blob_params =
  bp_content_type :: "string option"
  bp_suggested_name :: "string option"
  bp_metadata :: "json option"
  bp_source :: string
  bp_source_endpoint :: string
  bp_submitted_by :: string
  bp_declared_endpoint :: "string option"
  bp_user_agent :: "string option"

definition blob_key :: "string \<Rightarrow> string \<Rightarrow> string" where
  "blob_key ct sha = key_prefix_for ct @ ''/sha256='' @ sha"

definition blob_args :: "blob_params \<Rightarrow> string \<Rightarrow> string \<Rightarrow> int \<Rightarrow> json" where
  "blob_args p sha ct sz =
     JObject ([(''target_schema'', JString ''raw''), (''target_table'', JString ''blobs''), (''mode'', JString ''blob''),
               (''blob_sha256'', JString sha), (''content_type'', JString ct), (''size_bytes'', JNumber (NInt sz))] @
              (case bp_declared_endpoint p of Some d \<Rightarrow> [(''declared_endpoint'', JString d)] | None \<Rightarrow> []) @
              (case bp_user_agent p of Some u \<Rightarrow> [(''user_agent'', JString u)] | None \<Rightarrow> []) @
              [(''submitted_by'', JString (bp_submitted_by p))])"

definition finish_run :: "blob_env \<Rightarrow> string \<Rightarrow> string \<Rightarrow> int \<Rightarrow> int \<Rightarrow> string option \<Rightarrow> blob_world \<Rightarrow> blob_world" where
  "finish_run env rid status ins fail err w = (if be_close env then close_run rid status ins 0 fail err w else w)"

definition blob_row_of :: "blob_params \<Rightarrow> string \<Rightarrow> string \<Rightarrow> string \<Rightarrow> int \<Rightarrow> blob_row" where
  "blob_row_of p rid url ct sz =
     \<lparr>br_url = url, br_type = ct, br_size = sz, br_name = bp_suggested_name p,
      br_metadata = (case bp_metadata p of Some m \<Rightarrow> m | None \<Rightarrow> JObject []), br_source = bp_source p,
      br_endpoint = bp_source_endpoint p, br_run_id = rid, br_submitted_by = bp_submitted_by p\<rparr>"

definition record_blob :: "blob_env \<Rightarrow> blob_params \<Rightarrow> string \<Rightarrow> string \<Rightarrow> string \<Rightarrow> int \<Rightarrow> blob_world \<Rightarrow> blob_result api_result \<times> blob_world" where
  \<comment> \<open>the run and the row, once the bytes are stored\<close>
  "record_blob env p sha url ct sz w =
     (case be_open env of
        Inl e \<Rightarrow> (Inl e, w)
      | Inr rid \<Rightarrow>
          (let w1 = open_run rid ''ingress:generic'' (blob_args p sha ct sz) w
           in case be_submit env of
                Inl e \<Rightarrow> (Inl e, w1)
              | Inr _ \<Rightarrow>
                  (let w2 = set_submitted_by rid (bp_submitted_by p) w1
                   in case be_insert env of
                        Inl e \<Rightarrow> (Inl (BadRequest (''failed to record blob: '' @ e)), finish_run env rid ''failed'' 0 1 (Some e) w2)
                      | Inr _ \<Rightarrow>
                          (Inr \<lparr>bl_run_id = rid, bl_sha = sha, bl_url = url, bl_type = ct, bl_size = sz,
                                bl_existed = False, bl_status = ''ok''\<rparr>,
                           finish_run env rid ''ok'' 1 0 None
                             (on_store (\<lambda>s. if bs_blobs s sha = None
                                            then s\<lparr>bs_blobs := (bs_blobs s)(sha \<mapsto> blob_row_of p rid url ct sz)\<rparr>
                                            else s) w2)))))"

definition ingest_blob :: "blob_env \<Rightarrow> blob_params \<Rightarrow> string \<Rightarrow> blob_world \<Rightarrow> blob_result api_result \<times> blob_world" where
  "ingest_blob env p body w =
     (if \<not> is_configured env then (Inl (Unavailable ''blob storage not configured (set LUMID_BLOB_ROOT)''), w)
      else if body = [] then (Inl (BadRequest ''empty body''), w)
      else if too_large env body then
        (Inl (BadRequest (''blob too large ('' @ show_nat (length body) @ '' bytes > '' @
                          show_int (blob_max_bytes (be_settings env)) @ '')'')), w)
      else
        (let sha = be_sha env body
         in case be_pool env of
              Inl e \<Rightarrow> (Inl e, w)
            | Inr _ \<Rightarrow>
                (case bs_blobs (iw_store w) sha of
                   Some r \<Rightarrow>
                     (Inr \<lparr>bl_run_id = [], bl_sha = sha, bl_url = br_url r, bl_type = br_type r, bl_size = br_size r,
                           bl_existed = True, bl_status = ''ok''\<rparr>, w)
                 | None \<Rightarrow>
                     (let ct = content_type_for (bp_content_type p) (bp_suggested_name p);
                          key = blob_key ct sha
                      in case put_with_optional_attrs env (be_path env key) body ct w of
                           (Inl e, w1) \<Rightarrow> (Inl (Internal (''blob put: '' @ e)), w1)
                         | (Inr _, w1) \<Rightarrow> record_blob env p sha (public_url_for env key) ct (int (length body)) w1))))"

definition post_blob :: "blob_env \<Rightarrow> identity \<Rightarrow> header_map \<Rightarrow> string \<Rightarrow> blob_world \<Rightarrow> json api_result \<times> blob_world" where
  "post_blob env ident headers body w =
     (if \<not> is_configured env then (Inl (Unavailable ''blob storage is not configured on this deployment''), w)
      else if body = [] then (Inl (BadRequest (''empty body '' @ em_dash @ '' no bytes to store'')), w)
      else if too_large env body then
        (Inl (BadRequest (''blob too large ('' @ show_nat (length body) @ '' > '' @
                          show_int (blob_max_bytes (be_settings env)) @ '' bytes)'')), w)
      else
        (case (case headers ''x-ingress-metadata'' of
                 Some raw \<Rightarrow>
                   if raw \<noteq> [] then
                     (case be_parse env raw of
                        Some (JObject kvs) \<Rightarrow> Inr (Some (JObject kvs))
                      | Some _ \<Rightarrow> Inr None
                      | None \<Rightarrow> Inl (BadRequest ''X-Ingress-Metadata is not valid JSON''))
                   else Inr None
               | None \<Rightarrow> Inr None) of
           Inl e \<Rightarrow> (Inl e, w)
         | Inr metadata \<Rightarrow>
             (case ingest_blob env
                     \<lparr>bp_content_type = headers ''content-type'', bp_suggested_name = headers ''x-ingress-filename'',
                      bp_metadata = metadata, bp_source = caller_source ident,
                      bp_source_endpoint = or_else (headers ''x-ingress-source-endpoint'') (caller_source ident),
                      bp_submitted_by = i_sub ident,
                      bp_declared_endpoint = headers ''x-ingress-source-endpoint'', bp_user_agent = headers ''user-agent''\<rparr> body w of
                (Inl e, w1) \<Rightarrow> (Inl e, w1)
              | (Inr r, w1) \<Rightarrow> (Inr (blob_json r), w1))))"

section \<open>Blobs by key\<close>

record blob_response =
  rs_headers :: "(string \<times> string) list"
  rs_body :: string

definition is_admin_reader :: "identity option \<Rightarrow> bool" where
  "is_admin_reader ident \<longleftrightarrow>
     (case ident of None \<Rightarrow> False | Some i \<Rightarrow> i_role i = ''local'' \<or> i_role i \<in> {''admin'', ''super_admin''})"

record list_response =
  ls_objects :: "object_meta list"
  ls_prefixes :: "string list"
  ls_truncated :: bool

definition list_blobs ::
    "blob_env \<Rightarrow> identity option \<Rightarrow> string option \<Rightarrow> string option \<Rightarrow> nat option \<Rightarrow> list_response api_result" where
  "list_blobs env ident prefix delimiter lim =
     (let show_tenants = is_admin_reader ident;
          rp = be_retrieval_prefix env;
          hidden_key = (\<lambda>k. is_hidden_key k rp \<or> (\<not> show_tenants \<and> is_hidden_key k TENANT_PREFIX));
          hidden_prefix = (\<lambda>p. is_hidden_prefix p rp \<or> (\<not> show_tenants \<and> is_hidden_prefix p TENANT_PREFIX))
      in if \<not> is_configured env then Inl (Unavailable ''blob storage not configured'')
         else
           (case sanitize_prefix (be_path env) (or_else prefix []) of
              Inl e \<Rightarrow> Inl e
            | Inr path \<Rightarrow>
                (let l = clamp_limit lim
                 in if delimiter \<noteq> None \<and> delimiter \<noteq> Some [] then
                      (case be_list_delimiter env path of
                         Inl e \<Rightarrow> Inl (Internal (''blob list: '' @ e))
                       | Inr (objects, prefixes) \<Rightarrow>
                           (let obs = filter (\<lambda>m. \<not> hidden_key (om_key m)) objects;
                                pfs = filter (\<lambda>p. \<not> hidden_prefix p) prefixes
                            in Inr \<lparr>ls_objects = take l obs, ls_prefixes = take l pfs,
                                    ls_truncated = (l < length obs \<or> l < length pfs)\<rparr>))
                    else
                      (case be_list env path of
                         Inl e \<Rightarrow> Inl (Internal (''blob list: '' @ e))
                       | Inr objects \<Rightarrow>
                           (let obs = take (l + 1) (filter (\<lambda>m. \<not> hidden_key (om_key m)) objects)
                            in Inr \<lparr>ls_objects = take l obs, ls_prefixes = [], ls_truncated = (l < length obs)\<rparr>)))))"

definition content_type_for_key :: "blob_env \<Rightarrow> string \<Rightarrow> blob_world \<Rightarrow> string option api_result" where
  "content_type_for_key env key w =
     (case after_last ''sha256='' key of
        None \<Rightarrow> Inr None
      | Some sha \<Rightarrow>
          if length sha \<noteq> 64 then Inr None
          else (case be_pool env of
                  Inl e \<Rightarrow> Inl e
                | Inr _ \<Rightarrow> Inr (map_option br_type (bs_blobs (iw_store w) sha))))"

definition or_octets :: "string \<Rightarrow> string" where
  "or_octets ct = (if header_value_ok ct then ct else ''application/octet-stream'')"

definition blob_response_of :: "string \<Rightarrow> object \<Rightarrow> blob_response" where
  "blob_response_of ct ob =
     \<lparr>rs_headers = [(''content-type'', or_octets ct), (''x-content-type-options'', ''nosniff'')] @
                   (if is_active_content_type ct then [(''content-disposition'', ''attachment'')] else []),
      rs_body = ob_bytes ob\<rparr>"

definition tenant_guard :: "identity option \<Rightarrow> string \<Rightarrow> bool" where
  "tenant_guard ident key \<longleftrightarrow>
     (case tenant_owner_of key of
        None \<Rightarrow> True
      | Some owner \<Rightarrow> (case ident of Some i \<Rightarrow> may_read_tenant i owner | None \<Rightarrow> False))"

definition serve_blob :: "blob_env \<Rightarrow> identity option \<Rightarrow> string \<Rightarrow> blob_world \<Rightarrow> blob_response api_result" where
  "serve_blob env ident raw w =
     (if \<not> is_configured env then Inl (Unavailable ''blob storage not configured'')
      else
        (case sanitize_key raw of
           None \<Rightarrow> Inl (BadRequest ''invalid key'')
         | Some key \<Rightarrow>
             if \<not> tenant_guard ident key then Inl (NotFound ''blob not found'')
             else
               (case get_object env (be_path env key) w of
                  Missing \<Rightarrow> Inl (NotFound ''blob not found'')
                | Get_Failed e \<Rightarrow> Inl (Internal (''blob get: '' @ e))
                | Got ob \<Rightarrow>
                    (case Option.bind (ob_type ob) valid_content_type of
                       Some ct \<Rightarrow> Inr (blob_response_of ct ob)
                     | None \<Rightarrow>
                         (case content_type_for_key env key w of
                            Inl e \<Rightarrow> Inl e
                          | Inr db \<Rightarrow> Inr (blob_response_of (resolve_content_type None db key) ob))))))"

definition ADMIN_SCOPES :: "string list" where
  "ADMIN_SCOPES = [''*'', ''lumilake:*'', ''lumilake:admin'']"

definition require_blob_write :: "identity \<Rightarrow> unit api_result" where
  "require_blob_write ident =
     (if i_role ident = ''local'' then Inr ()
      else if list_ex (\<lambda>s. s = ''lumilake:write'' \<or> s \<in> set ADMIN_SCOPES) (i_scopes ident) then Inr ()
      else Inl (Forbidden ''lumilake:write scope required''))"

definition put_blob ::
    "blob_env \<Rightarrow> identity \<Rightarrow> string \<Rightarrow> header_map \<Rightarrow> string \<Rightarrow> blob_world \<Rightarrow> (string \<times> nat) api_result \<times> blob_world" where
  "put_blob env ident raw headers body w =
     (case require_blob_write ident of
        Inl e \<Rightarrow> (Inl e, w)
      | Inr _ \<Rightarrow>
          if \<not> is_configured env then (Inl (Unavailable ''blob storage not configured''), w)
          else
            (case sanitize_key raw of
               None \<Rightarrow> (Inl (BadRequest ''invalid key''), w)
             | Some key \<Rightarrow>
                 if too_large env body then
                   (Inl (BadRequest (''body too large ('' @ show_nat (length body) @ '' > '' @
                                     show_int (blob_max_bytes (be_settings env)) @ '' bytes)'')), w)
                 else
                   (let path = be_path env key
                    in case (case Option.bind (headers ''content-type'') valid_content_type of
                               Some ct \<Rightarrow> put_with_optional_attrs env path body ct w
                             | None \<Rightarrow>
                                 (case be_put env path of
                                    Store_Ok \<Rightarrow> (Inr (), put_object path \<lparr>ob_bytes = body, ob_type = None\<rparr> w)
                                  | Store_Error e \<Rightarrow> (Inl e, w))) of
                         (Inl e, w1) \<Rightarrow> (Inl (Internal (''blob put: '' @ e)), w1)
                       | (Inr _, w1) \<Rightarrow> (Inr (key, length body), w1))))"

definition delete_blob :: "blob_env \<Rightarrow> identity \<Rightarrow> string \<Rightarrow> blob_world \<Rightarrow> unit api_result \<times> blob_world" where
  "delete_blob env ident raw w =
     (case require_blob_write ident of
        Inl e \<Rightarrow> (Inl e, w)
      | Inr _ \<Rightarrow>
          if \<not> is_configured env then (Inl (Unavailable ''blob storage not configured''), w)
          else
            (case sanitize_key raw of
               None \<Rightarrow> (Inl (BadRequest ''invalid key''), w)
             | Some key \<Rightarrow>
                 (case be_delete env (be_path env key) of
                    Store_Error e \<Rightarrow> (Inl (Internal (''blob delete: '' @ e)), w)
                  | Store_Ok \<Rightarrow> (Inr (), on_store (\<lambda>s. s\<lparr>bs_store := (bs_store s)(be_path env key := None)\<rparr>) w))))"

section \<open>Tenant-private blobs\<close>

record tenant_blob =
  tb_sha :: string
  tb_uri :: string
  tb_key :: string
  tb_type :: string
  tb_size :: int
  tb_name :: "string option"
  tb_created :: string

definition uri_for :: "string \<Rightarrow> string" where
  "uri_for sha = ''lumid://blob/sha256/'' @ sha"

definition tenant_blob_of :: "blob_env \<Rightarrow> string \<Rightarrow> tenant_row \<Rightarrow> tenant_blob" where
  "tenant_blob_of env sha r =
     \<lparr>tb_sha = sha, tb_uri = uri_for sha, tb_key = tr_key r, tb_type = tr_type r, tb_size = tr_size r,
      tb_name = tr_name r, tb_created = be_time env (tr_created r)\<rparr>"

definition trimmed_header :: "header_map \<Rightarrow> string \<Rightarrow> string option" where
  "trimmed_header headers name = (case headers name of None \<Rightarrow> None | Some v \<Rightarrow> non_empty (trim v))"

definition no_owner :: api_error where
  "no_owner = Forbidden ''this credential has no usable owner id''"

definition upload ::
    "blob_env \<Rightarrow> identity \<Rightarrow> header_map \<Rightarrow> string \<Rightarrow> blob_world \<Rightarrow> (tenant_blob \<times> bool) api_result \<times> blob_world" where
  \<comment> \<open>with whether the blob was there already\<close>
  "upload env ident headers body w =
     (if \<not> is_configured env then (Inl (Unavailable ''blob storage not configured''), w)
      else
        (case owner_segment (i_sub ident) of
           None \<Rightarrow> (Inl no_owner, w)
         | Some owner \<Rightarrow>
             if body = [] then (Inl (BadRequest (''empty body '' @ em_dash @ '' no bytes to store'')), w)
             else if too_large env body then
               (Inl (BadRequest (''blob too large ('' @ show_nat (length body) @ '' > '' @
                                 show_int (blob_max_bytes (be_settings env)) @ '' bytes)'')), w)
             else
               (let sha = be_sha env body;
                    ct = or_else (Option.bind (trimmed_header headers ''content-type'') valid_content_type) ''application/octet-stream'';
                    name = map_option (take_chars 255) (trimmed_header headers ''x-filename'');
                    key = tenant_key owner sha
                in case be_pool env of
                     Inl e \<Rightarrow> (Inl e, w)
                   | Inr _ \<Rightarrow>
                       (case map_of (bs_tenants (iw_store w)) (owner, sha) of
                          Some r \<Rightarrow> (Inr (tenant_blob_of env sha r, True), w)
                        | None \<Rightarrow>
                            (case put_with_optional_attrs env (be_path env key) body ct w of
                               (Inl e, w1) \<Rightarrow> (Inl (Internal (''tenant blob put: '' @ e)), w1)
                             | (Inr _, w1) \<Rightarrow>
                                 (case be_record env of
                                    Inl e \<Rightarrow> (Inl e, w1)
                                  | Inr _ \<Rightarrow>
                                      (let r = \<lparr>tr_key = key, tr_type = ct, tr_size = int (length body), tr_name = name,
                                                tr_created = be_now env\<rparr>
                                       in (Inr (tenant_blob_of env sha r, False),
                                           on_store (\<lambda>s. s\<lparr>bs_tenants := hm_insert (owner, sha) r (bs_tenants s)\<rparr>) w1))))))))"

definition list_mine :: "blob_env \<Rightarrow> identity \<Rightarrow> blob_world \<Rightarrow> tenant_blob list api_result" where
  "list_mine env ident w =
     (case owner_segment (i_sub ident) of
        None \<Rightarrow> Inl no_owner
      | Some owner \<Rightarrow>
          (case be_pool env of
             Inl e \<Rightarrow> Inl e
           | Inr _ \<Rightarrow>
               Inr (map (\<lambda>((o1, sha), r). tenant_blob_of env sha r)
                     (take 1000 (sort_key (\<lambda>(k, r). - tr_created r)
                       (filter (\<lambda>((o1, sha), r). o1 = owner) (bs_tenants (iw_store w))))))))"

definition fetch :: "blob_env \<Rightarrow> identity \<Rightarrow> string \<Rightarrow> blob_world \<Rightarrow> blob_response api_result" where
  "fetch env ident raw w =
     (case owner_segment (i_sub ident) of
        None \<Rightarrow> Inl no_owner
      | Some owner \<Rightarrow>
          (let sha = to_lowercase raw
           in if \<not> is_sha256_hex sha then Inl (BadRequest ''expected a 64-char hex sha256'')
              else
                (case be_pool env of
                   Inl e \<Rightarrow> Inl e
                 | Inr _ \<Rightarrow>
                     (case map_of (bs_tenants (iw_store w)) (owner, sha) of
                        None \<Rightarrow> Inl (NotFound ''no such blob for this account'')
                      | Some r \<Rightarrow>
                          (case get_object env (be_path env (tr_key r)) w of
                             Missing \<Rightarrow> Inl (NotFound ''blob bytes missing'')
                           | Get_Failed e \<Rightarrow> Inl (Internal (''tenant blob get: '' @ e))
                           | Got ob \<Rightarrow>
                               Inr \<lparr>rs_headers = [(''content-type'', or_octets (tr_type r)), (''x-content-type-options'', ''nosniff''),
                                                  (''content-disposition'', ''attachment''), (''x-blob-sha256'', sha)],
                                    rs_body = ob_bytes ob\<rparr>)))))"

section \<open>Sanitised keys\<close>

definition plain_segment :: "string \<Rightarrow> bool" where
  "plain_segment s \<longleftrightarrow> s \<noteq> [] \<and> s \<noteq> ''.'' \<and> s \<noteq> ''..'' \<and> CHR ''/'' \<notin> set s"

lemma sanitize_key_Some:
  assumes "sanitize_key raw = Some key"
  shows "\<exists>segs. segs \<noteq> [] \<and> list_all plain_segment segs \<and> key = join ''/'' segs \<and>
    segs = filter (\<lambda>s. s \<noteq> [] \<and> s \<noteq> ''.'') (split_on (CHR ''/'') raw)"
proof -
  let ?segs = "filter (\<lambda>s. s \<noteq> [] \<and> s \<noteq> ''.'') (split_on (CHR ''/'') raw)"
  have "''..'' \<notin> set ?segs" "?segs \<noteq> []" "key = join ''/'' ?segs"
    using assms by (auto simp: sanitize_key_def Let_def simp del: set_filter split: if_splits)
  moreover have "list_all plain_segment ?segs"
    using calculation(1) by (auto simp: list_all_iff plain_segment_def dest: split_on_no_sep)
  ultimately show ?thesis by blast
qed

lemma starts_with_slash: "starts_with k ''/'' \<longleftrightarrow> (\<exists>r. k = CHR ''/'' # r)"
  by (cases k) (auto simp: starts_with_def)

text \<open>A key the routes accept is made of plain segments: none is empty, \<open>.\<close> or \<open>..\<close>, it does not
  start at the root, it keeps the segments of the request in order, and sanitising it again
  changes nothing.\<close>
theorem sanitized_key_is_plain:
  assumes "sanitize_key raw = Some key"
  shows "list_all plain_segment (split_on (CHR ''/'') key) \<and> \<not> starts_with key ''/'' \<and>
    split_on (CHR ''/'') key = filter (\<lambda>s. s \<noteq> [] \<and> s \<noteq> ''.'') (split_on (CHR ''/'') raw) \<and> sanitize_key key = Some key"
proof -
  obtain segs where segs: "segs \<noteq> []" "list_all plain_segment segs" "key = join ''/'' segs"
      "segs = filter (\<lambda>s. s \<noteq> [] \<and> s \<noteq> ''.'') (split_on (CHR ''/'') raw)"
    using sanitize_key_Some[OF assms] by blast
  have split: "split_on (CHR ''/'') key = segs"
    unfolding segs(3) using segs(1,2) by (intro split_on_join) (auto simp: list_all_iff plain_segment_def)
  have root: "\<not> starts_with key ''/''"
  proof
    assume "starts_with key ''/''"
    then obtain r where "key = CHR ''/'' # r" by (auto simp: starts_with_slash)
    then have "hd segs = []" using split by auto
    then show False using segs(1,2) by (cases segs) (auto simp: plain_segment_def)
  qed
  have same: "filter (\<lambda>s. s \<noteq> [] \<and> s \<noteq> ''.'') segs = segs" "''..'' \<notin> set segs"
    using segs(2) by (auto simp: list_all_iff plain_segment_def intro: filter_True)
  then have "sanitize_key key = Some (join ''/'' segs)"
    using root segs(1) by (simp add: sanitize_key_def split Let_def del: set_filter)
  then show ?thesis using segs split root by simp
qed

theorem sanitized_key_is_plain_witness:
  "list_all plain_segment (split_on (CHR ''/'') ''a/b'') \<and> sanitize_key ''./a//b/'' = Some ''a/b''"
proof -
  have "sanitize_key ''./a//b/'' = Some ''a/b''" by code_simp
  with sanitized_key_is_plain[OF this] show ?thesis by blast
qed

section \<open>Tenants\<close>

inductive blob_step :: "(string \<Rightarrow> string) \<Rightarrow> (string \<Rightarrow> string) \<Rightarrow> blob_world \<Rightarrow> blob_world \<Rightarrow> bool" for path sha where
  by_upload: "be_path env = path \<Longrightarrow> be_sha env = sha \<Longrightarrow> blob_step path sha w (snd (upload env ident headers body w))"
| by_ingest: "be_path env = path \<Longrightarrow> be_sha env = sha \<Longrightarrow> blob_step path sha w (snd (ingest_blob env p body w))"

inductive key_step :: "(string \<Rightarrow> string) \<Rightarrow> blob_world \<Rightarrow> blob_world \<Rightarrow> bool" for path where
  by_put: "be_path env = path \<Longrightarrow> key_step path w (snd (put_blob env ident key headers body w))"
| by_delete: "be_path env = path \<Longrightarrow> key_step path w (snd (delete_blob env ident key w))"

definition blob_start :: blob_world where
  "blob_start =
     \<lparr>iw_store = \<lparr>bs_store = (\<lambda>p. None), bs_blobs = (\<lambda>s. None), bs_tenants = []\<rparr>, iw_runs = [], iw_invalidated = [],
      iw_handoffs = []\<rparr>"

abbreviation tenants_of :: "blob_world \<Rightarrow> (string \<times> string, tenant_row) hash_map" where
  "tenants_of w \<equiv> bs_tenants (iw_store w)"

definition tenants_ok :: "blob_world \<Rightarrow> bool" where
  "tenants_ok w \<longleftrightarrow> (\<forall>ow sha r. map_of (tenants_of w) (ow, sha) = Some r \<longrightarrow> owner_segment ow = Some ow \<and> tr_key r = tenant_key ow sha)"

lemma on_store_simps [simp]: "iw_store (on_store f w) = f (iw_store w)"
  by (simp add: on_store_def)

lemma put_object_simps [simp]:
  "tenants_of (put_object p ob w) = tenants_of w" "bs_blobs (iw_store (put_object p ob w)) = bs_blobs (iw_store w)"
  "object_at (put_object p ob w) q = (if q = p then Some ob else object_at w q)"
  by (simp_all add: put_object_def object_at_def)

lemma put_attrs_cases:
  assumes "put_with_optional_attrs env path body ct w = (r, w1)"
  obtains (stored) t where "r = Inr ()" "w1 = put_object path \<lparr>ob_bytes = body, ob_type = t\<rparr> w"
    | (failed) e where "r = Inl e" "w1 = w"
  using assms by (auto simp: put_with_optional_attrs_def split: put_reply.splits store_reply.splits)

lemma run_store [simp]:
  "iw_store (update_run rid f w) = iw_store w" "iw_store (open_run rid e a w) = iw_store w"
  "iw_store (set_submitted_by rid s w) = iw_store w" "iw_store (finish_run env rid st ins fail err w) = iw_store w"
  by (auto simp: update_run_def open_run_def set_submitted_by_def finish_run_def close_run_def split: option.split)

lemma owner_segment_Some: "owner_segment s = Some ow \<Longrightarrow> ow = s"
  by (auto simp: owner_segment_def split: if_splits)

lemma upload_cases:
  assumes "upload env ident headers body w = (res, w')"
  obtains (unchanged) "w' = w" "\<And>b. res \<noteq> Inr (b, False)"
    | (orphan) t e where "w' = put_object (be_path env (tenant_key (i_sub ident) (be_sha env body))) \<lparr>ob_bytes = body, ob_type = t\<rparr> w"
        "owner_segment (i_sub ident) = Some (i_sub ident)" "res = Inl e"
    | (stored) t r where "owner_segment (i_sub ident) = Some (i_sub ident)"
        "map_of (tenants_of w) (i_sub ident, be_sha env body) = None" "tr_key r = tenant_key (i_sub ident) (be_sha env body)"
        "res = Inr (tenant_blob_of env (be_sha env body) r, False)"
        "w' = on_store (\<lambda>s. s\<lparr>bs_tenants := hm_insert (i_sub ident, be_sha env body) r (bs_tenants s)\<rparr>)
                (put_object (be_path env (tenant_key (i_sub ident) (be_sha env body))) \<lparr>ob_bytes = body, ob_type = t\<rparr> w)"
proof (cases "owner_segment (i_sub ident)")
  case None
  then have "w' = w" "\<And>b. res \<noteq> Inr (b, False)" using assms by (auto simp: upload_def split: if_splits)
  then show thesis by (rule unchanged)
next
  case (Some ow)
  then have ow: "owner_segment (i_sub ident) = Some (i_sub ident)" using owner_segment_Some by fastforce
  show thesis
  proof (cases "\<not> is_configured env \<or> body = [] \<or> too_large env body \<or> be_pool env \<noteq> Inr () \<or>
      map_of (tenants_of w) (i_sub ident, be_sha env body) \<noteq> None")
    case True
    then have "w' = w" "\<And>b. res \<noteq> Inr (b, False)"
      using assms ow by (auto simp: upload_def Let_def split: if_splits sum.splits option.splits)
    then show thesis by (rule unchanged)
  next
    case False
    define key where "key = tenant_key (i_sub ident) (be_sha env body)"
    define ct where "ct = or_else (Option.bind (trimmed_header headers ''content-type'') valid_content_type) ''application/octet-stream''"
    obtain pr w1 where put: "put_with_optional_attrs env (be_path env key) body ct w = (pr, w1)" by (meson surj_pair)
    from put show thesis
    proof (cases rule: put_attrs_cases)
      case (failed e)
      then have "w' = w" "\<And>b. res \<noteq> Inr (b, False)"
        using assms ow False put by (auto simp: upload_def Let_def key_def ct_def)
      then show thesis by (rule unchanged)
    next
      case (stored t)
      show thesis
      proof (cases "be_record env")
        case (Inl e)
        then show thesis using assms ow False put stored
          by (intro orphan[of t e]) (auto simp: upload_def Let_def key_def ct_def)
      next
        case (Inr u)
        define r where "r = \<lparr>tr_key = key, tr_type = ct, tr_size = int (length body),
            tr_name = map_option (take_chars 255) (trimmed_header headers ''x-filename''), tr_created = be_now env\<rparr>"
        have "res = Inr (tenant_blob_of env (be_sha env body) r, False) \<and>
          w' = on_store (\<lambda>s. s\<lparr>bs_tenants := hm_insert (i_sub ident, be_sha env body) r (bs_tenants s)\<rparr>) w1"
          using assms ow False put stored Inr by (auto simp: upload_def Let_def key_def ct_def r_def)
        then show thesis using \<open>\<not> _\<close> ow stored that(3)[of r t] by (simp add: r_def key_def)
      qed
    qed
  qed
qed

lemma record_blob_world:
  assumes "record_blob env p sha url ct sz w = (res, w')"
  shows "tenants_of w' = tenants_of w \<and> object_at w' = object_at w"
  using assms by (auto simp: record_blob_def Let_def object_at_def split: sum.splits)

lemma ingest_blob_cases:
  assumes "ingest_blob env p body w = (res, w')"
  obtains (unchanged) "w' = w"
    | (stored) ct t where "tenants_of w' = tenants_of w"
        "\<And>q. object_at w' q = (if q = be_path env (blob_key ct (be_sha env body)) then Some \<lparr>ob_bytes = body, ob_type = t\<rparr> else object_at w q)"
proof (cases "\<not> is_configured env \<or> body = [] \<or> too_large env body \<or> be_pool env \<noteq> Inr () \<or>
    bs_blobs (iw_store w) (be_sha env body) \<noteq> None")
  case True
  then have "w' = w" using assms by (auto simp: ingest_blob_def Let_def split: if_splits sum.splits option.splits)
  then show thesis by (rule unchanged)
next
  case False
  define ct where "ct = content_type_for (bp_content_type p) (bp_suggested_name p)"
  define key where "key = blob_key ct (be_sha env body)"
  obtain pr w1 where put: "put_with_optional_attrs env (be_path env key) body ct w = (pr, w1)" by (meson surj_pair)
  from put show thesis
  proof (cases rule: put_attrs_cases)
    case (failed e)
    then have "w' = w" using assms False put by (auto simp: ingest_blob_def Let_def key_def ct_def)
    then show thesis by (rule unchanged)
  next
    case (stored t)
    then have rec: "record_blob env p (be_sha env body) (public_url_for env key) ct (int (length body)) w1 = (res, w')"
      using assms False put by (auto simp: ingest_blob_def Let_def key_def ct_def)
    from record_blob_world[OF rec] stored show thesis by (intro that(2)[of ct t]) (simp_all add: key_def)
  qed
qed

lemma put_blob_world:
  "tenants_of (snd (put_blob env ident raw headers body w)) = tenants_of w"
proof -
  have "tenants_of w1 = tenants_of w" if "put_with_optional_attrs env p body ct w = (r, w1)" for p ct r w1
    using that by (cases rule: put_attrs_cases) auto
  then show ?thesis by (auto simp: put_blob_def Let_def split: sum.splits option.splits store_reply.splits prod.splits)
qed

lemma delete_blob_world: "tenants_of (snd (delete_blob env ident raw w)) = tenants_of w"
  by (auto simp: delete_blob_def split: sum.splits option.splits store_reply.splits)

lemma tenants_ok_cong: "tenants_of w' = tenants_of w \<Longrightarrow> tenants_ok w \<Longrightarrow> tenants_ok w'"
  by (simp add: tenants_ok_def)

lemma blob_step_tenants:
  assumes "blob_step path sha w w'" "tenants_ok w"
  shows "tenants_ok w'"
  using assms(1)
proof cases
  case (by_upload env ident headers body)
  obtain res w1 where up: "upload env ident headers body w = (res, w1)" by (meson surj_pair)
  then have w': "w' = w1" using by_upload by simp
  from up show ?thesis
  proof (cases rule: upload_cases)
    case (stored t r)
    then show ?thesis using assms(2) by (auto simp: w' tenants_ok_def)
  qed (use assms(2) w' in \<open>auto simp: tenants_ok_def\<close>)
next
  case (by_ingest env p body)
  obtain res w1 where ing: "ingest_blob env p body w = (res, w1)" by (meson surj_pair)
  then have w': "w' = w1" using by_ingest by simp
  from ing have "tenants_of w1 = tenants_of w" by (cases rule: ingest_blob_cases) auto
  then show ?thesis using assms(2) w' tenants_ok_cong by blast
qed

lemma key_step_tenants: "key_step path w w' \<Longrightarrow> tenants_ok w \<Longrightarrow> tenants_ok w'"
  by (elim key_step.cases) (auto intro: tenants_ok_cong simp: put_blob_world delete_blob_world)

lemma tenant_owner_hidden:
  assumes "tenant_owner_of key = Some ow"
  shows "is_hidden_key key TENANT_PREFIX"
proof -
  obtain r rest where "strip_prefix TENANT_PREFIX key = Some r" "strip_prefix ''/'' r = Some rest"
    using assms by (auto simp: tenant_owner_of_def split: option.splits)
  then have "key = (TENANT_PREFIX @ ''/'') @ rest" by (simp add: strip_prefix_Some)
  then have "starts_with key (TENANT_PREFIX @ ''/'')" by (auto simp: starts_with_append)
  then show ?thesis by (simp add: is_hidden_key_def TENANT_PREFIX_def)
qed

lemma get_object_Got: "get_object env p w = Got ob \<Longrightarrow> object_at w p = Some ob"
  by (auto simp: get_object_def split: store_reply.splits option.splits)

lemma fetch_Inr:
  assumes "fetch env ident raw w = Inr r"
  obtains row ob where "owner_segment (i_sub ident) = Some (i_sub ident)" "is_sha256_hex (to_lowercase raw)"
    "map_of (tenants_of w) (i_sub ident, to_lowercase raw) = Some row" "object_at w (be_path env (tr_key row)) = Some ob"
    "rs_body r = ob_bytes ob" "(''content-disposition'', ''attachment'') \<in> set (rs_headers r)"
proof -
  obtain ow where ow: "owner_segment (i_sub ident) = Some ow" using assms by (auto simp: fetch_def split: option.splits)
  have "ow = i_sub ident" using owner_segment_Some[OF ow] .
  then show thesis using assms ow that
    by (auto simp: fetch_def Let_def split: option.splits if_splits sum.splits fetched.splits dest!: get_object_Got)
qed

lemma serve_blob_Inr:
  assumes "serve_blob env ident raw w = Inr r"
  obtains key ob ct where "sanitize_key raw = Some key" "tenant_guard ident key" "object_at w (be_path env key) = Some ob"
    "r = blob_response_of ct ob"
  using assms that by (auto simp: serve_blob_def split: if_splits option.splits fetched.splits sum.splits dest!: get_object_Got)

lemma list_blobs_hides:
  assumes "list_blobs env ident prefix delimiter lim = Inr r" "\<not> is_admin_reader ident"
  shows "(m \<in> set (ls_objects r) \<longrightarrow> \<not> is_hidden_key (om_key m) TENANT_PREFIX) \<and>
    (p \<in> set (ls_prefixes r) \<longrightarrow> \<not> is_hidden_prefix p TENANT_PREFIX)"
  using assms by (auto simp: list_blobs_def Let_def dest!: in_set_takeD split: if_splits sum.splits)


definition sample_blobs :: blob_env where
  "sample_blobs =
     \<lparr>be_settings = blob_from_env (\<lambda>k. None), be_retrieval_prefix = ''retrievals'', be_sha = (\<lambda>b. replicate 64 CHR ''0''),
      be_path = id, be_put_opts = (\<lambda>p. Put_Stored), be_put = (\<lambda>p. Store_Ok), be_get = (\<lambda>p. Store_Ok), be_delete = (\<lambda>p. Store_Ok),
      be_list = (\<lambda>p. Inr []), be_list_delimiter = (\<lambda>p. Inr ([], [''images'', ''tenants/''])), be_pool = Inr (), be_open = Inr ''r'',
      be_submit = Inr (), be_insert = Inr (), be_record = Inr (), be_close = True, be_parse = (\<lambda>t. None), be_now = 0, be_time = (\<lambda>t. [])\<rparr>"

definition sample_user :: "string \<Rightarrow> identity" where
  "sample_user sub = \<lparr>i_sub = sub, i_role = ''user'', i_email = None, i_active = True, i_scopes = [''lumilake:write'']\<rparr>"

lemma sample_blobs_simps [simp]: "be_path sample_blobs = id" "be_sha sample_blobs = (\<lambda>b. replicate 64 CHR ''0'')"
  by (simp_all add: sample_blobs_def)


section \<open>Content addressing\<close>

definition plain_key :: "string \<Rightarrow> bool" where
  "plain_key k \<longleftrightarrow> list_all plain_segment (split_on (CHR ''/'') k)"

definition paths_distinct :: "(string \<Rightarrow> string) \<Rightarrow> bool" where
  \<comment> \<open>the object store escapes what it cannot hold, so plain keys keep apart\<close>
  "paths_distinct path \<longleftrightarrow> inj_on path (Collect plain_key)"

definition hex_hashes :: "(string \<Rightarrow> string) \<Rightarrow> bool" where
  "hex_hashes sha \<longleftrightarrow> (\<forall>b. is_sha256_hex (sha b))"

definition hash_key :: "string \<Rightarrow> string \<Rightarrow> string" where
  "hash_key pre h = pre @ ''/sha256='' @ h"

definition contents_ok :: "(string \<Rightarrow> string) \<Rightarrow> (string \<Rightarrow> string) \<Rightarrow> blob_world \<Rightarrow> bool" where
  "contents_ok path sha w \<longleftrightarrow>
     (\<forall>pre h ob. length h = 64 \<longrightarrow> plain_key (hash_key pre h) \<longrightarrow> object_at w (path (hash_key pre h)) = Some ob \<longrightarrow> sha (ob_bytes ob) = h)"

lemma plain_join: "segs \<noteq> [] \<Longrightarrow> list_all plain_segment segs \<Longrightarrow> plain_key (join ''/'' segs)"
  unfolding plain_key_def by (subst split_on_join) (auto simp: list_all_iff plain_segment_def)

lemma sanitized_plain: "sanitize_key raw = Some key \<Longrightarrow> plain_key key"
  using plain_join by (auto dest!: sanitize_key_Some)

lemma hex_no_slash:
  assumes "is_sha256_hex h" shows "CHR ''/'' \<notin> set h"
proof
  assume "CHR ''/'' \<in> set h"
  then have "is_hex_lower (CHR ''/'')" using assms by (auto simp: is_sha256_hex_def list_all_iff)
  then show False by (simp add: is_hex_lower_def is_ascii_digit_def code_def)
qed

lemma hash_segment: "is_sha256_hex h \<Longrightarrow> plain_segment (''sha256='' @ h)"
  using hex_no_slash by (auto simp: plain_segment_def)

lemma owner_plain:
  assumes "owner_segment s = Some s" shows "plain_segment s"
proof -
  have all: "s \<noteq> []" "\<And>b. b \<in> set s \<Longrightarrow> is_ascii_alphanumeric b \<or> b = CHR ''-'' \<or> b = CHR ''_''"
    using assms by (auto simp: owner_segment_def list_all_iff split: if_splits)
  have no: "\<not> (is_ascii_alphanumeric (CHR ''.'') \<or> CHR ''.'' = CHR ''-'' \<or> CHR ''.'' = CHR ''_'')"
    "\<not> (is_ascii_alphanumeric (CHR ''/'') \<or> CHR ''/'' = CHR ''-'' \<or> CHR ''/'' = CHR ''_'')"
    by code_simp+
  have "CHR ''.'' \<notin> set s" "CHR ''/'' \<notin> set s" using all(2) no by blast+
  then show ?thesis using all(1) by (auto simp: plain_segment_def)
qed

lemma tenant_key_hash: "tenant_key ow h = hash_key (''tenants/'' @ ow) h"
  by (simp add: tenant_key_def hash_key_def TENANT_PREFIX_def)

lemma tenant_key_plain: "owner_segment ow = Some ow \<Longrightarrow> is_sha256_hex h \<Longrightarrow> plain_key (tenant_key ow h)"
proof -
  assume "owner_segment ow = Some ow" "is_sha256_hex h"
  then have "list_all plain_segment [''tenants'', ow, ''sha256='' @ h]"
    using owner_plain hash_segment by (simp add: plain_segment_def)
  from plain_join[OF _ this] show ?thesis by (simp add: tenant_key_def TENANT_PREFIX_def join_Cons)
qed

lemma blob_key_hash: "blob_key ct h = hash_key (key_prefix_for ct) h"
  by (simp add: blob_key_def hash_key_def)

lemma blob_key_plain: "is_sha256_hex h \<Longrightarrow> plain_key (blob_key ct h)"
proof -
  assume h: "is_sha256_hex h"
  have "plain_segment (key_prefix_for ct)" by (simp add: key_prefix_for_def plain_segment_def Let_def)
  then have "list_all plain_segment [key_prefix_for ct, ''sha256='' @ h]" using hash_segment[OF h] by simp
  from plain_join[OF _ this] show ?thesis by (simp add: blob_key_def join_Cons)
qed

lemma hash_key_inject: "hash_key a h = hash_key b k \<Longrightarrow> length h = length k \<Longrightarrow> h = k"
  by (simp add: hash_key_def)

lemma contents_put:
  assumes "contents_ok path sha w" "paths_distinct path" "plain_key (hash_key pre (sha body))" "length (sha body) = 64"
    and "\<And>q. object_at w' q = (if q = path (hash_key pre (sha body)) then Some \<lparr>ob_bytes = body, ob_type = t\<rparr> else object_at w q)"
  shows "contents_ok path sha w'"
  unfolding contents_ok_def
proof (intro allI impI)
  fix pre' h ob
  assume h: "length h = 64" "plain_key (hash_key pre' h)" and ob: "object_at w' (path (hash_key pre' h)) = Some ob"
  show "sha (ob_bytes ob) = h"
  proof (cases "path (hash_key pre' h) = path (hash_key pre (sha body))")
    case True
    then have "hash_key pre' h = hash_key pre (sha body)"
      using assms(3) h(2) assms(2)[unfolded paths_distinct_def inj_on_def] by blast
    from hash_key_inject[OF this] have "h = sha body" using h(1) assms(4) by simp
    moreover have "ob = \<lparr>ob_bytes = body, ob_type = t\<rparr>" using ob True assms(5)[of "path (hash_key pre' h)"] by simp
    ultimately show ?thesis by simp
  next
    case False
    then show ?thesis using ob assms(1,5) h by (simp add: contents_ok_def)
  qed
qed

lemma blob_step_contents:
  assumes "blob_step path sha w w'" "contents_ok path sha w" "paths_distinct path" "hex_hashes sha"
  shows "contents_ok path sha w'"
proof -
  have hex: "is_sha256_hex (sha b)" "length (sha b) = 64" for b using assms(4) by (simp_all add: hex_hashes_def is_sha256_hex_def)
  show ?thesis using assms(1)
  proof cases
    case (by_upload env ident headers body)
    obtain res w1 where up: "upload env ident headers body w = (res, w1)" by (meson surj_pair)
    then have w': "w' = w1" using by_upload by simp
    from up show ?thesis
    proof (cases rule: upload_cases)
      case unchanged
      then show ?thesis using assms(2) w' by simp
    next
      case (orphan t e)
      have obs: "object_at w' q = (if q = path (hash_key (''tenants/'' @ i_sub ident) (sha body)) then Some \<lparr>ob_bytes = body, ob_type = t\<rparr> else object_at w q)" for q
        using orphan(1) by_upload(2,3) w' by (simp add: tenant_key_hash)
      have "plain_key (hash_key (''tenants/'' @ i_sub ident) (sha body))"
        using tenant_key_plain[OF orphan(2) hex(1)[of body]] by (simp add: tenant_key_hash)
      from contents_put[OF assms(2,3) this hex(2) obs] show ?thesis .
    next
      case (stored t r)
      have obs: "object_at w' q = (if q = path (hash_key (''tenants/'' @ i_sub ident) (sha body)) then Some \<lparr>ob_bytes = body, ob_type = t\<rparr> else object_at w q)" for q
        using stored(5) by_upload(2,3) w' by (simp add: tenant_key_hash object_at_def put_object_def)
      have "plain_key (hash_key (''tenants/'' @ i_sub ident) (sha body))"
        using tenant_key_plain[OF stored(1) hex(1)[of body]] by (simp add: tenant_key_hash)
      from contents_put[OF assms(2,3) this hex(2) obs] show ?thesis .
    qed
  next
    case (by_ingest env p body)
    obtain res w1 where ing: "ingest_blob env p body w = (res, w1)" by (meson surj_pair)
    then have w': "w' = w1" using by_ingest by simp
    from ing show ?thesis
    proof (cases rule: ingest_blob_cases)
      case unchanged
      then show ?thesis using assms(2) w' by simp
    next
      case (stored ct t)
      have obs: "object_at w' q = (if q = path (hash_key (key_prefix_for ct) (sha body)) then Some \<lparr>ob_bytes = body, ob_type = t\<rparr> else object_at w q)" for q
        using stored(2)[of q] by_ingest(2,3) w' by (simp add: blob_key_hash)
      have "plain_key (hash_key (key_prefix_for ct) (sha body))"
        using blob_key_plain[OF hex(1)[of body], of ct] by (simp add: blob_key_hash)
      from contents_put[OF assms(2,3) this hex(2) obs] show ?thesis .
    qed
  qed
qed

lemma contents_reachable:
  assumes "(blob_step path sha)\<^sup>*\<^sup>* blob_start w" "paths_distinct path" "hex_hashes sha"
  shows "contents_ok path sha w \<and> tenants_ok w"
  using assms(1)
proof (induction rule: rtranclp_induct)
  case base
  then show ?case by (simp add: contents_ok_def tenants_ok_def blob_start_def object_at_def)
next
  case (step v w)
  then show ?case using blob_step_contents[OF _ _ assms(2,3)] blob_step_tenants by blast
qed

text \<open>C17: As long as no one writes or deletes by key, what a hash names is what it hashes: the bytes
  served for a private hash, and those served under any key that ends in one, have that hash.\<close>
theorem served_bytes_match_their_hash:
  assumes "(blob_step path sha)\<^sup>*\<^sup>* blob_start w" "paths_distinct path" "hex_hashes sha" "be_path env = path"
  shows "(fetch env ident raw w = Inr r \<longrightarrow> sha (rs_body r) = to_lowercase raw) \<and>
    (serve_blob env caller key w = Inr r \<longrightarrow> sanitize_key key = Some (hash_key pre h) \<longrightarrow> length h = 64 \<longrightarrow> sha (rs_body r) = h)"
proof (intro conjI impI)
  note ok = contents_reachable[OF assms(1-3)]
  assume f: "fetch env ident raw w = Inr r"
  from f obtain row ob where row: "owner_segment (i_sub ident) = Some (i_sub ident)" "is_sha256_hex (to_lowercase raw)"
      "map_of (tenants_of w) (i_sub ident, to_lowercase raw) = Some row" "object_at w (be_path env (tr_key row)) = Some ob"
      "rs_body r = ob_bytes ob" by (rule fetch_Inr)
  have key: "tr_key row = tenant_key (i_sub ident) (to_lowercase raw)" using ok row(3) by (simp add: tenants_ok_def)
  then show "sha (rs_body r) = to_lowercase raw"
    using ok row assms(4) tenant_key_plain[OF row(1,2)] unfolding contents_ok_def tenant_key_hash by (simp add: is_sha256_hex_def)
next
  note ok = contents_reachable[OF assms(1-3)]
  assume s: "serve_blob env caller key w = Inr r" and k: "sanitize_key key = Some (hash_key pre h)" and h: "length h = 64"
  from s obtain ob ct where "object_at w (be_path env (hash_key pre h)) = Some ob" "r = blob_response_of ct ob"
    using k by (auto elim!: serve_blob_Inr)
  then show "sha (rs_body r) = h"
    using ok h sanitized_plain[OF k] assms(4) by (simp add: contents_ok_def blob_response_of_def)
qed

theorem served_bytes_match_their_hash_witness:
  "let w = snd (upload sample_blobs (sample_user ''u1'') (\<lambda>k. None) ''data'' blob_start)
   in (case fetch sample_blobs (sample_user ''u1'') (replicate 64 CHR ''0'') w of
         Inr r \<Rightarrow> rs_body r = ''data'' \<and> be_sha sample_blobs (rs_body r) = replicate 64 CHR ''0'' | Inl e \<Rightarrow> False)"
proof -
  let ?w = "snd (upload sample_blobs (sample_user ''u1'') (\<lambda>k. None) ''data'' blob_start)"
  let ?h = "replicate 64 CHR ''0''"
  have step: "(blob_step id (\<lambda>b. ?h))\<^sup>*\<^sup>* blob_start ?w"
    by (rule r_into_rtranclp[of "blob_step id (\<lambda>b. ?h)"]) (simp add: by_upload)
  have "paths_distinct id" "hex_hashes (\<lambda>b. ?h)" by (simp add: paths_distinct_def, simp add: hex_hashes_def, code_simp)
  note hash = served_bytes_match_their_hash[OF step this, of sample_blobs "sample_user ''u1''" ?h]
  obtain r where r: "fetch sample_blobs (sample_user ''u1'') ?h ?w = Inr r" "rs_body r = ''data''"
  proof -
    have "(case fetch sample_blobs (sample_user ''u1'') ?h ?w of Inr r \<Rightarrow> rs_body r = ''data'' | Inl e \<Rightarrow> False)" by code_simp
    then show thesis using that by (auto split: sum.splits)
  qed
  have "to_lowercase ?h = ?h" by code_simp
  then show ?thesis using hash r by (simp add: Let_def)
qed

text \<open>An upload can be fetched: its owner gets the same bytes by their hash, as an attachment
  that is not sniffed, and uploading them again stores nothing; another tenant that has not
  uploaded them gets the answer for an unknown hash.\<close>
theorem upload_reads_back:
  assumes "upload env ident headers body w = (Inr (b, False), w')"
    and "be_pool env = Inr ()" "be_get env (be_path env (tb_key b)) = Store_Ok" "is_sha256_hex (be_sha env body)"
  shows "(\<exists>r. fetch env ident (tb_sha b) w' = Inr r \<and> rs_body r = body \<and>
       {(''content-disposition'', ''attachment''), (''x-content-type-options'', ''nosniff'')} \<subseteq> set (rs_headers r)) \<and>
    upload env ident headers body w' = (Inr (b, True), w') \<and>
    (owner_segment (i_sub other) = Some (i_sub other) \<longrightarrow> i_sub other \<noteq> i_sub ident \<longrightarrow>
      map_of (tenants_of w) (i_sub other, tb_sha b) = None \<longrightarrow>
      fetch env other (tb_sha b) w' = Inl (NotFound ''no such blob for this account''))"
  using assms(1)
proof (cases rule: upload_cases)
  case (stored t r)
  then have b: "b = tenant_blob_of env (be_sha env body) r" by simp
  have lower: "to_lowercase (be_sha env body) = be_sha env body"
    using assms(4) by (auto simp: to_lowercase_def to_lower_byte_def is_sha256_hex_def list_all_iff is_hex_lower_def
        is_ascii_upper_def is_ascii_digit_def intro!: map_idI)
  have row: "map_of (tenants_of w') (i_sub ident, be_sha env body) = Some r" using stored(5) by simp
  have ob: "object_at w' (be_path env (tr_key r)) = Some \<lparr>ob_bytes = body, ob_type = t\<rparr>"
    using stored(3,5) by (simp add: object_at_def put_object_def)
  have conf: "is_configured env" "body \<noteq> []" "\<not> too_large env body"
    using assms(1) by (auto simp: upload_def split: if_splits option.splits)
  have "fetch env other (tb_sha b) w' = Inl (NotFound ''no such blob for this account'')"
    if "owner_segment (i_sub other) = Some (i_sub other)" "i_sub other \<noteq> i_sub ident"
      "map_of (tenants_of w) (i_sub other, tb_sha b) = None"
    using that stored(5) assms(2,4) by (simp add: fetch_def b tenant_blob_of_def lower)
  moreover have "upload env ident headers body w' = (Inr (b, True), w')"
    using conf assms(2) row stored(1) by (simp add: upload_def b Let_def)
  moreover have "\<exists>r. fetch env ident (tb_sha b) w' = Inr r \<and> rs_body r = body \<and>
       {(''content-disposition'', ''attachment''), (''x-content-type-options'', ''nosniff'')} \<subseteq> set (rs_headers r)"
    using row ob assms(2-4) stored(1) by (simp add: fetch_def b tenant_blob_of_def lower get_object_def)
  ultimately show ?thesis by blast
qed (use assms in auto)

theorem upload_reads_back_witness:
  "let (res, w') = upload sample_blobs (sample_user ''u1'') (\<lambda>k. None) ''data'' blob_start
   in (case res of Inr (b, ex) \<Rightarrow> upload sample_blobs (sample_user ''u1'') (\<lambda>k. None) ''data'' w' = (Inr (b, True), w') | Inl e \<Rightarrow> False)"
proof -
  have "(case fst (upload sample_blobs (sample_user ''u1'') (\<lambda>k. None) ''data'' blob_start) of Inr (b, ex) \<Rightarrow> \<not> ex | Inl e \<Rightarrow> False)"
    by code_simp
  then obtain b w' where up: "upload sample_blobs (sample_user ''u1'') (\<lambda>k. None) ''data'' blob_start = (Inr (b, False), w')"
    by (auto split: sum.splits simp: prod_eq_iff)
  have "be_pool sample_blobs = Inr ()" "be_get sample_blobs (be_path sample_blobs (tb_key b)) = Store_Ok" "is_sha256_hex (be_sha sample_blobs ''data'')"
    by (simp add: sample_blobs_def, simp add: sample_blobs_def, code_simp)
  from upload_reads_back[OF up this] show ?thesis unfolding up by simp
qed

section \<open>What the comments promise and the routes do not do\<close>

lemma writers_can_replace_private_blobs:
  \<comment> \<open>the write route does not ask whose key it is\<close>
  "(case fetch sample_blobs (sample_user ''victim'') (replicate 64 CHR ''0'')
      (snd (put_blob sample_blobs (sample_user ''other'') (tenant_key ''victim'' (replicate 64 CHR ''0'')) (\<lambda>k. None) ''forged''
        (snd (upload sample_blobs (sample_user ''victim'') (\<lambda>k. None) ''data'' blob_start)))) of
      Inr r \<Rightarrow> rs_body r = ''forged'' | Inl e \<Rightarrow> False)"
  by code_simp

lemma slashed_prefix_hides_nothing:
  \<comment> \<open>the shadow routes trim the configured prefix, the listing does not\<close>
  "\<not> is_hidden_key ''retrievals/run/result.csv'' ''retrievals/''"
  by code_simp

lemma xml_is_served_inline:
  "guess_from_extension ''a/page.xml'' = Some ''application/xml'' \<and> \<not> is_active_content_type ''application/xml''"
  by code_simp

lemma ingest_is_idempotent:
  assumes "ingest_blob env p body w = (Inr r, w')" "be_pool env = Inr ()"
  shows "\<exists>r2. ingest_blob env p2 body w' = (Inr r2, w') \<and> bl_existed r2 \<and> bl_sha r2 = bl_sha r \<and> bl_url r2 = bl_url r \<and> bl_type r2 = bl_type r"
proof (cases "bs_blobs (iw_store w) (be_sha env body)")
  case (Some row)
  then show ?thesis using assms by (auto simp: ingest_blob_def Let_def split: if_splits)
next
  case None
  define ct where "ct = content_type_for (bp_content_type p) (bp_suggested_name p)"
  define key where "key = blob_key ct (be_sha env body)"
  have conf: "is_configured env" "body \<noteq> []" "\<not> too_large env body" using assms by (auto simp: ingest_blob_def split: if_splits)
  obtain pr w1 where put: "put_with_optional_attrs env (be_path env key) body ct w = (pr, w1)" by (meson surj_pair)
  from put show ?thesis
  proof (cases rule: put_attrs_cases)
    case (failed e)
    then show ?thesis using assms conf None put by (simp add: ingest_blob_def Let_def key_def ct_def)
  next
    case (stored t)
    then have rec: "record_blob env p (be_sha env body) (public_url_for env key) ct (int (length body)) w1 = (Inr r, w')"
      using assms conf None put by (simp add: ingest_blob_def Let_def key_def ct_def)
    have "bs_blobs (iw_store w1) (be_sha env body) = None" using None stored by simp
    then have "bl_sha r = be_sha env body \<and> bl_url r = public_url_for env key \<and> bl_type r = ct \<and>
      (\<exists>rid. bs_blobs (iw_store w') (be_sha env body) = Some (blob_row_of p rid (public_url_for env key) ct (int (length body))))"
      using rec by (auto simp: record_blob_def Let_def split: sum.splits)
    then show ?thesis using conf assms(2) by (auto simp: ingest_blob_def Let_def blob_row_of_def)
  qed
qed

end
