(* ===== verification/Retrieval.thy ===== *)
theory Retrieval
  imports Blobs "HOL-Library.List_Lexorder" "HOL-Library.Char_ord"
begin

text \<open>
  Direct retrieval: plans and the guard of their SQL (\<open>retrieve/plan.rs\<close>), the materialised
  output (\<open>retrieve/materialize.rs\<close>), the replay of a plan (\<open>retrieve/replayer.rs\<close>) and the
  route (\<open>handlers/retrieve.rs\<close>).

  The database is an argument: what it answers to the set-up and to the wrapped query, its
  cells already decoded to JSON.  So are the printing of JSON, the decoding of a plan by
  \<open>serde\<close> and the clock.  Objects are read and written through \<open>Blobs\<close>.
\<close>

section \<open>Plans\<close>

datatype retrieval_op = Sql_Op string | Storage_Get_Op "string option" string

record retrieval_plan =
  rp_plan :: "retrieval_op list"
  rp_expected :: "int option"
  rp_rationale :: "string option"

record access_step =
  ac_op :: string
  ac_query :: "string option"
  ac_bucket :: "string option"
  ac_key :: "string option"
  ac_rows_or_bytes :: int
  ac_ms :: nat

record retrieval_result =
  rv_run_id :: string
  rv_uri :: string
  rv_signed_url :: string
  rv_format :: string
  rv_chain :: "access_step list"
  rv_rowcount :: int
  rv_size :: int

section \<open>The guard of SQL\<close>

definition QUOTE :: char where "QUOTE = CHR 0x27"

fun after_block :: "string \<Rightarrow> string" where
  \<comment> \<open>what follows the end of a block comment\<close>
  "after_block (a # b # r) = (if a = CHR ''*'' \<and> b = CHR ''/'' then r else after_block (b # r))"
| "after_block r = []"

lemma length_after_block [len_le]: "length (after_block s) \<le> length s"
  by (induction s rule: after_block.induct) auto

function strip_sql_comments :: "string \<Rightarrow> string" where
  "strip_sql_comments s =
     (case s of
        [] \<Rightarrow> []
      | [c] \<Rightarrow> [c]
      | a # b # r \<Rightarrow>
          if a = CHR ''-'' \<and> b = CHR ''-'' then strip_sql_comments (dropWhile (\<lambda>c. c \<noteq> CHR 0x0A) r)
          else if a = CHR ''/'' \<and> b = CHR ''*'' then strip_sql_comments (after_block r)
          else a # strip_sql_comments (b # r))"
  by pat_completeness auto
termination
proof (relation "measure length", goal_cases)
  case (2 s a l b r)
  then show ?case using length_dropWhile_le[of "\<lambda>c. c \<noteq> CHR 0x0A" r] by simp
next
  case (3 s a l b r)
  then show ?case using length_after_block[of r] by simp
qed auto

declare strip_sql_comments.simps [simp del]

definition word_byte :: "char \<Rightarrow> bool" where
  "word_byte b \<longleftrightarrow> is_ascii_alphanumeric b \<or> b = CHR ''_''"

definition at_boundary :: "string \<Rightarrow> bool" where
  \<comment> \<open>no word goes on at the start of the rest\<close>
  "at_boundary rest \<longleftrightarrow> (case rest of [] \<Rightarrow> True | b # r \<Rightarrow> \<not> word_byte b)"

definition is_word_prefix :: "string \<Rightarrow> string \<Rightarrow> bool" where
  "is_word_prefix stmt word \<longleftrightarrow> (case strip_prefix word stmt of Some rest \<Rightarrow> at_boundary rest | None \<Rightarrow> False)"

definition FORBIDDEN_KEYWORDS :: "string list" where
  "FORBIDDEN_KEYWORDS =
     [''insert'', ''update'', ''delete'', ''merge'', ''copy'', ''create'', ''drop'', ''alter'', ''truncate'', ''grant'',
      ''revoke'', ''call'', ''execute'']"

definition FORBIDDEN_READ_TOKENS :: "string list" where
  "FORBIDDEN_READ_TOKENS =
     [''pg_read_file'', ''pg_read_binary_file'', ''pg_stat_file'', ''pg_ls_dir'', ''pg_ls_logdir'', ''pg_ls_waldir'',
      ''pg_ls_tmpdir'', ''pg_ls_archive_statusdir'', ''lo_import'', ''lo_export'', ''lo_get'', ''dblink'', ''dblink_connect'',
      ''pg_authid'', ''pg_shadow'', ''pg_user_mappings'', ''pg_user_mapping'', ''pg_largeobject'', ''pg_sleep'',
      ''pg_sleep_for'', ''pg_sleep_until'', ''pg_advisory_lock'', ''pg_advisory_lock_shared'', ''pg_try_advisory_lock'',
      ''pg_try_advisory_lock_shared'', ''pg_advisory_unlock'', ''pg_advisory_unlock_shared'', ''pg_advisory_unlock_all'',
      ''pg_advisory_xact_lock'', ''pg_advisory_xact_lock_shared'', ''pg_try_advisory_xact_lock'',
      ''pg_try_advisory_xact_lock_shared'', ''pg_terminate_backend'', ''pg_cancel_backend'', ''pg_reload_conf'',
      ''pg_rotate_logfile'']"

fun word_scan :: "string \<Rightarrow> char option \<Rightarrow> bool \<Rightarrow> string \<Rightarrow> bool run" where
  \<comment> \<open>the loop of \<open>word_present\<close>: the byte before, whether a literal is open, and the rest;
      a slice that starts inside a character panics\<close>
  "word_scan word prev in_string [] = Some False"
| "word_scan word prev True [c] = Some False"
| "word_scan word prev True (c # d # r) =
     (if c = QUOTE then (if d = QUOTE then word_scan word (Some d) True r else word_scan word (Some c) False (d # r))
      else word_scan word (Some c) True (d # r))"
| "word_scan word prev False (c # r) =
     (if c = QUOTE then word_scan word (Some c) True r
      else if is_continuation c then None
      else
        (case strip_prefix word (c # r) of
           Some rest \<Rightarrow>
             if (case prev of None \<Rightarrow> True | Some b \<Rightarrow> \<not> word_byte b) \<and> at_boundary rest then Some True
             else word_scan word (Some c) False r
         | None \<Rightarrow> word_scan word (Some c) False r))"

definition word_present :: "string \<Rightarrow> string \<Rightarrow> bool run" where
  "word_present lowered word = word_scan word None False lowered"

fun any_present :: "string \<Rightarrow> string list \<Rightarrow> bool run" where
  "any_present stmt [] = Some False"
| "any_present stmt (w # ws) =
     (case word_present stmt w of None \<Rightarrow> None | Some True \<Rightarrow> Some True | Some False \<Rightarrow> any_present stmt ws)"

definition contains_dml_keyword :: "string \<Rightarrow> bool run" where
  "contains_dml_keyword stmt = any_present stmt FORBIDDEN_KEYWORDS"

definition contains_dangerous_read :: "string \<Rightarrow> bool run" where
  "contains_dangerous_read stmt = any_present stmt FORBIDDEN_READ_TOKENS"

definition statements :: "string \<Rightarrow> string list" where
  "statements query =
     filter (\<lambda>s. s \<noteq> []) (map trim (split_on (CHR '';'') (to_lowercase (strip_sql_comments query))))"

definition is_safe_select :: "string \<Rightarrow> bool run" where
  "is_safe_select query =
     (case statements query of
        [stmt] \<Rightarrow>
          if \<not> (is_word_prefix (trim stmt) ''select'' \<or> is_word_prefix (trim stmt) ''with'') then Some False
          else
            (case contains_dml_keyword (trim stmt) of
               None \<Rightarrow> None
             | Some True \<Rightarrow> Some False
             | Some False \<Rightarrow> map_option Not (contains_dangerous_read (trim stmt)))
      | _ \<Rightarrow> Some False)"

subsection \<open>What the scan looks for\<close>

definition occurs_outside :: "string \<Rightarrow> string \<Rightarrow> bool" where
  \<comment> \<open>the word stands somewhere between word boundaries, after an even number of quotes\<close>
  "occurs_outside stmt word \<longleftrightarrow>
     (\<exists>a b. stmt = a @ word @ b \<and> even (count_list a QUOTE) \<and> (a = [] \<or> \<not> word_byte (last a)) \<and> at_boundary b)"

definition occurs_from :: "string \<Rightarrow> char option \<Rightarrow> bool \<Rightarrow> string \<Rightarrow> bool" where
  \<comment> \<open>the same, from the middle of the scan\<close>
  "occurs_from word prev in_string s \<longleftrightarrow>
     (\<exists>a b. s = a @ word @ b \<and> (even (count_list a QUOTE) \<longleftrightarrow> \<not> in_string) \<and>
       (if a = [] then (case prev of None \<Rightarrow> True | Some c \<Rightarrow> \<not> word_byte c) else \<not> word_byte (last a)) \<and> at_boundary b)"

lemma occurs_from_Nil: "word \<noteq> [] \<Longrightarrow> \<not> occurs_from word prev in_string []"
  by (simp add: occurs_from_def)

lemma occurs_from_Cons:
  "occurs_from word prev in_string (c # r) \<longleftrightarrow>
     (\<not> in_string \<and> (\<exists>b. c # r = word @ b \<and> (case prev of None \<Rightarrow> True | Some c \<Rightarrow> \<not> word_byte c) \<and> at_boundary b)) \<or>
     occurs_from word (Some c) (in_string \<noteq> (c = QUOTE)) r" (is "?l \<longleftrightarrow> ?here \<or> ?later")
proof
  assume ?l
  then obtain a b where ab: "c # r = a @ word @ b" "even (count_list a QUOTE) \<longleftrightarrow> \<not> in_string" "at_boundary b"
    "if a = [] then (case prev of None \<Rightarrow> True | Some c \<Rightarrow> \<not> word_byte c) else \<not> word_byte (last a)"
    unfolding occurs_from_def by blast
  show "?here \<or> ?later"
  proof (cases a)
    case Nil
    then show ?thesis using ab by auto
  next
    case (Cons x a')
    then have "x = c" "r = a' @ word @ b" using ab(1) by simp_all
    moreover have "even (count_list a' QUOTE) \<longleftrightarrow> \<not> (in_string \<noteq> (c = QUOTE))" using ab(2) Cons \<open>x = c\<close> by (auto split: if_splits)
    ultimately have ?later unfolding occurs_from_def using ab(3,4) Cons by (intro exI[of _ a'] exI[of _ b]) auto
    then show ?thesis ..
  qed
next
  assume "?here \<or> ?later"
  then show ?l
  proof
    assume ?here
    then show ?thesis unfolding occurs_from_def by (auto intro!: exI[of _ "[]"])
  next
    assume ?later
    then obtain a b where ab: "r = a @ word @ b" "even (count_list a QUOTE) \<longleftrightarrow> \<not> (in_string \<noteq> (c = QUOTE))" "at_boundary b"
      "if a = [] then \<not> word_byte c else \<not> word_byte (last a)"
      unfolding occurs_from_def option.case by blast
    then show ?thesis unfolding occurs_from_def by (intro exI[of _ "c # a"] exI[of _ b]) (auto split: if_splits)
  qed
qed

lemma word_scan_exact:
  assumes "ascii_text s" "word \<noteq> []" "hd word \<noteq> QUOTE"
  shows "word_scan word prev in_string s = Some (occurs_from word prev in_string s)"
  using assms
proof (induction word prev in_string s rule: word_scan.induct)
  case (1 word prev in_string)
  then show ?case by (simp add: occurs_from_Nil)
next
  case (2 word prev c)
  then show ?case by (simp add: occurs_from_Cons occurs_from_Nil)
next
  case (3 word prev c d r)
  have no: "QUOTE # r \<noteq> word @ b" for b using 3(5,6) by (cases word) auto
  have "ascii_text (d # r)" "ascii_text r" using 3(4) by (simp_all add: ascii_text_def)
  then show ?case using 3 no by (cases "c = QUOTE"; cases "d = QUOTE") (simp_all add: occurs_from_Cons[of word prev True] occurs_from_Cons[of word "Some c" False]
        occurs_from_Cons[of word "Some QUOTE" False])
next
  case (4 word prev c r)
  have no: "QUOTE # r \<noteq> word @ b" for b using 4 by (cases word) auto
  have ascii: "\<not> is_continuation c" "ascii_text r" using 4 by (simp_all add: ascii_text_def is_continuation_def)
  show ?case
  proof (cases "c = QUOTE")
    case True
    then show ?thesis using 4 no ascii by (simp add: occurs_from_Cons[of word prev False])
  next
    case False
    show ?thesis
    proof (cases "strip_prefix word (c # r)")
      case None
      then have "c # r \<noteq> word @ b" for b by (metis option.simps(3) strip_prefix_Some)
      then show ?thesis using 4 False None ascii by (simp add: occurs_from_Cons[of word prev False])
    next
      case (Some rest)
      then have "c # r = word @ b \<longleftrightarrow> b = rest" for b by (auto simp: strip_prefix_Some)
      then show ?thesis using 4 False Some ascii by (auto simp: occurs_from_Cons[of word prev False])
    qed
  qed
qed

lemma occurs_from_start: "occurs_from word None False s \<longleftrightarrow> occurs_outside s word"
  unfolding occurs_from_def occurs_outside_def by (intro ex_cong1) auto

lemma word_present_exact: "ascii_text s \<Longrightarrow> word \<noteq> [] \<Longrightarrow> hd word \<noteq> QUOTE \<Longrightarrow> word_present s word = Some (occurs_outside s word)"
  by (simp add: word_present_def word_scan_exact occurs_from_start)

lemma any_present_exact:
  "ascii_text s \<Longrightarrow> list_all (\<lambda>w. w \<noteq> [] \<and> hd w \<noteq> QUOTE) ws \<Longrightarrow> any_present s ws = Some (\<exists>w \<in> set ws. occurs_outside s w)"
  by (induction ws) (auto simp: word_present_exact split: bool.split)

lemma forbidden_words:
  "list_all (\<lambda>w. w \<noteq> [] \<and> hd w \<noteq> QUOTE) FORBIDDEN_KEYWORDS" "list_all (\<lambda>w. w \<noteq> [] \<and> hd w \<noteq> QUOTE) FORBIDDEN_READ_TOKENS"
  by (simp_all add: FORBIDDEN_KEYWORDS_def FORBIDDEN_READ_TOKENS_def QUOTE_def)

lemma set_after_block: "set (after_block s) \<subseteq> set s"
  by (induction s rule: after_block.induct) auto

lemma set_strip_comments: "set (strip_sql_comments s) \<subseteq> set s"
proof (induction s rule: strip_sql_comments.induct)
  case (1 s)
  show ?case
  proof (cases s rule: remdups_adj.cases)
    case (3 a b r)
    have drop: "set (dropWhile (\<lambda>c. c \<noteq> CHR 0x0A) r) \<subseteq> set r" by (auto dest: set_dropWhileD)
    have eq: "strip_sql_comments s =
        (if a = CHR ''-'' \<and> b = CHR ''-'' then strip_sql_comments (dropWhile (\<lambda>c. c \<noteq> CHR 0x0A) r)
         else if a = CHR ''/'' \<and> b = CHR ''*'' then strip_sql_comments (after_block r)
         else a # strip_sql_comments (b # r))"
      using 3 by (subst strip_sql_comments.simps) simp
    consider (line) "a = CHR ''-'' \<and> b = CHR ''-''"
      | (block) "\<not> (a = CHR ''-'' \<and> b = CHR ''-'')" "a = CHR ''/'' \<and> b = CHR ''*''"
      | (other) "\<not> (a = CHR ''-'' \<and> b = CHR ''-'')" "\<not> (a = CHR ''/'' \<and> b = CHR ''*'')" by blast
    then show ?thesis
    proof cases
      case line
      then show ?thesis using 1(1)[OF 3 refl line] drop eq 3 by auto
    next
      case block
      then show ?thesis using 1(2)[OF 3 refl block] set_after_block[of r] eq 3 by auto
    next
      case other
      then show ?thesis using 1(3)[OF 3 refl other] eq 3 by auto
    qed
  qed (simp_all add: strip_sql_comments.simps)
qed

lemma lower_ascii: "ascii_text s \<Longrightarrow> ascii_text (to_lowercase s)"
proof -
  have "code c < 128 \<Longrightarrow> code (to_lower_byte c) < 128" for c
    by (auto simp: to_lower_byte_def is_ascii_upper_def)
  then show "ascii_text s \<Longrightarrow> ascii_text (to_lowercase s)" by (simp add: ascii_text_def to_lowercase_def list_all_iff)
qed

lemma split_pieces: "p \<in> set (split_on c s) \<Longrightarrow> set p \<subseteq> set s"
  by (induction s arbitrary: p rule: split_on.induct) (fastforce split: list.splits if_splits)+

lemma statements_ascii:
  assumes "ascii_text query" "stmt \<in> set (statements query)"
  shows "ascii_text stmt" "trim stmt = stmt"
proof -
  let ?low = "to_lowercase (strip_sql_comments query)"
  obtain p where p: "p \<in> set (split_on (CHR '';'') ?low)" "stmt = trim p" using assms(2) by (auto simp: statements_def)
  have "ascii_text (strip_sql_comments query)" using assms(1) set_strip_comments by (auto simp: ascii_text_def list_all_iff)
  then have "ascii_text ?low" by (rule lower_ascii)
  then show "ascii_text stmt" using split_pieces[OF p(1)] set_trim[of p] p(2) by (auto simp: ascii_text_def list_all_iff)
  show "trim stmt = stmt" by (simp add: p(2))
qed



subsection \<open>What gets past it\<close>

lemma identifier_with_quote_hides_the_rest:
  \<comment> \<open>a quoted identifier holds a single quote: the rest counts as a literal\<close>
  "is_safe_select ''SELECT 1 AS \"'\", pg_read_file('/etc/passwd')'' = Some True"
  by code_simp

lemma literal_with_comment_hides_the_rest:
  \<comment> \<open>comments are removed inside literals too, with all that stands between them\<close>
  "is_safe_select ''SELECT '/*', pg_read_file('/etc/passwd'), '*/' '' = Some True"
  by code_simp

lemma guard_panics_outside_ascii:
  \<comment> \<open>a character of several bytes outside a literal\<close>
  "is_safe_select (''SELECT '' @ [CHR 0xC3, CHR 0xA9]) = None"
  by code_simp

section \<open>The output\<close>

datatype output_format = Csv | Jsonl | Raw

definition format_of :: "string \<Rightarrow> output_format option" where
  "format_of s = (if s = ''csv'' then Some Csv else if s = ''jsonl'' then Some Jsonl else if s = ''raw'' then Some Raw else None)"

fun extension :: "output_format \<Rightarrow> string" where
  "extension Csv = ''csv''" | "extension Jsonl = ''jsonl''" | "extension Raw = ''bin''"

fun format_name :: "output_format \<Rightarrow> string" where
  "format_name Csv = ''csv''" | "format_name Jsonl = ''jsonl''" | "format_name Raw = ''raw''"

fun format_type :: "output_format \<Rightarrow> string" where
  "format_type Csv = ''text/csv''" | "format_type Jsonl = ''application/x-ndjson''" | "format_type Raw = ''application/octet-stream''"

record materializer =
  mt_format :: output_format
  mt_buf :: string
  mt_fields :: "string list option"  \<comment> \<open>set once the header is written\<close>

type_synonym btree_row = "(string \<times> json) list"  \<comment> \<open>sorted by key\<close>

fun bt_insert :: "string \<Rightarrow> json \<Rightarrow> btree_row \<Rightarrow> btree_row" where
  "bt_insert k v [] = [(k, v)]"
| "bt_insert k v ((n, u) # r) = (if k = n then (k, v) # r else if k < n then (k, v) # (n, u) # r else (n, u) # bt_insert k v r)"

definition bt_of :: "(string \<times> json) list \<Rightarrow> btree_row" where
  "bt_of kvs = fold (\<lambda>(k, v). bt_insert k v) kvs []"

definition NEWLINE :: char where "NEWLINE = CHR 0x0A"
definition DQUOTE :: char where "DQUOTE = CHR 0x22"

definition double_quotes :: "string \<Rightarrow> string" where
  \<comment> \<open>every double quote replaced by two\<close>
  "double_quotes s = concat (map (\<lambda>c. if c = DQUOTE then [DQUOTE, DQUOTE] else [c]) s)"

definition csv_quote :: "string \<Rightarrow> string" where
  "csv_quote s =
     (if CHR '','' \<in> set s \<or> DQUOTE \<in> set s \<or> NEWLINE \<in> set s \<or> CHR 0x0D \<in> set s
      then [DQUOTE] @ double_quotes s @ [DQUOTE] else s)"

definition csv_escape :: "(json \<Rightarrow> string) \<Rightarrow> json \<Rightarrow> string" where
  "csv_escape show v = csv_quote (case v of JNull \<Rightarrow> [] | JString s \<Rightarrow> s | other \<Rightarrow> show other)"

definition csv_line :: "(json \<Rightarrow> string) \<Rightarrow> string list \<Rightarrow> btree_row \<Rightarrow> string" where
  "csv_line show cols row =
     join '','' (map (\<lambda>f. csv_escape show (case map_of row f of Some v \<Rightarrow> v | None \<Rightarrow> JNull)) cols) @ [NEWLINE]"

definition write_row :: "(json \<Rightarrow> string) \<Rightarrow> btree_row \<Rightarrow> materializer \<Rightarrow> materializer" where
  "write_row show row m =
     (case mt_format m of
        Jsonl \<Rightarrow> m\<lparr>mt_buf := mt_buf m @ show (JObject row) @ [NEWLINE]\<rparr>
      | Csv \<Rightarrow>
          (case mt_fields m of
             Some cols \<Rightarrow> m\<lparr>mt_buf := mt_buf m @ csv_line show cols row\<rparr>
           | None \<Rightarrow>
               (let cols = map fst row
                in m\<lparr>mt_fields := Some cols,
                     mt_buf := mt_buf m @ join '','' cols @ [NEWLINE] @ csv_line show cols row\<rparr>))
      | Raw \<Rightarrow> m)"

definition write_raw_bytes :: "string \<Rightarrow> materializer \<Rightarrow> materializer" where
  "write_raw_bytes bytes m = m\<lparr>mt_buf := mt_buf m @ bytes\<rparr>"

section \<open>The replay\<close>

datatype db_reply = Db_Rows "(string \<times> json) list list" | Db_Canceled | Db_Failed string

record retrieval_env =
  rx_blobs :: blob_env
  rx_settings :: retrieval_settings
  rx_show :: "json \<Rightarrow> string"
  rx_plan :: "json \<Rightarrow> string + retrieval_plan"
  rx_pool :: "unit api_result"
  rx_begin :: "string + unit"
  rx_setup :: "string \<Rightarrow> string + unit"
  rx_query :: "string \<Rightarrow> db_reply"
  rx_missing :: "string \<Rightarrow> string"
  rx_read :: "string \<Rightarrow> string + unit"  \<comment> \<open>reading the body of an object\<close>
  rx_elapsed :: "nat \<Rightarrow> nat"

definition U64_MAX :: int where "U64_MAX = 2 ^ 64 - 1"

definition wrap_select_with_cap :: "string \<Rightarrow> int \<Rightarrow> string" where
  "wrap_select_with_cap cleaned probe_limit =
     ''SELECT * FROM ('' @ [NEWLINE] @ cleaned @ [NEWLINE] @ '') AS __retrieval_outer LIMIT '' @ show_int probe_limit"

definition quote_pg_ident :: "string \<Rightarrow> string" where
  "quote_pg_ident ident = [DQUOTE] @ double_quotes ident @ [DQUOTE]"

definition trim_semicolons :: "string \<Rightarrow> string" where
  "trim_semicolons s = rev (dropWhile (\<lambda>c. c = CHR '';'') (rev s))"

definition txn_setup :: "retrieval_settings \<Rightarrow> string" where
  "txn_setup st =
     ''SET TRANSACTION READ ONLY; SET LOCAL statement_timeout = '' @ show_int (retrieval_stmt_timeout_ms st) @
     (if trim (retrieval_db_role st) \<noteq> []
      then ''; SET LOCAL ROLE '' @ quote_pg_ident (trim (retrieval_db_role st)) else [])"

definition timeout_text :: "retrieval_settings \<Rightarrow> string" where
  "timeout_text st =
     ''query exceeded the '' @ show_int (retrieval_stmt_timeout_ms st) @ ''ms statement timeout '' @ em_dash @
     '' narrow the scan (add a WHERE bound, use an index, or query a smaller time window) rather than retrying as-is''"

definition limited_sql :: "retrieval_settings \<Rightarrow> string \<Rightarrow> string" where
  "limited_sql st query =
     wrap_select_with_cap (trim_end (trim_semicolons (trim_end query))) (min (retrieval_row_cap st + 1) U64_MAX)"

definition execute_sql_op :: "retrieval_env \<Rightarrow> string \<Rightarrow> materializer \<Rightarrow> (int \<times> int) api_result \<times> materializer" where
  "execute_sql_op x query m =
     (case rx_pool x of
        Inl e \<Rightarrow> (Inl e, m)
      | Inr _ \<Rightarrow>
          (case rx_begin x of
             Inl e \<Rightarrow> (Inl (Internal (''begin transaction: '' @ e)), m)
           | Inr _ \<Rightarrow>
               (case rx_setup x (txn_setup (rx_settings x)) of
                  Inl e \<Rightarrow> (Inl (Internal (''configure read txn: '' @ e)), m)
                | Inr _ \<Rightarrow>
                    (case rx_query x (limited_sql (rx_settings x) query) of
                       Db_Canceled \<Rightarrow> (Inl (BadRequest (timeout_text (rx_settings x))), m)
                     | Db_Failed e \<Rightarrow> (Inl (BadRequest e), m)
                     | Db_Rows rows \<Rightarrow>
                         if retrieval_row_cap (rx_settings x) < int (length rows) then
                           (Inl (BadRequest (''SQL result set exceeds row cap ('' @
                                   show_int (retrieval_row_cap (rx_settings x)) @ ''); refine your query'')), m)
                         else
                           (Inr (int (length rows), int (length rows)),
                            fold (\<lambda>row. write_row (rx_show x) (bt_of row)) rows m)))))"

definition descriptor :: "retrieval_env \<Rightarrow> string \<Rightarrow> string \<Rightarrow> btree_row" where
  "descriptor x key bytes =
     bt_of [(''op'', JString ''storage_get''), (''key'', JString key), (''size'', JNumber (NInt (int (length bytes)))),
            (''sha256'', JString (be_sha (rx_blobs x) bytes))]"

definition execute_storage_get ::
    "retrieval_env \<Rightarrow> output_format \<Rightarrow> string \<Rightarrow> blob_world \<Rightarrow> materializer \<Rightarrow> (int \<times> int) api_result \<times> materializer" where
  \<comment> \<open>the bytes read and the rows written\<close>
  "execute_storage_get x fmt key w m =
     (case sanitize_blob_key key of
        Inl e \<Rightarrow> (Inl e, m)
      | Inr k \<Rightarrow>
          (case get_object (rx_blobs x) (be_path (rx_blobs x) k) w of
             Missing \<Rightarrow> (Inl (NotFound (''blob '' @ [QUOTE] @ key @ [QUOTE] @ '' not found: '' @ rx_missing x k)), m)
           | Get_Failed e \<Rightarrow> (Inl (NotFound (''blob '' @ [QUOTE] @ key @ [QUOTE] @ '' not found: '' @ e)), m)
           | Got ob \<Rightarrow>
               (let blob_max = blob_max_bytes (be_settings (rx_blobs x));
                    n = int (length (ob_bytes ob))
                in if 0 < blob_max \<and> blob_max < n then
                     (Inl (BadRequest (''blob '' @ key @ '' exceeds LUMID_BLOB_MAX_BYTES ('' @ show_int n @ '' bytes)'')), m)
                   else
                     (case rx_read x k of
                        Inl e \<Rightarrow> (Inl (Internal (''reading blob: '' @ e)), m)
                      | Inr _ \<Rightarrow>
                          (case fmt of
                             Raw \<Rightarrow> (Inr (n, 0), write_raw_bytes (ob_bytes ob) m)
                           | _ \<Rightarrow> (Inr (n, 1), write_row (rx_show x) (descriptor x key (ob_bytes ob)) m))))))"

definition rejected_sql :: "string \<Rightarrow> api_error" where
  "rejected_sql query =
     BadRequest (''SQL rejected: only a single read-only SELECT is allowed; got: '' @ take_chars 200 query)"

definition execute_op ::
    "retrieval_env \<Rightarrow> output_format \<Rightarrow> nat \<Rightarrow> retrieval_op \<Rightarrow> blob_world \<Rightarrow> materializer \<Rightarrow>
     ((access_step \<times> int) api_result \<times> materializer) run" where
  \<comment> \<open>the step for the access chain, and the rows counted\<close>
  "execute_op x fmt i op1 w m =
     (case op1 of
        Sql_Op query \<Rightarrow>
          (case is_safe_select query of
             None \<Rightarrow> None
           | Some False \<Rightarrow> Some (Inl (rejected_sql query), m)
           | Some True \<Rightarrow>
               Some (case execute_sql_op x query m of
                       (Inl e, m1) \<Rightarrow> (Inl e, m1)
                     | (Inr (written, rows), m1) \<Rightarrow>
                         (Inr (\<lparr>ac_op = ''sql'', ac_query = Some query, ac_bucket = None, ac_key = None,
                                ac_rows_or_bytes = written, ac_ms = rx_elapsed x i\<rparr>, rows), m1)))
      | Storage_Get_Op bucket key \<Rightarrow>
          Some (case execute_storage_get x fmt key w m of
                  (Inl e, m1) \<Rightarrow> (Inl e, m1)
                | (Inr (bytes_read, rows), m1) \<Rightarrow>
                    (Inr (\<lparr>ac_op = ''storage_get'', ac_query = None, ac_bucket = None, ac_key = Some key,
                           ac_rows_or_bytes = bytes_read, ac_ms = rx_elapsed x i\<rparr>, rows), m1)))"

fun execute_ops ::
    "retrieval_env \<Rightarrow> output_format \<Rightarrow> nat \<Rightarrow> retrieval_op list \<Rightarrow> blob_world \<Rightarrow> materializer \<Rightarrow>
     (access_step list \<times> int \<times> materializer) api_result run" where
  "execute_ops x fmt i [] w m = Some (Inr ([], 0, m))"
| "execute_ops x fmt i (op1 # ops) w m =
     (case execute_op x fmt i op1 w m of
        None \<Rightarrow> None
      | Some (Inl e, m1) \<Rightarrow> Some (Inl e)
      | Some (Inr (stp, rows), m1) \<Rightarrow>
          (case execute_ops x fmt (i + 1) ops w m1 of
             None \<Rightarrow> None
           | Some (Inl e) \<Rightarrow> Some (Inl e)
           | Some (Inr (chain, tot, m2)) \<Rightarrow> Some (Inr (stp # chain, rows + tot, m2))))"

definition result_key :: "retrieval_env \<Rightarrow> output_format \<Rightarrow> string \<Rightarrow> string" where
  "result_key x fmt rid = retrieval_prefix (rx_settings x) @ ''/'' @ rid @ ''/result.'' @ extension fmt"

definition write_to_store :: "retrieval_env \<Rightarrow> string \<Rightarrow> string \<Rightarrow> string \<Rightarrow> blob_world \<Rightarrow> string api_result \<times> blob_world" where
  "write_to_store x key bytes ct w =
     (case put_with_optional_attrs (rx_blobs x) (be_path (rx_blobs x) key) bytes ct w of
        (Inl e, w1) \<Rightarrow> (Inl (Internal (''object store write failed: '' @ e)), w1)
      | (Inr _, w1) \<Rightarrow> (Inr (''/blobs/'' @ key), w1))"

definition replay ::
    "retrieval_env \<Rightarrow> retrieval_plan \<Rightarrow> output_format \<Rightarrow> string \<Rightarrow> blob_world \<Rightarrow> retrieval_result api_result run \<times> blob_world" where
  "replay x plan fmt rid w =
     (if rp_plan plan = [] then (Some (Inl (BadRequest ''plan has no ops to execute'')), w)
      else
        (case execute_ops x fmt 0 (rp_plan plan) w \<lparr>mt_format = fmt, mt_buf = [], mt_fields = None\<rparr> of
           None \<Rightarrow> (None, w)
         | Some (Inl e) \<Rightarrow> (Some (Inl e), w)
         | Some (Inr (chain, tot, m)) \<Rightarrow>
             (case write_to_store x (result_key x fmt rid) (mt_buf m) (format_type fmt) w of
                (Inl e, w1) \<Rightarrow> (Some (Inl e), w1)
              | (Inr uri, w1) \<Rightarrow>
                  (Some (Inr \<lparr>rv_run_id = rid, rv_uri = uri, rv_signed_url = [], rv_format = format_name fmt, rv_chain = chain,
                              rv_rowcount = tot, rv_size = int (length (mt_buf m))\<rparr>), w1))))"

section \<open>The route\<close>

definition parse_request :: "retrieval_env \<Rightarrow> json \<Rightarrow> (retrieval_plan \<times> output_format) api_result" where
  "parse_request x body =
     (let sql = json_get ''sql'' body; plan = json_get ''plan'' body
      in if (sql \<noteq> None) = (plan \<noteq> None) then Inl (BadRequest (''provide exactly one of '' @ [QUOTE] @ ''sql'' @ [QUOTE] @ '' or '' @ [QUOTE] @ ''plan'' @ [QUOTE]))
         else
           (case (case sql of
                    Some v \<Rightarrow>
                      (case as_str (Some v) of
                         Some query \<Rightarrow> Inr \<lparr>rp_plan = [Sql_Op query], rp_expected = None, rp_rationale = None\<rparr>
                       | None \<Rightarrow> Inl (BadRequest ([QUOTE] @ ''sql'' @ [QUOTE] @ '' must be a string'')))
                  | None \<Rightarrow>
                      (case rx_plan x (case plan of Some v \<Rightarrow> v | None \<Rightarrow> JNull) of
                         Inl e \<Rightarrow> Inl (BadRequest (''invalid plan JSON: '' @ e))
                       | Inr p \<Rightarrow> Inr p)) of
              Inl e \<Rightarrow> Inl e
            | Inr p \<Rightarrow>
                (let fmt = (case as_str (json_get ''output_format'' body) of Some f \<Rightarrow> f | None \<Rightarrow> ''jsonl'')
                 in case format_of fmt of
                      Some f \<Rightarrow> Inr (p, f)
                    | None \<Rightarrow>
                        Inl (BadRequest (''unknown output_format: '' @ [QUOTE] @ fmt @ [QUOTE] @ '' (supported: jsonl, csv, raw '' @
                               em_dash @ '' parquet is not implemented)'')))))"

definition post_retrieve :: "retrieval_env \<Rightarrow> string \<Rightarrow> json \<Rightarrow> blob_world \<Rightarrow> retrieval_result api_result run \<times> blob_world" where
  "post_retrieve x rid body w =
     (case parse_request x body of Inl e \<Rightarrow> (Some (Inl e), w) | Inr (plan, fmt) \<Rightarrow> replay x plan fmt rid w)"

section \<open>Quoting\<close>

text \<open>A reader of quoted text, for CSV records (RFC 4180) and for quoted SQL identifiers.\<close>

fun read_quoted :: "string \<Rightarrow> string \<times> string" where
  "read_quoted [] = ([], [])"
| "read_quoted [c] = (if c = DQUOTE then ([], []) else ([c], []))"
| "read_quoted (c # d # r) =
     (if c = DQUOTE then (if d = DQUOTE then (case read_quoted r of (s, rest) \<Rightarrow> (DQUOTE # s, rest)) else ([], d # r))
      else (case read_quoted (d # r) of (s, rest) \<Rightarrow> (c # s, rest)))"

definition ends_cell :: "char \<Rightarrow> bool" where
  "ends_cell c \<longleftrightarrow> c = CHR '','' \<or> c = NEWLINE"

definition read_cell :: "string \<Rightarrow> string \<times> string" where
  "read_cell s =
     (case s of
        c # r \<Rightarrow> if c = DQUOTE then read_quoted r else (takeWhile (\<lambda>c. \<not> ends_cell c) s, dropWhile (\<lambda>c. \<not> ends_cell c) s)
      | [] \<Rightarrow> ([], []))"

lemma length_read_quoted [len_le]: "length (snd (read_quoted s)) \<le> length s"
  by (induction s rule: read_quoted.induct) (auto split: prod.split)

lemma length_read_cell [len_le]: "length (snd (read_cell s)) \<le> length s"
  using length_read_quoted[of "tl s"] length_dropWhile_le[of "\<lambda>c. \<not> ends_cell c" s]
  by (auto simp: read_cell_def split: list.split)

lemma read_cell_shorter: "(cell, c # r) = read_cell s \<Longrightarrow> length r < length s"
  using length_read_cell[of s] by (metis Suc_le_lessD length_Cons snd_conv)

function read_record :: "string \<Rightarrow> string list \<times> string" where
  "read_record s =
     (case read_cell s of
        (cell, []) \<Rightarrow> ([cell], [])
      | (cell, c # r) \<Rightarrow>
          if c = CHR '','' then (case read_record r of (cells, rest) \<Rightarrow> (cell # cells, rest)) else ([cell], r))"
  by pat_completeness auto
termination by (relation "measure length") (auto dest: read_cell_shorter)

declare read_record.simps [simp del]

lemma read_quoted_back:
  "(r = [] \<or> hd r \<noteq> DQUOTE) \<Longrightarrow> read_quoted (double_quotes s @ DQUOTE # r) = (s, r)"
proof (induction s)
  case Nil
  then show ?case by (cases r) (auto simp: double_quotes_def)
next
  case (Cons c s)
  have ne: "double_quotes s @ DQUOTE # r \<noteq> []" by simp
  then obtain d t where dt: "double_quotes s @ DQUOTE # r = d # t" by (meson neq_Nil_conv)
  have "double_quotes (c # s) @ DQUOTE # r = (if c = DQUOTE then DQUOTE # DQUOTE # d # t else c # d # t)"
    using dt by (simp add: double_quotes_def)
  then show ?case using Cons dt by auto
qed

lemma quoted_ident_reads_back:
  \<comment> \<open>whatever name is configured, the role is one identifier\<close>
  "(r = [] \<or> hd r \<noteq> DQUOTE) \<Longrightarrow> \<exists>t. quote_pg_ident ident @ r = DQUOTE # t \<and> read_quoted t = (ident, r)"
  using read_quoted_back[of r ident] by (simp add: quote_pg_ident_def)

lemma read_cell_back:
  assumes "ends_cell c"
  shows "read_cell (csv_quote s @ c # r) = (s, c # r)"
proof (cases "CHR '','' \<in> set s \<or> DQUOTE \<in> set s \<or> NEWLINE \<in> set s \<or> CHR 0x0D \<in> set s")
  case True
  moreover have "c \<noteq> DQUOTE" using assms by (auto simp: ends_cell_def DQUOTE_def NEWLINE_def)
  ultimately show ?thesis using read_quoted_back[of "c # r" s] by (simp add: csv_quote_def read_cell_def)
next
  case False
  then have plain: "csv_quote s = s" "\<And>b. b \<in> set s \<Longrightarrow> \<not> ends_cell b" "DQUOTE \<notin> set s"
    by (auto simp: csv_quote_def ends_cell_def)
  have "takeWhile (\<lambda>c. \<not> ends_cell c) (s @ c # r) = s" "dropWhile (\<lambda>c. \<not> ends_cell c) (s @ c # r) = c # r"
    using plain(2) assms by (simp_all add: takeWhile_append2 dropWhile_append2)
  moreover have "c \<noteq> DQUOTE" using assms by (auto simp: ends_cell_def DQUOTE_def NEWLINE_def)
  ultimately show ?thesis using plain(1,3) by (cases s) (auto simp: read_cell_def)
qed

lemma record_reads_back:
  "cells \<noteq> [] \<Longrightarrow> read_record (join '','' (map csv_quote cells) @ NEWLINE # r) = (cells, r)"
proof (induction cells)
  case (Cons s cells)
  have ends: "ends_cell (CHR '','')" "ends_cell NEWLINE" and "NEWLINE \<noteq> CHR '',''" by (simp_all add: ends_cell_def NEWLINE_def)
  show ?case
  proof (cases "cells = []")
    case True
    then show ?thesis using read_cell_back[OF ends(2), of s r] \<open>NEWLINE \<noteq> _\<close> by (simp add: join_Cons read_record.simps)
  next
    case False
    then show ?thesis
      using Cons.IH read_cell_back[OF ends(1), of s "join '','' (map csv_quote cells) @ NEWLINE # r"]
      by (simp add: join_Cons read_record.simps[of "csv_quote s @ _"])
  qed
qed simp

definition cell_text :: "(json \<Rightarrow> string) \<Rightarrow> json \<Rightarrow> string" where
  "cell_text show v = (case v of JNull \<Rightarrow> [] | JString s \<Rightarrow> s | other \<Rightarrow> show other)"

text \<open>A row written as CSV reads back: whatever commas, quotes and line breaks its values have, a
  reader of RFC 4180 finds the texts of the row's values under the header's columns, and what
  follows the row is untouched.\<close>
theorem csv_row_reads_back:
  assumes "cols \<noteq> []"
  shows "read_record (csv_line show cols row @ r) =
    (map (\<lambda>f. cell_text show (case map_of row f of Some v \<Rightarrow> v | None \<Rightarrow> JNull)) cols, r)"
proof -
  let ?v = "\<lambda>f. case map_of row f of Some v \<Rightarrow> v | None \<Rightarrow> JNull"
  have "csv_line show cols row @ r = join '','' (map csv_quote (map (\<lambda>f. cell_text show (?v f)) cols)) @ NEWLINE # r"
    by (simp add: csv_line_def csv_escape_def cell_text_def comp_def)
  then show ?thesis using record_reads_back[of "map (\<lambda>f. cell_text show (?v f)) cols" r] assms by simp
qed

theorem csv_row_reads_back_witness:
  "read_record (csv_line (\<lambda>v. []) [''a'', ''b''] [(''a'', JString [CHR 0x22, CHR '','', CHR 0x0A]), (''b'', JString ''x'')] @ ''z'') =
     ([[CHR 0x22, CHR '','', CHR 0x0A], ''x''], ''z'')"
  using csv_row_reads_back[of "[''a'', ''b'']" "\<lambda>v. []" "[(''a'', JString [CHR 0x22, CHR '','', CHR 0x0A]), (''b'', JString ''x'')]" "''z''"]
  by (simp add: cell_text_def)

section \<open>What a replay does\<close>

definition step_matches :: "retrieval_env \<Rightarrow> retrieval_op \<Rightarrow> access_step \<Rightarrow> bool" where
  "step_matches x op1 stp \<longleftrightarrow>
     (case op1 of
        Sql_Op q \<Rightarrow>
          ac_op stp = ''sql'' \<and> ac_query stp = Some q \<and> is_safe_select q = Some True \<and>
          0 \<le> ac_rows_or_bytes stp \<and> ac_rows_or_bytes stp \<le> retrieval_row_cap (rx_settings x)
      | Storage_Get_Op b k \<Rightarrow>
          ac_op stp = ''storage_get'' \<and> ac_key stp = Some k \<and> sanitize_key k \<noteq> None \<and>
          (0 < blob_max_bytes (be_settings (rx_blobs x)) \<longrightarrow> ac_rows_or_bytes stp \<le> blob_max_bytes (be_settings (rx_blobs x))))"

definition rows_counted :: "output_format \<Rightarrow> access_step \<Rightarrow> int" where
  "rows_counted fmt stp = (if ac_op stp = ''sql'' then ac_rows_or_bytes stp else if fmt = Raw then 0 else 1)"

lemma execute_op_matches:
  assumes "execute_op x fmt i op1 w m = Some (Inr (stp, rows), m1)"
  shows "step_matches x op1 stp \<and> rows = rows_counted fmt stp"
proof (cases op1)
  case (Sql_Op q)
  then have "is_safe_select q = Some True" using assms by (auto simp: execute_op_def split: option.splits bool.splits)
  then show ?thesis using assms Sql_Op
    by (auto simp: execute_op_def execute_sql_op_def step_matches_def rows_counted_def
        split: sum.splits prod.splits db_reply.splits if_splits)
next
  case (Storage_Get_Op b k)
  then show ?thesis using assms
    by (auto simp: execute_op_def execute_storage_get_def sanitize_blob_key_def step_matches_def rows_counted_def Let_def
        split: sum.splits prod.splits option.splits fetched.splits if_splits output_format.splits)
qed

lemma execute_ops_matches:
  "execute_ops x fmt i ops w m = Some (Inr (chain, tot, m1)) \<Longrightarrow>
   list_all2 (step_matches x) ops chain \<and> tot = sum_list (map (rows_counted fmt) chain)"
proof (induction ops arbitrary: i m chain tot m1)
  case (Cons op1 ops)
  from Cons.prems obtain stp rows m0 chain' tot' where
      one: "execute_op x fmt i op1 w m = Some (Inr (stp, rows), m0)"
    and rest: "execute_ops x fmt (i + 1) ops w m0 = Some (Inr (chain', tot', m1))" "chain = stp # chain'" "tot = rows + tot'"
    by (auto split: option.splits sum.splits prod.splits)
  show ?case using execute_op_matches[OF one] Cons.IH[OF rest(1)] rest(2,3) by simp
qed simp

text \<open>C16: A replay stores one object or nothing: when it fails or panics no object has changed, and when
  it answers, every operation of the plan ran in order, its SQL accepted by the guard and within the
  row cap, its key plain and its object within the size cap, the rows are counted exactly, and the
  output is the one new object, under the run's key, of the size reported.\<close>
theorem replay_outcome:
  assumes "replay x plan fmt rid w = (res, w')"
  shows "case res of
      None \<Rightarrow> w' = w
    | Some (Inl e) \<Rightarrow> w' = w
    | Some (Inr r) \<Rightarrow>
        list_all2 (step_matches x) (rp_plan plan) (rv_chain r) \<and> rp_plan plan \<noteq> [] \<and>
        rv_rowcount r = sum_list (map (rows_counted fmt) (rv_chain r)) \<and> rv_uri r = ''/blobs/'' @ result_key x fmt rid \<and>
        (\<exists>ob. object_at w' = (object_at w)(be_path (rx_blobs x) (result_key x fmt rid) \<mapsto> ob) \<and>
          int (length (ob_bytes ob)) = rv_size r) \<and> tenants_of w' = tenants_of w"
proof (cases "rp_plan plan = []")
  case True
  then show ?thesis using assms by (auto simp: replay_def)
next
  case False
  let ?out = "execute_ops x fmt 0 (rp_plan plan) w \<lparr>mt_format = fmt, mt_buf = [], mt_fields = None\<rparr>"
  consider "?out = None" | (failed) e where "?out = Some (Inl e)" | (ran) chain tot m where "?out = Some (Inr (chain, tot, m))"
    by (metis (no_types) option.exhaust prod_cases3 sum.exhaust)
  then show ?thesis
  proof cases
    case (ran chain tot m)
    let ?key = "result_key x fmt rid"
    obtain pr w1 where put: "put_with_optional_attrs (rx_blobs x) (be_path (rx_blobs x) ?key) (mt_buf m) (format_type fmt) w = (pr, w1)"
      by (meson surj_pair)
    from put show ?thesis
    proof (cases rule: put_attrs_cases)
      case (failed e)
      then show ?thesis using assms False ran put by (auto simp: replay_def write_to_store_def)
    next
      case (stored t)
      let ?r = "\<lparr>rv_run_id = rid, rv_uri = ''/blobs/'' @ ?key, rv_signed_url = [], rv_format = format_name fmt, rv_chain = chain,
          rv_rowcount = tot, rv_size = int (length (mt_buf m))\<rparr>"
      have out: "res = Some (Inr ?r)" "w' = w1" using assms False ran put stored by (simp_all add: replay_def write_to_store_def)
      have "object_at w1 = (object_at w)(be_path (rx_blobs x) ?key \<mapsto> \<lparr>ob_bytes = mt_buf m, ob_type = t\<rparr>)"
        using stored by (auto simp: fun_eq_iff)
      then have "\<exists>ob. object_at w1 = (object_at w)(be_path (rx_blobs x) ?key \<mapsto> ob) \<and> int (length (ob_bytes ob)) = rv_size ?r"
        by (intro exI[of _ "\<lparr>ob_bytes = mt_buf m, ob_type = t\<rparr>"]) simp
      moreover have "tenants_of w1 = tenants_of w" using stored by simp
      ultimately show ?thesis unfolding out using execute_ops_matches[OF ran] False by simp
    qed
  qed (use assms False in \<open>auto simp: replay_def\<close>)
qed

definition sample_retrieval :: retrieval_env where
  "sample_retrieval =
     \<lparr>rx_blobs = sample_blobs, rx_settings = (retrieval_from_env (\<lambda>k. None))\<lparr>retrieval_row_cap := 5, retrieval_stmt_timeout_ms := 9\<rparr>,
      rx_show = (\<lambda>v. ''v''), rx_plan = (\<lambda>v. Inl ''''),
      rx_pool = Inr (), rx_begin = Inr (), rx_setup = (\<lambda>s. Inr ()), rx_query = (\<lambda>q. Db_Rows [[(''a'', JString ''1''), (''b,c'', JNull)]]),
      rx_missing = (\<lambda>k. []), rx_read = (\<lambda>k. Inr ()), rx_elapsed = (\<lambda>i. 0)\<rparr>"

definition plan_of :: "retrieval_op list \<Rightarrow> retrieval_plan" where
  "plan_of ops = \<lparr>rp_plan = ops, rp_expected = None, rp_rationale = None\<rparr>"

theorem replay_outcome_witness:
  "(case fst (replay sample_retrieval (plan_of [Sql_Op ''SELECT 1'']) Csv ''r1'' blob_start) of
      Some (Inr r) \<Rightarrow> list_all2 (step_matches sample_retrieval) [Sql_Op ''SELECT 1''] (rv_chain r) \<and> rv_rowcount r = 1
    | _ \<Rightarrow> False)"
proof -
  let ?run = "replay sample_retrieval (plan_of [Sql_Op ''SELECT 1'']) Csv ''r1'' blob_start"
  have ran: "case fst ?run of Some (Inr r) \<Rightarrow> rv_rowcount r = 1 | _ \<Rightarrow> False" by code_simp
  then obtain r where r: "fst ?run = Some (Inr r)" by (auto split: option.splits sum.splits)
  have "?run = (Some (Inr r), snd ?run)" using r by (simp add: prod_eq_iff)
  from replay_outcome[OF this] show ?thesis using ran r by (simp add: plan_of_def)
qed

section \<open>What the comments promise and a replay does not do\<close>

lemma retrieval_reads_private_blobs:
  \<comment> \<open>anyone may replay: another tenant's bytes end up under a key that everyone may read\<close>
  "(let w = snd (upload sample_blobs (sample_user ''victim'') (\<lambda>k. None) ''data'' blob_start);
        key = tenant_key ''victim'' (replicate 64 CHR ''0'')
    in serve_blob sample_blobs (Some (sample_user ''other'')) key w = Inl (NotFound ''blob not found'') \<and>
       (case serve_blob sample_blobs None ''retrievals/r1/result.bin''
          (snd (replay sample_retrieval (plan_of [Storage_Get_Op None key]) Raw ''r1'' w)) of
          Inr r \<Rightarrow> rs_body r = ''data'' | Inl e \<Rightarrow> False))"
  by code_simp

lemma raw_output_drops_rows:
  "(case replay sample_retrieval (plan_of [Sql_Op ''SELECT 1'']) Raw ''r1'' blob_start of
      (Some (Inr r), w) \<Rightarrow> rv_rowcount r = 1 \<and> rv_size r = 0 | _ \<Rightarrow> False)"
  by code_simp

lemma csv_header_is_not_quoted:
  \<comment> \<open>a column named \<open>b,c\<close> reads back as two columns\<close>
  "(let m = write_row (\<lambda>v. []) [(''a'', JString ''1''), (''b,c'', JNull)] \<lparr>mt_format = Csv, mt_buf = [], mt_fields = None\<rparr>
    in fst (read_record (mt_buf m)) = [''a'', ''b'', ''c''])"
  by code_simp

lemma bucket_is_ignored: "execute_op x fmt i (Storage_Get_Op (Some b) key) w m = execute_op x fmt i (Storage_Get_Op None key) w m"
  by (simp add: execute_op_def)

end
