(* ===== verification/Spec2Isabelle.thy ===== *)
theory Spec2Isabelle
  imports Federation Llm_Stream Sync_Push Proposals Clickhouse Realtime_Stream Retrieval
begin

text \<open>
  A verification development of the data service (\<open>src/crates/platform/src\<close>): an HTTP
  service that serves declarative SQL reads, ingests records with provenance,
  fronts a pool of LLM backends, and federates with peers of its own kind.

  \<^bold>\<open>Conventions.\<close>  A Rust \<open>String\<close> is the list of its UTF-8 bytes; \<open>Result\<close> is a sum
  with the error on the left, usually \<open>api_result\<close>; a computation that may panic
  is a \<open>run\<close>, with \<open>None\<close> for the panic; a \<open>HashMap\<close> is an association list without
  order or a partial map.  Machine integers keep their width where it matters (words
  for the concurrency counters, \<open>mod\<close> for the rate counters and casts), floats are exact
  dyadic values (\<open>Rust_Float\<close>).  Databases, HTTP peers, caches of other crates, hashes
  and clocks are arguments; what is assumed of them is a named definition
  (\<open>honest_stores\<close>, \<open>honest_fwd_store\<close>, \<open>times_roundtrip\<close>, \<open>stamps_accepted\<close>) and holds for the
  sample of the witness.  A failed SQL statement is taken to store nothing, and a \<open>FINAL\<close> read
  of ClickHouse's \<open>ReplacingMergeTree\<close> to keep the last version of each sorting key.

  \<^bold>\<open>Shared theories.\<close>  \<open>Rust_Prelude\<close>: text, numbers and maps of the Rust standard
  library.  \<open>Rust_Float\<close>: \<open>f64\<close>.  \<open>Api_Error\<close>: \<open>error.rs\<close> and JSON.  \<open>Config\<close>: \<open>config.rs\<close>.

  \<^bold>\<open>Reads\<close> (\<open>read/\<close>).  \<open>Read_Ir\<close> and \<open>Read_Parse\<close> model the syntax tree and the parser of
  \<open>ir.rs\<close>, \<open>parse.rs\<close> (it terminates, and a WHERE clause it accepts prints back);
  \<open>Read_Spec\<close> the endpoint specs and their lint (\<open>spec.rs\<close>); \<open>Read_Bind\<close> the binding of
  parameters (\<open>bind.rs\<close>); \<open>Read_Dialect\<close> the lowering to Postgres and ClickHouse
  (\<open>dialect.rs\<close>), with the locales \<open>dialect\<close> and \<open>renderer\<close>; \<open>Read_Cache\<close> the two-level cache
  (\<open>cache.rs\<close>) as a step relation with invalidations; \<open>Read_Exec\<close> the handler (\<open>exec.rs\<close>).
  A request goes through \<open>parse_query\<close>, \<open>scope_query\<close>, \<open>resolve\<close>, the cache and
  \<open>produce\<close>.  The lemmas show that values never reach the SQL text, that tenant
  scoping binds the authenticated caller, that a cached body is one that was
  computed since the last invalidation, and that errors are not cached.

  \<^bold>\<open>Authentication\<close> (\<open>auth/\<close>).  \<open>Auth_Ratelimit\<close> (\<open>ratelimit.rs\<close>): fixed windows and in-flight
  counters under interleaving; \<open>Auth_Gate\<close> (\<open>mod.rs\<close>, \<open>lumid.rs\<close>): identities and the middleware.

  \<^bold>\<open>LLM proxy.\<close>  \<open>Llm_Pool\<close> (\<open>llm_pool.rs\<close>): backends, circuit breaker, selection.
  \<open>Llm_Route\<close> and \<open>Llm_Stream\<close> (\<open>handlers/llm.rs\<close>): routing, slots, fail-over, the streamed
  relay and its hedge race.

  \<^bold>\<open>Writes.\<close>  \<open>Write_Coerce\<close> (\<open>write/coerce.rs\<close>), \<open>Write_Engine\<close> (\<open>write/engine.rs\<close>, \<open>introspect.rs\<close>
  and the writing half of \<open>backend/postgres.rs\<close>): cells, staging, the merge and its effect on
  a table, given by the semantics of \<open>INSERT .. ON CONFLICT\<close>.  \<open>Ingest_Validate\<close>
  (\<open>validation/\<close>, \<open>ingest/acl.rs\<close>), \<open>Ingest_Core\<close> (\<open>ingest/core.rs\<close>, \<open>write/run.rs\<close>) over the locale
  \<open>storage_backend\<close>, interpreted on both engines, and \<open>Ingest_Routes\<close>
  (\<open>handlers/ingest.rs\<close>, \<open>ingest/webhook.rs\<close>).  The lemmas show that writes are authorized,
  that every record is accounted for, that re-ingesting is a no-op on tables
  with a natural key, and that the last record of a key wins.

  \<^bold>\<open>Tables and engines\<close> (\<open>backend/\<close>).  \<open>Table_Plan\<close>: identifiers, the plan of a table, its DDL for
  both engines (\<open>postgres.rs\<close>, \<open>clickhouse.rs\<close>) and the registry of engines with its cache
  (\<open>registry.rs\<close>).  \<open>Clickhouse\<close>: metadata, stamped rows and reads of the ClickHouse engine, the
  second interpretation of \<open>storage_backend\<close>; the lemmas relate what is written to the \<open>FINAL\<close> read.
  \<open>Proposals\<close> (\<open>ingest/proposals.rs\<close>, \<open>ingest/schema_suggest.rs\<close>): inferred shapes, their
  negotiation and approval.  An approval reads the proposal, creates the table and then books it
  in a transaction; it is split there, and \<open>prop_step\<close> interleaves the halves of several requests.

  \<^bold>\<open>Objects.\<close>  \<open>Blobs\<close> (\<open>ingest/blob.rs\<close>, \<open>handlers/blobs.rs\<close>, \<open>handlers/me_blobs.rs\<close>): content-addressed
  and tenant-private blobs and the routes by key, whose requests are the steps of \<open>blob_step\<close> and
  \<open>key_step\<close>; the paths of the object store are taken to keep plain keys apart.  \<open>Retrieval\<close>
  (\<open>retrieve/\<close>, \<open>handlers/retrieve.rs\<close>): the guard of SQL, characterised without its scanner, and the
  replay of a plan into one object; its lemmas on what gets past the guard and past the tenants'
  privacy are findings.

  \<^bold>\<open>Realtime\<close> (\<open>realtime/\<close>).  \<open>Realtime_Hub\<close> (\<open>hub.rs\<close>): queues, the index of subscribers and the
  signals of demand; the locale \<open>demand_source\<close>, interpreted on the hub, relates the signals told and
  in flight to the subscribers.  \<open>Realtime_Stream\<close> (\<open>handlers/ws.rs\<close>, \<open>handlers/sse_quotes.rs\<close>,
  \<open>health.rs\<close>): the streams of clients, whose turns interleave with the steps of all others.

  \<^bold>\<open>Between instances.\<close>  \<open>Federation\<close> (\<open>federation/mod.rs\<close>): the hop to a peer and the shadow
  middleware, split where it waits so that requests interleave.  \<open>Sync_Inbox\<close>
  (\<open>sync/mod.rs\<close>, \<open>sync/inbox.rs\<close>): batches are applied through \<open>ingest_records\<close> under a
  ledger.  \<open>Sync_Push\<close> (\<open>sync/push.rs\<close>): the keyset drain; its client side is proved in the locale
  \<open>batch_sink\<close>, interpreted on the inbox, so that cursor and ledger are related end to end.

  \<^bold>\<open>Fuel.\<close>  Only \<open>push_loop\<close> has fuel, one unit per page, because the table may grow while it is
  drained; \<open>push_completes\<close> shows that one unit more than there are rows behind the
  cursor is enough for a table that stays as it is.  Every other loop is total.

  \<^bold>\<open>Not modelled.\<close>  Reporting endpoints, catalog SQL, OpenAPI, boot and routing tables are SQL
  text or wiring; the body parsers are calls of library code.  The agent and its schema cards are
  conversations with a language model over text, and the MCP surface wraps the reads: these
  are left out whole.
  Of the modelled files, the table introspection leaves out its catalog queries, and the hub the
  percentiles of \<open>realtime_stats\<close>.
\<close>

end
